(* ===== verification/Prelude.thy ===== *)
theory Prelude
  imports Complex_Main "HOL-Library.AList" "HOL-Library.Multiset" "HOL-Library.Log_Nat"
begin

text \<open>
  Shared vocabulary of the development: Python dictionaries as insertion-ordered association
  lists, decimal rendering of integers (for the f-strings of the code), slices, and the
  simplification-rule collections the component theories extend.
\<close>

named_theorems dict_simps \<open>lookup, update and key laws of Python dictionaries\<close>
named_theorems float_bounds \<open>order laws of binary64 rounding\<close>
named_theorems step_defs \<open>definitions unfolded when a step of a component is executed\<close>

subsection \<open>Python dictionaries\<close>

text \<open>
  A Python \<^verbatim>\<open>dict\<close> keeps its keys in insertion order: assignment to a present key
  keeps the position, a new key goes to the end, deletion keeps the order of the others.
  \<^term>\<open>AList.update\<close> and \<^term>\<open>AList.delete\<close> behave exactly so.
\<close>

type_synonym ('k, 'v) dict = "('k \<times> 'v) list"

abbreviation dict_get :: "('k, 'v) dict \<Rightarrow> 'k \<Rightarrow> 'v option" where
  "dict_get \<equiv> map_of"

abbreviation dict_set :: "'k \<Rightarrow> 'v \<Rightarrow> ('k, 'v) dict \<Rightarrow> ('k, 'v) dict" where
  "dict_set \<equiv> AList.update"

abbreviation dict_del :: "'k \<Rightarrow> ('k, 'v) dict \<Rightarrow> ('k, 'v) dict" where
  "dict_del \<equiv> AList.delete"

abbreviation dict_mutate :: "'k \<Rightarrow> ('v \<Rightarrow> 'v) \<Rightarrow> ('k, 'v) dict \<Rightarrow> ('k, 'v) dict" where
  "dict_mutate \<equiv> AList.map_entry"

abbreviation dict_keys :: "('k, 'v) dict \<Rightarrow> 'k list" where
  "dict_keys d \<equiv> map fst d"

abbreviation dict_values :: "('k, 'v) dict \<Rightarrow> 'v list" where
  "dict_values d \<equiv> map snd d"

abbreviation dict_ok :: "('k, 'v) dict \<Rightarrow> bool" where
  "dict_ok d \<equiv> distinct (dict_keys d)"

text \<open>Lookups are kept as lookups, not turned into membership of the association list.\<close>

declare map_of_eq_Some_iff [simp del] Some_eq_map_of_iff [simp del]

lemma dict_set_get [dict_simps]: "dict_get (dict_set k v d) k' = (if k' = k then Some v else dict_get d k')"
  by (simp add: AList.update_conv')

lemma dict_del_get [dict_simps]: "dict_get (dict_del k d) k' = (if k' = k then None else dict_get d k')"
  by (simp add: AList.delete_conv')

lemma dict_mutate_get [dict_simps]:
  "dict_get (dict_mutate k f d) k' = (if k' = k then map_option f (dict_get d k) else dict_get d k')"
  by (induction d) auto

lemma dict_mutate_keys [simp]: "dict_keys (dict_mutate k f d) = dict_keys d"
  by (induction d) auto

lemma dict_set_fresh: "k \<notin> set (dict_keys d) \<Longrightarrow> dict_set k v d = d @ [(k, v)]"
  by (induction d) auto

lemma dict_set_mem: "x \<in> set (dict_set k v d) \<Longrightarrow> x = (k, v) \<or> x \<in> set d"
  by (induction d) (auto split: if_splits)

lemma dict_set_keys:
  "dict_keys (dict_set k v d) = (if k \<in> set (dict_keys d) then dict_keys d else dict_keys d @ [k])"
  by (simp add: AList.update_keys)

lemma dict_ok_set [simp]: "dict_ok d \<Longrightarrow> dict_ok (dict_set k v d)"
  by (simp add: AList.distinct_update)

lemma dict_ok_del [simp]: "dict_ok d \<Longrightarrow> dict_ok (dict_del k d)"
  by (simp add: AList.distinct_delete)

lemma dict_ok_filter [simp]: "dict_ok d \<Longrightarrow> dict_ok (filter P d)"
  by (induction d) auto

lemma dict_del_mem: "x \<in> set (dict_del k d) \<Longrightarrow> x \<in> set d"
  by (auto simp: AList.delete_eq)

lemma dict_get_filter:
  "dict_ok d \<Longrightarrow>
     dict_get (filter P d) k =
       (case dict_get d k of None \<Rightarrow> None | Some v \<Rightarrow> if P (k, v) then Some v else None)"
  by (induction d) (auto split: option.splits dest: map_of_SomeD simp: rev_image_eqI)

lemma dict_get_None_keys: "dict_get d k = None \<longleftrightarrow> k \<notin> set (dict_keys d)"
  by (simp add: map_of_eq_None_iff)

lemma dict_get_mem: "dict_get d k = Some v \<Longrightarrow> (k, v) \<in> set d"
  by (rule map_of_SomeD)

lemma dict_mem_get: "dict_ok d \<Longrightarrow> (k, v) \<in> set d \<Longrightarrow> dict_get d k = Some v"
  by (rule map_of_is_SomeI)

lemma dict_get_middle:
  "k \<notin> set (dict_keys pre) \<Longrightarrow>
     dict_get (pre @ (k, v) # post) k' = (if k' = k then Some v else dict_get (pre @ post) k')"
  by (induction pre) auto

lemma dict_mutate_absent: "k \<notin> set (dict_keys d) \<Longrightarrow> dict_mutate k f d = d"
  by (induction d) auto

lemma dict_mutate_mem:
  "dict_ok d \<Longrightarrow>
     (k', v) \<in> set (dict_mutate k f d) \<longleftrightarrow>
       (if k' = k then (\<exists>w. (k, w) \<in> set d \<and> v = f w) else (k', v) \<in> set d)"
  by (induction d) (auto simp: image_iff)

subsection \<open>Sums over the values of a dictionary\<close>

lemma dict_sum_mutate:
  fixes g :: "'v \<Rightarrow> 'a :: comm_monoid_add"
  assumes "dict_ok d" "dict_get d k = Some v"
  shows "(\<Sum>x\<leftarrow>dict_mutate k f d. g (snd x)) + g v = (\<Sum>x\<leftarrow>d. g (snd x)) + g (f v)"
  using assms
proof (induction d)
  case (Cons p d)
  then show ?case
    by (cases p) (auto simp: dict_get_None_keys dict_mutate_absent ac_simps split: if_splits)
qed simp

lemma dict_sum_del:
  fixes g :: "'v \<Rightarrow> 'a :: comm_monoid_add"
  assumes "dict_ok d" "dict_get d k = Some v"
  shows "(\<Sum>x\<leftarrow>dict_del k d. g (snd x)) + g v = (\<Sum>x\<leftarrow>d. g (snd x))"
  using assms
proof (induction d)
  case (Cons p d)
  then show ?case
    by (cases p) (auto simp: dict_get_None_keys ac_simps split: if_splits)
qed simp

lemma sum_list_dict_mutate:
  fixes g :: "'v \<Rightarrow> int"
  assumes "dict_ok d" "dict_get d k = Some v"
  shows "(\<Sum>x\<leftarrow>dict_mutate k f d. g (snd x)) = (\<Sum>x\<leftarrow>d. g (snd x)) - g v + g (f v)"
  using assms by (induction d) (auto split: if_splits)

lemma sum_list_dict_del:
  fixes g :: "'v \<Rightarrow> int"
  assumes "dict_ok d" "dict_get d k = Some v"
  shows "(\<Sum>x\<leftarrow>dict_del k d. g (snd x)) = (\<Sum>x\<leftarrow>d. g (snd x)) - g v"
  using assms
proof (induction d)
  case (Cons p d)
  then show ?case
    by (cases p) (auto simp: dict_get_None_keys split: if_splits)
qed simp

lemma sum_list_filter_zero:
  fixes g :: "'a \<Rightarrow> int"
  assumes "\<And>x. x \<in> set xs \<Longrightarrow> \<not> P x \<Longrightarrow> g x = 0"
  shows "sum_list (map g (filter P xs)) = sum_list (map g xs)"
  using assms by (induction xs) auto

lemma sum_list_filter_le:
  fixes g :: "'a \<Rightarrow> int"
  assumes "\<And>x. x \<in> set xs \<Longrightarrow> 0 \<le> g x"
  shows "sum_list (map g (filter P xs)) \<le> sum_list (map g xs)"
  using assms by (induction xs) (auto simp: add_increasing)

lemma sum_list_nonneg_int:
  fixes g :: "'a \<Rightarrow> int"
  assumes "\<And>x. x \<in> set xs \<Longrightarrow> 0 \<le> g x"
  shows "0 \<le> sum_list (map g xs)"
  using assms by (induction xs) auto

lemma sum_list_zero_iff_int:
  fixes g :: "'a \<Rightarrow> int"
  assumes "\<And>x. x \<in> set xs \<Longrightarrow> 0 \<le> g x"
  shows "sum_list (map g xs) = 0 \<longleftrightarrow> (\<forall>x \<in> set xs. g x = 0)"
  using assms
proof (induction xs)
  case (Cons a xs)
  then have "0 \<le> g a" "0 \<le> sum_list (map g xs)"
    by (auto intro!: sum_list_nonneg_int)
  then have "g a + sum_list (map g xs) = 0 \<longleftrightarrow> g a = 0 \<and> sum_list (map g xs) = 0"
    by linarith
  with Cons show ?case by simp
qed simp

subsection \<open>Decimal rendering\<close>

text \<open>\<^verbatim>\<open>str(n)\<close> of a Python integer, as used in f-strings.\<close>

definition digit_char :: "nat \<Rightarrow> char" where
  "digit_char d = char_of (48 + d)"

fun show_nat :: "nat \<Rightarrow> string" where
  "show_nat n = (if n < 10 then [digit_char n] else show_nat (n div 10) @ [digit_char (n mod 10)])"

declare show_nat.simps [simp del]

definition show_int :: "int \<Rightarrow> string" where
  "show_int i = (if i < 0 then ''-'' @ show_nat (nat (- i)) else show_nat (nat i))"

definition digit_value :: "char \<Rightarrow> nat" where
  "digit_value c = of_char c - 48"

definition read_nat :: "string \<Rightarrow> nat" where
  "read_nat cs = foldl (\<lambda>acc c. 10 * acc + digit_value c) 0 cs"

lemma digit_value_char [simp]: "d < 10 \<Longrightarrow> digit_value (digit_char d) = d"
  by (simp add: digit_value_def digit_char_def of_char_of)

lemma read_show_nat: "read_nat (show_nat n) = n"
proof (induction n rule: show_nat.induct)
  case (1 n)
  show ?case
  proof (cases "n < 10")
    case True
    then show ?thesis by (simp add: show_nat.simps [of n] read_nat_def)
  next
    case False
    with 1 have "read_nat (show_nat (n div 10)) = n div 10" by simp
    with False show ?thesis
      by (simp add: show_nat.simps [of n] read_nat_def)
  qed
qed

lemma show_nat_inject [simp]: "show_nat m = show_nat n \<longleftrightarrow> m = n"
  by (metis read_show_nat)

text \<open>\<^verbatim>\<open>sep.join(xs)\<close>.\<close>

definition join_with :: "string \<Rightarrow> string list \<Rightarrow> string" where
  "join_with sep xs = concat (case xs of [] \<Rightarrow> [] | y # ys \<Rightarrow> y # map (\<lambda>z. sep @ z) ys)"

lemma join_with_Nil [simp]: "join_with sep [] = []"
  by (simp add: join_with_def)

lemma join_with_single [simp]: "join_with sep [x] = x"
  by (simp add: join_with_def)

lemma join_with_Cons2: "join_with sep (x # y # ys) = x @ sep @ join_with sep (y # ys)"
  by (simp add: join_with_def)

subsection \<open>Slices and counting\<close>

text \<open>\<^verbatim>\<open>xs[offset : offset + limit]\<close> for non-negative bounds.\<close>

definition page_of :: "nat \<Rightarrow> nat \<Rightarrow> 'a list \<Rightarrow> 'a list" where
  "page_of offset limit xs = take limit (drop offset xs)"

lemma length_page_of: "length (page_of offset limit xs) = min limit (length xs - offset)"
  by (simp add: page_of_def min.commute)

end
