(* ===== verification/PyFloat.thy ===== *)
theory PyFloat
  imports Prelude
begin

text \<open>
  Python's \<^verbatim>\<open>float\<close> is IEEE-754 binary64 with round-to-nearest, ties-to-even. A finite
  float is a rational number, and each arithmetic operation of the code returns
  \<^verbatim>\<open>fl\<close> of the exact result: the nearest number \<open>m * 2^e\<close> with a 53-bit significand and
  \<open>e \<ge> -1074\<close>. The model has finite values only: infinities, NaN and the sign of zero are not
  represented (the one place of the code where a magnitude may leave the range,
  the power of two of the backoff, raises \<^verbatim>\<open>OverflowError\<close> and is modelled there).
  The definition is executable, so the value of a float expression can be computed by the kernel.

  The component proofs do not look inside \<^verbatim>\<open>fl\<close>: they use the contract \<^verbatim>\<open>float_rounding\<close>
  (monotone, odd, idempotent, exact on integers up to \<open>2^53\<close>), of which \<^verbatim>\<open>fl\<close> is an
  interpretation.
\<close>

type_synonym pyfloat = rat

subsection \<open>Rounding to binary64\<close>

definition round_half_even :: "rat \<Rightarrow> int" where
  "round_half_even x =
     (let f = \<lfloor>x\<rfloor>; d = x - of_int f in
      if d < 1 / 2 then f
      else if 1 / 2 < d then f + 1
      else if even f then f else f + 1)"

definition binary_exponent :: "rat \<Rightarrow> int" where
  "binary_exponent x =
     (let pq = quotient_of \<bar>x\<bar>; k = bitlen (fst pq) - bitlen (snd pq) in
      if \<bar>x\<bar> < 2 powi k then k - 1 else k)"

definition ulp_exponent :: "rat \<Rightarrow> int" where
  "ulp_exponent x = max (- 1074) (binary_exponent x - 52)"

definition fl :: "rat \<Rightarrow> pyfloat" where
  "fl x = (if x = 0 then 0
           else of_int (round_half_even (x / 2 powi ulp_exponent x)) * 2 powi ulp_exponent x)"

subsection \<open>Rounding to the nearest integer\<close>

lemma round_half_even_of_int [simp]: "round_half_even (of_int n) = n"
  by (simp add: round_half_even_def)

lemma round_half_even_bounds:
  "\<lfloor>x\<rfloor> \<le> round_half_even x" "round_half_even x \<le> \<lfloor>x\<rfloor> + 1"
  by (simp_all add: round_half_even_def Let_def)

lemma round_half_even_mono:
  assumes "x \<le> y"
  shows "round_half_even x \<le> round_half_even y"
proof (cases "\<lfloor>x\<rfloor> = \<lfloor>y\<rfloor>")
  case True
  then show ?thesis
    using assms by (auto simp: round_half_even_def Let_def)
next
  case False
  with floor_mono [OF assms] have "\<lfloor>x\<rfloor> + 1 \<le> \<lfloor>y\<rfloor>" by simp
  then show ?thesis
    using round_half_even_bounds [of x] round_half_even_bounds [of y] by linarith
qed

lemma round_half_even_le: "x \<le> of_int n \<Longrightarrow> round_half_even x \<le> n"
  using round_half_even_mono [of x "of_int n"] by simp

lemma round_half_even_ge: "of_int n \<le> x \<Longrightarrow> n \<le> round_half_even x"
  using round_half_even_mono [of "of_int n" x] by simp

lemma round_half_even_minus: "round_half_even (- x) = - round_half_even x"
proof (cases "x = of_int \<lfloor>x\<rfloor>")
  case True
  then obtain n where "x = of_int n" by blast
  then show ?thesis by (metis of_int_minus round_half_even_of_int)
next
  case False
  then have "\<lfloor>- x\<rfloor> = - \<lfloor>x\<rfloor> - 1"
    by linarith
  then show ?thesis
    by (auto simp: round_half_even_def Let_def)
qed

subsection \<open>The binary exponent\<close>

lemma binary_exponent_bounds:
  assumes "x \<noteq> 0"
  shows "2 powi binary_exponent x \<le> \<bar>x\<bar>" "\<bar>x\<bar> < 2 powi (binary_exponent x + 1)"
proof -
  obtain p q where pq: "quotient_of \<bar>x\<bar> = (p, q)" by (metis surj_pair)
  let ?k = "bitlen p - bitlen q"
  have x: "\<bar>x\<bar> = of_int p / of_int q" using quotient_of_div [OF pq] .
  have q: "0 < q" using quotient_of_denom_pos [OF pq] .
  have "0 < \<bar>x\<bar>" using assms by simp
  with x q have p: "0 < p" by (simp add: zero_less_divide_iff)
  have b1: "1 \<le> bitlen p" "1 \<le> bitlen q"
    using p q bitlen_eq_zero_iff [of p] bitlen_eq_zero_iff [of q] bitlen_nonneg [of p] bitlen_nonneg [of q]
    by linarith+
  have powi: "(2::rat) powi n = 2 ^ nat n" if "0 \<le> n" for n
    using that by (simp add: power_int_def)
  have rp: "(2::rat) powi (bitlen p - 1) \<le> of_int p" "of_int p < (2::rat) powi bitlen p"
    using bitlen_bounds [OF p] b1 by (simp_all add: powi flip: of_int_power_le_of_int_cancel_iff of_int_less_of_int_power_cancel_iff) 
  have rq: "(2::rat) powi (bitlen q - 1) \<le> of_int q" "of_int q < (2::rat) powi bitlen q"
    using bitlen_bounds [OF q] b1 by (simp_all add: powi flip: of_int_power_le_of_int_cancel_iff of_int_less_of_int_power_cancel_iff)
  have up: "\<bar>x\<bar> < 2 powi (?k + 1)"
  proof -
    have "\<bar>x\<bar> < 2 powi bitlen p / 2 powi (bitlen q - 1)"
      unfolding x using rp rq q by (intro frac_less) (auto simp: p less_imp_le)
    also have "\<dots> = 2 powi (?k + 1)" by (simp flip: power_int_diff add: algebra_simps)
    finally show ?thesis .
  qed
  have lo: "2 powi (?k - 1) \<le> \<bar>x\<bar>"
  proof -
    have "2 powi (?k - 1) = (2::rat) powi (bitlen p - 1) / 2 powi bitlen q"
      by (simp flip: power_int_diff add: algebra_simps)
    also have "\<dots> \<le> \<bar>x\<bar>"
      unfolding x using rp rq q p by (intro frac_le) (auto simp: less_imp_le)
    finally show ?thesis .
  qed
  show "2 powi binary_exponent x \<le> \<bar>x\<bar>" "\<bar>x\<bar> < 2 powi (binary_exponent x + 1)"
    using up lo by (auto simp: binary_exponent_def pq Let_def)
qed


lemma binary_exponent_mono:
  assumes "x \<noteq> 0" "\<bar>x\<bar> \<le> \<bar>y\<bar>"
  shows "binary_exponent x \<le> binary_exponent y"
proof (rule ccontr)
  assume "\<not> ?thesis"
  then have "(2::rat) powi (binary_exponent y + 1) \<le> 2 powi binary_exponent x"
    by (intro power_int_increasing) auto
  with binary_exponent_bounds [of x] binary_exponent_bounds [of y] assms show False
    by (metis abs_le_zero_iff abs_zero linorder_not_le order.strict_trans1 order.trans)
qed

lemma binary_exponent_less:
  assumes "x \<noteq> 0" "\<bar>x\<bar> < 2 powi n"
  shows "binary_exponent x < n"
proof (rule ccontr)
  assume "\<not> ?thesis"
  then have "(2::rat) powi n \<le> 2 powi binary_exponent x"
    by (intro power_int_increasing) auto
  with binary_exponent_bounds(1) [of x] assms show False by linarith
qed

lemma powi_split: "(2::rat) powi a = of_int (2 ^ nat (a - b)) * 2 powi b" if "b \<le> a"
proof -
  have "(2::rat) powi a = 2 powi ((a - b) + b)" by simp
  also have "\<dots> = 2 powi (a - b) * 2 powi b" by (subst power_int_add) auto
  also have "2 powi (a - b) = (of_int (2 ^ nat (a - b)) :: rat)"
    using that by (simp add: power_int_def)
  finally show ?thesis .
qed

subsection \<open>Order and exactness of the rounding\<close>

lemma fl_minus: "fl (- x) = - fl x"
  by (simp add: fl_def ulp_exponent_def binary_exponent_def round_half_even_minus)

lemma fl_zero [simp]: "fl 0 = 0"
  by (simp add: fl_def)

lemma fl_le_pow2:
  assumes "0 < x" "x \<le> 2 powi n" "ulp_exponent x \<le> n"
  shows "fl x \<le> 2 powi n"
proof -
  let ?u = "ulp_exponent x"
  have "x / 2 powi ?u \<le> of_int (2 ^ nat (n - ?u))"
    using assms powi_split [OF assms(3)] by (simp add: divide_le_eq)
  then have "round_half_even (x / 2 powi ?u) \<le> 2 ^ nat (n - ?u)"
    by (rule round_half_even_le)
  then have "(of_int (round_half_even (x / 2 powi ?u)) :: rat) \<le> of_int (2 ^ nat (n - ?u))"
    by (simp only: of_int_le_iff)
  then show ?thesis
    using assms(1) by (simp add: fl_def powi_split [OF assms(3)] del: of_int_power)
qed

lemma fl_ge_pow2:
  assumes "2 powi n \<le> x" "ulp_exponent x \<le> n"
  shows "2 powi n \<le> fl x"
proof -
  let ?u = "ulp_exponent x"
  have x: "0 < x" using assms(1) zero_less_power_int [of "2::rat" n] by linarith
  have "of_int (2 ^ nat (n - ?u)) \<le> x / 2 powi ?u"
    using assms powi_split [OF assms(2)] by (simp add: le_divide_eq)
  then have "2 ^ nat (n - ?u) \<le> round_half_even (x / 2 powi ?u)"
    by (rule round_half_even_ge)
  then have "of_int (2 ^ nat (n - ?u)) \<le> (of_int (round_half_even (x / 2 powi ?u)) :: rat)"
    by (simp only: of_int_le_iff)
  then show ?thesis
    using x by (simp add: fl_def powi_split [OF assms(2)] del: of_int_power)
qed

lemma fl_nonneg: "0 \<le> x \<Longrightarrow> 0 \<le> fl x"
  using round_half_even_ge [of 0 "x / 2 powi ulp_exponent x"]
  by (simp add: fl_def)

lemma fl_mono_pos:
  assumes "0 < x" "x \<le> y"
  shows "fl x \<le> fl y"
proof (cases "ulp_exponent x = ulp_exponent y")
  case True
  have "round_half_even (x / 2 powi ulp_exponent x) \<le> round_half_even (y / 2 powi ulp_exponent x)"
    using assms(2) by (intro round_half_even_mono divide_right_mono) auto
  with True assms show ?thesis by (simp add: fl_def)
next
  case False
  have le: "binary_exponent x \<le> binary_exponent y"
    using assms by (intro binary_exponent_mono) auto
  with False have lt: "binary_exponent x < binary_exponent y" "ulp_exponent x \<le> binary_exponent y"
    "ulp_exponent y \<le> binary_exponent y"
    by (auto simp: ulp_exponent_def)
  have "x < 2 powi (binary_exponent x + 1)"
    using binary_exponent_bounds(2) [of x] assms by simp
  also have "\<dots> \<le> 2 powi binary_exponent y"
    using lt by (intro power_int_increasing) auto
  finally have "fl x \<le> 2 powi binary_exponent y"
    using assms lt by (intro fl_le_pow2) auto
  also have "\<dots> \<le> fl y"
    using assms lt binary_exponent_bounds(1) [of y] by (intro fl_ge_pow2) auto
  finally show ?thesis .
qed

lemma fl_mono:
  assumes "x \<le> y"
  shows "fl x \<le> fl y"
proof -
  consider "0 < x" | "x \<le> 0" "0 \<le> y" | "y < 0" by linarith
  then show ?thesis
  proof cases
    case 1
    then show ?thesis using assms by (rule fl_mono_pos)
  next
    case 2
    then show ?thesis using fl_nonneg [of "- x"] fl_nonneg [of y] by (simp add: fl_minus)
  next
    case 3
    then show ?thesis using assms fl_mono_pos [of "- y" "- x"] by (simp add: fl_minus)
  qed
qed

text \<open>Numbers with a 53-bit significand are rounded to themselves.\<close>

lemma fl_representable_strict:
  assumes "\<bar>m\<bar> < 2 ^ 53" "- 1074 \<le> n"
  shows "fl (of_int m * 2 powi n) = of_int m * 2 powi n"
proof (cases "m = 0")
  case False
  let ?x = "of_int m * (2::rat) powi n"
  define u where "u = ulp_exponent ?x"
  have x: "?x \<noteq> 0" using False by simp
  have "\<bar>of_int m\<bar> < (2 ^ 53 :: rat)" using assms(1) by (simp flip: of_int_abs)
  then have "\<bar>?x\<bar> < 2 powi (n + 53)"
    by (simp add: abs_mult power_int_add)
  then have u: "u \<le> n"
    using binary_exponent_less [OF x, of "n + 53"] assms(2) by (simp add: u_def ulp_exponent_def)
  have xu: "?x = of_int (m * 2 ^ nat (n - u)) * 2 powi u"
    by (simp add: powi_split [OF u])
  have "?x / 2 powi u = of_int (m * 2 ^ nat (n - u))"
    by (subst xu) simp
  then have "fl ?x = of_int (m * 2 ^ nat (n - u)) * 2 powi u"
    using x by (simp only: fl_def u_def [symmetric] if_False round_half_even_of_int)
  with xu show ?thesis by (rule trans [OF _ sym, rotated])
qed simp

lemma fl_representable:
  assumes "\<bar>m\<bar> \<le> 2 ^ 53" "- 1074 \<le> n"
  shows "fl (of_int m * 2 powi n) = of_int m * 2 powi n"
proof (cases "\<bar>m\<bar> < 2 ^ 53")
  case True
  then show ?thesis using assms(2) by (rule fl_representable_strict)
next
  case False
  with assms(1) have "m = 2 * 2 ^ 52 \<or> m = 2 * - (2 ^ 52)"
    by (auto simp: abs_if split: if_splits)
  then obtain k where k: "m = 2 * k" "\<bar>k\<bar> < 2 ^ 53" by force
  have "of_int m * (2::rat) powi n = of_int k * 2 powi (n + 1)"
    by (simp add: k(1) power_int_add)
  then show ?thesis
    using fl_representable_strict [OF k(2), of "n + 1"] assms(2) by simp
qed

lemma fl_canonical:
  obtains m n where "fl x = of_int m * 2 powi n" "\<bar>m\<bar> \<le> 2 ^ 53" "- 1074 \<le> n"
proof (cases "x = 0")
  case True
  then show ?thesis using that [of 0 0] by simp
next
  case False
  let ?u = "ulp_exponent x" and ?r = "round_half_even (x / 2 powi ulp_exponent x)"
  have "\<bar>x\<bar> < 2 powi (binary_exponent x + 1)"
    using binary_exponent_bounds(2) [OF False] .
  also have "\<dots> \<le> 2 powi (53 + ?u)"
    by (intro power_int_increasing) (auto simp: ulp_exponent_def)
  also have "\<dots> = 2 ^ 53 * 2 powi ?u"
    by (subst power_int_add) auto
  finally have "\<bar>x / 2 powi ?u\<bar> \<le> 2 ^ 53"
    by (simp add: abs_divide divide_le_eq)
  then have "x / 2 powi ?u \<le> of_int (2 ^ 53)" "of_int (- (2 ^ 53)) \<le> x / 2 powi ?u"
    by (simp_all add: abs_le_iff del: abs_divide)
  then have "\<bar>?r\<bar> \<le> 2 ^ 53"
    using round_half_even_le [of "x / 2 powi ?u" "2 ^ 53"]
      round_half_even_ge [of "- (2 ^ 53)" "x / 2 powi ?u"]
    by (simp add: abs_le_iff)
  moreover have "fl x = of_int ?r * 2 powi ?u" using False by (simp add: fl_def)
  ultimately show ?thesis using that by (simp add: ulp_exponent_def)
qed

lemma fl_idem: "fl (fl x) = fl x"
  by (rule fl_canonical [of x]) (simp add: fl_representable)

lemma fl_of_int: "\<bar>k\<bar> \<le> 2 ^ 53 \<Longrightarrow> fl (of_int k) = of_int k"
  using fl_representable [of k 0] by simp

subsection \<open>The contract the components rely on\<close>

locale float_rounding =
  fixes rnd :: "rat \<Rightarrow> rat"
  assumes rnd_mono: "x \<le> y \<Longrightarrow> rnd x \<le> rnd y"
    and rnd_minus: "rnd (- x) = - rnd x"
    and rnd_idem: "rnd (rnd x) = rnd x"
    and rnd_of_int: "\<bar>k\<bar> \<le> 2 ^ 53 \<Longrightarrow> rnd (of_int k) = of_int k"
begin

text \<open>Rounding never crosses a representable number.\<close>

lemma rnd_le: "rnd y = y \<Longrightarrow> x \<le> y \<Longrightarrow> rnd x \<le> y"
  by (metis rnd_mono)

lemma rnd_ge: "rnd y = y \<Longrightarrow> y \<le> x \<Longrightarrow> y \<le> rnd x"
  by (metis rnd_mono)

lemma rnd_zero: "rnd 0 = 0"
  using rnd_of_int [of 0] by simp

lemma rnd_one: "rnd 1 = 1"
  using rnd_of_int [of 1] by simp

lemma rnd_nonneg: "0 \<le> x \<Longrightarrow> 0 \<le> rnd x"
  by (rule rnd_ge [OF rnd_zero])

lemma rnd_nonpos: "x \<le> 0 \<Longrightarrow> rnd x \<le> 0"
  by (rule rnd_le [OF rnd_zero])

lemma rnd_le_int: "\<bar>k\<bar> \<le> 2 ^ 53 \<Longrightarrow> x \<le> of_int k \<Longrightarrow> rnd x \<le> of_int k"
  by (rule rnd_le [OF rnd_of_int])

lemma rnd_ge_int: "\<bar>k\<bar> \<le> 2 ^ 53 \<Longrightarrow> of_int k \<le> x \<Longrightarrow> of_int k \<le> rnd x"
  by (rule rnd_ge [OF rnd_of_int])

end

interpretation binary64: float_rounding fl
  by unfold_locales (auto intro: fl_mono fl_minus fl_idem fl_of_int)

lemmas [float_bounds] =
  binary64.rnd_le binary64.rnd_ge binary64.rnd_nonneg binary64.rnd_nonpos

lemma fl_numeral [simp]: "(numeral w :: int) \<le> 2 ^ 53 \<Longrightarrow> fl (numeral w) = numeral w"
  using fl_of_int [of "numeral w"] by simp

lemma fl_one [simp]: "fl 1 = 1"
  by (rule binary64.rnd_one)

subsection \<open>Conversions of the Python library\<close>

text \<open>\<^verbatim>\<open>int(x)\<close> truncates towards zero; \<^verbatim>\<open>math.ceil\<close> is the ceiling.\<close>

definition py_int :: "pyfloat \<Rightarrow> int" where
  "py_int x = (if x < 0 then \<lceil>x\<rceil> else \<lfloor>x\<rfloor>)"

text \<open>
  \<^verbatim>\<open>round(x, n)\<close> on a float is correctly rounded in CPython: the float nearest to the decimal
  with \<open>n\<close> places nearest to \<open>x\<close> (ties to even).
\<close>

definition py_round :: "pyfloat \<Rightarrow> nat \<Rightarrow> pyfloat" where
  "py_round x n = fl (of_int (round_half_even (x * 10 ^ n)) / 10 ^ n)"

text \<open>\<^verbatim>\<open>rng.uniform(a, b)\<close> is \<^verbatim>\<open>a + (b - a) * random()\<close> with \<^verbatim>\<open>random()\<close> in \<open>[0, 1)\<close>.\<close>

definition py_uniform :: "pyfloat \<Rightarrow> pyfloat \<Rightarrow> pyfloat \<Rightarrow> pyfloat" where
  "py_uniform a b u = fl (a + fl (fl (b - a) * u))"

lemma py_int_le: "x \<le> of_int n \<Longrightarrow> 0 \<le> x \<Longrightarrow> py_int x \<le> n"
  by (simp add: py_int_def floor_le_iff)

lemma py_int_nonneg: "0 \<le> x \<Longrightarrow> 0 \<le> py_int x"
  by (simp add: py_int_def)

lemma py_int_nonpos: "x \<le> 0 \<Longrightarrow> py_int x \<le> 0"
  by (auto simp: py_int_def ceiling_le_iff floor_le_iff)

lemma py_uniform_zero_bounds:
  assumes "fl b = b" "0 \<le> b" "0 \<le> u" "u \<le> 1"
  shows "0 \<le> py_uniform 0 b u" "py_uniform 0 b u \<le> b"
proof -
  have "b * u \<le> b" using assms by (simp add: mult_left_le)
  then have "fl (b * u) \<le> b" by (rule binary64.rnd_le [OF assms(1)])
  moreover have "0 \<le> fl (b * u)" using assms by (simp add: fl_nonneg)
  ultimately show "0 \<le> py_uniform 0 b u" "py_uniform 0 b u \<le> b"
    by (simp_all add: py_uniform_def assms(1) fl_idem)
qed

end
