(* ===== verification/Models.thy ===== *)
theory Models
  imports PyFloat
begin

text \<open>
  The data of \<^verbatim>\<open>app/models.py\<close>: priorities, job states, prompts, work items, results and the
  \<^verbatim>\<open>Job\<close> record with its live counters, and the read-only views the API serves
  (\<^verbatim>\<open>ordered_results\<close>, \<^verbatim>\<open>dead_letter\<close>, \<^verbatim>\<open>cost_summary\<close>, \<^verbatim>\<open>snapshot\<close>). Field names carry
  a prefix for the class they belong to, because record fields are global names here.
  Python's \<^verbatim>\<open>int\<close> is \<^typ>\<open>int\<close>, \<^verbatim>\<open>float\<close> is \<^typ>\<open>pyfloat\<close>, \<^verbatim>\<open>str\<close> is \<^typ>\<open>string\<close>.
\<close>

subsection \<open>Enumerations\<close>

datatype priority = HIGH | NORMAL | LOW

fun priority_value :: "priority \<Rightarrow> string" where
  "priority_value HIGH = ''high''"
| "priority_value NORMAL = ''normal''"
| "priority_value LOW = ''low''"

datatype job_state = PENDING | RUNNING | COMPLETED | FAILED | CANCELLED

fun job_state_value :: "job_state \<Rightarrow> string" where
  "job_state_value PENDING = ''pending''"
| "job_state_value RUNNING = ''running''"
| "job_state_value COMPLETED = ''completed''"
| "job_state_value FAILED = ''failed''"
| "job_state_value CANCELLED = ''cancelled''"

text \<open>Priorities are ordered by urgency, so that statements about shares can use \<open>\<le>\<close>.\<close>

instantiation priority :: linorder
begin

fun urgency :: "priority \<Rightarrow> nat" where
  "urgency LOW = 0"
| "urgency NORMAL = 1"
| "urgency HIGH = 2"

definition less_eq_priority :: "priority \<Rightarrow> priority \<Rightarrow> bool" where
  "less_eq_priority p q \<longleftrightarrow> urgency p \<le> urgency q"

definition less_priority :: "priority \<Rightarrow> priority \<Rightarrow> bool" where
  "less_priority p q \<longleftrightarrow> urgency p < urgency q"

instance
proof
  fix p q r :: priority
  show "(p < q) = (p \<le> q \<and> \<not> q \<le> p)"
    by (auto simp: less_priority_def less_eq_priority_def)
  show "p \<le> p" by (simp add: less_eq_priority_def)
  show "p \<le> q \<Longrightarrow> q \<le> r \<Longrightarrow> p \<le> r" by (simp add: less_eq_priority_def)
  show "p \<le> q \<Longrightarrow> q \<le> p \<Longrightarrow> p = q"
    by (cases p; cases q) (simp_all add: less_eq_priority_def)
  show "p \<le> q \<or> q \<le> p" by (simp add: less_eq_priority_def linear)
qed

end

subsection \<open>Prompts, work items and results\<close>

record prompt_item =
  prompt_id :: "string option"
  prompt_text :: string

record work_item =
  item_seq :: nat
  item_id :: string
  item_prompt :: string

record inference_result =
  res_id :: string
  res_prompt :: string
  res_success :: bool
  res_output :: "string option"
  res_error :: "string option"
  res_attempts :: int
  res_input_tokens :: int
  res_output_tokens :: int
  res_cost_usd :: pyfloat

subsection \<open>Jobs\<close>

record job =
  job_id :: string
  state :: job_state
  job_priority :: priority
  total :: int
  completed :: int
  succeeded :: int
  failed :: int
  retries :: int
  input_tokens :: int
  output_tokens :: int
  cost_usd :: pyfloat
  idempotency_key :: "string option"
  request_fingerprint :: "string option"
  created_at :: pyfloat
  started_at :: "pyfloat option"
  finished_at :: "pyfloat option"
  results :: "(nat, inference_result) dict"

text \<open>The dataclass defaults; \<^verbatim>\<open>id\<close> and \<^verbatim>\<open>created_at\<close> come from default factories.\<close>

definition new_job :: "string \<Rightarrow> pyfloat \<Rightarrow> job" where
  "new_job uid now =
     \<lparr>job_id = uid, state = PENDING, job_priority = NORMAL, total = 0, completed = 0,
      succeeded = 0, failed = 0, retries = 0, input_tokens = 0, output_tokens = 0,
      cost_usd = 0, idempotency_key = None, request_fingerprint = None, created_at = now,
      started_at = None, finished_at = None, results = []\<rparr>"

definition ordered_results :: "job \<Rightarrow> inference_result list" where
  "ordered_results j = map (\<lambda>k. the (dict_get (results j) k)) (sort (dict_keys (results j)))"

definition dead_letter :: "job \<Rightarrow> inference_result list" where
  "dead_letter j = filter (\<lambda>r. \<not> res_success r) (ordered_results j)"

record cost_view =
  cv_input_tokens :: int
  cv_output_tokens :: int
  cv_total_tokens :: int
  cv_estimated_cost_usd :: pyfloat

definition cost_summary :: "job \<Rightarrow> cost_view" where
  "cost_summary j =
     \<lparr>cv_input_tokens = input_tokens j, cv_output_tokens = output_tokens j,
      cv_total_tokens = input_tokens j + output_tokens j,
      cv_estimated_cost_usd = py_round (cost_usd j) 6\<rparr>"

record job_snapshot =
  snap_job_id :: string
  snap_state :: job_state
  snap_priority :: priority
  snap_total :: int
  snap_completed :: int
  snap_succeeded :: int
  snap_failed :: int
  snap_pending :: int
  snap_retries :: int
  snap_progress :: string
  snap_percent :: pyfloat
  snap_cost :: cost_view
  snap_created_at :: pyfloat
  snap_started_at :: "pyfloat option"
  snap_finished_at :: "pyfloat option"
  snap_duration_seconds :: "pyfloat option"

text \<open>\<^verbatim>\<open>now\<close> is the value \<^verbatim>\<open>time.time()\<close> returns when the job is still running.\<close>

definition snapshot :: "pyfloat \<Rightarrow> int \<Rightarrow> job \<Rightarrow> job_snapshot" where
  "snapshot now pending j =
     \<lparr>snap_job_id = job_id j, snap_state = state j, snap_priority = job_priority j,
      snap_total = total j, snap_completed = completed j, snap_succeeded = succeeded j,
      snap_failed = failed j, snap_pending = pending, snap_retries = retries j,
      snap_progress = show_int (completed j) @ ''/'' @ show_int (total j),
      snap_percent =
        (if total j \<noteq> 0
         then py_round (fl (fl (of_int (completed j) / of_int (total j)) * 100)) 2
         else 0),
      snap_cost = cost_summary j,
      snap_created_at = created_at j, snap_started_at = started_at j,
      snap_finished_at = finished_at j,
      snap_duration_seconds =
        (case started_at j of
           None \<Rightarrow> None
         | Some s \<Rightarrow>
             Some (py_round (fl ((case finished_at j of Some f \<Rightarrow> f | None \<Rightarrow> now) - s)) 4))\<rparr>"

subsection \<open>Results in submission order\<close>

lemma length_ordered_results [simp]: "length (ordered_results j) = length (results j)"
  by (simp add: ordered_results_def)

lemma set_ordered_results:
  "dict_ok (results j) \<Longrightarrow> set (ordered_results j) = set (dict_values (results j))"
  by (force simp: ordered_results_def)

lemma mset_ordered_results:
  assumes "dict_ok (results j)"
  shows "mset (ordered_results j) = mset (dict_values (results j))"
proof -
  have "mset (ordered_results j) = image_mset (\<lambda>k. the (dict_get (results j) k)) (mset (dict_keys (results j)))"
    by (simp add: ordered_results_def)
  also have "\<dots> = mset (map (\<lambda>k. the (dict_get (results j) k)) (dict_keys (results j)))"
    by (simp only: mset_map)
  also have "map (\<lambda>k. the (dict_get (results j) k)) (dict_keys (results j)) = dict_values (results j)"
    using assms by (auto simp: dict_mem_get)
  finally show ?thesis .
qed

lemma ordered_results_nth:
  assumes "dict_ok (results j)" "set (dict_keys (results j)) = {0..<n}" "i < n"
  shows "ordered_results j ! i = the (dict_get (results j) i)"
proof -
  have "sort (dict_keys (results j)) = [0..<n]"
    using assms(1,2) by (intro sorted_distinct_set_unique) auto
  then show ?thesis using assms(3) by (simp add: ordered_results_def)
qed

lemma length_dead_letter:
  assumes "dict_ok (results j)"
  shows "length (dead_letter j) = length (filter (\<lambda>r. \<not> res_success r) (dict_values (results j)))"
proof -
  have "mset (dead_letter j) = mset (filter (\<lambda>r. \<not> res_success r) (dict_values (results j)))"
    by (simp add: dead_letter_def mset_ordered_results [OF assms])
  then show ?thesis by (rule mset_eq_length)
qed

subsection \<open>Bounds of the progress view\<close>

lemma py_round_mono: "x \<le> y \<Longrightarrow> py_round x n \<le> py_round y n"
  unfolding py_round_def
  by (intro fl_mono divide_right_mono) (auto intro: round_half_even_mono mult_right_mono)

lemma py_round_int:
  assumes "\<bar>k\<bar> \<le> 2 ^ 53"
  shows "py_round (of_int k) n = of_int k"
proof -
  have "(of_int k :: rat) * 10 ^ n = of_int (k * 10 ^ n)" by simp
  then have "round_half_even (of_int k * 10 ^ n) = k * 10 ^ n"
    by (simp only: round_half_even_of_int)
  then show ?thesis using assms by (simp add: py_round_def fl_of_int)
qed

text \<open>
  Progress view: for a job whose completed count is between 0 and its total (at most \<open>2^53\<close>), the
  percentage that \<^verbatim>\<open>snapshot\<close> reports is between 0 and 100, is 100 when the job is complete, and does not
  decrease as prompts complete.
\<close>

lemma snapshot_percent_bounds:
  assumes "0 \<le> completed j" "completed j \<le> total j"
  shows "0 \<le> snap_percent (snapshot now pend j) \<and> snap_percent (snapshot now pend j) \<le> 100 \<and>
    (0 < total j \<and> completed j = total j \<longrightarrow> snap_percent (snapshot now pend j) = 100) \<and>
    (\<forall>k. completed j \<le> k \<and> k \<le> total j \<longrightarrow>
       snap_percent (snapshot now pend j) \<le> snap_percent (snapshot now pend (j\<lparr>completed := k\<rparr>)))"
proof (cases "total j = 0")
  case True
  then show ?thesis by (simp add: snapshot_def)
next
  case False
  then have pos: "0 < total j" using assms by linarith
  let ?p = "\<lambda>k. py_round (fl (fl (of_int k / of_int (total j)) * 100)) 2"
  have mono: "?p a \<le> ?p b" if "a \<le> b" for a b
    using that pos by (intro py_round_mono fl_mono mult_right_mono divide_right_mono) auto
  have "?p (total j) = 100"
    using pos py_round_int [of 100 2] by simp
  moreover have "?p 0 = 0" using py_round_int [of 0 2] by simp
  ultimately show ?thesis
    using mono [of 0 "completed j"] mono [of "completed j" "total j"] mono [of "completed j"] assms False
    by (simp add: snapshot_def)
qed

end
