(* ===== verification/Scheduler.thy ===== *)
theory Scheduler
  imports Models
begin

text \<open>
  The weighted round-robin scheduler of \<^verbatim>\<open>app/scheduler.py\<close>: one queue per job, served in
  dictionary order while it has credit, with all credits restored when none is left.
  \<^verbatim>\<open>work_scheduler\<close> is the contract the engine relies on (per-job FIFO queues, no item lost or
  duplicated, a pending count equal to the queued work); \<^verbatim>\<open>fair\<close> interprets it on the
  code's operations.
\<close>

subsection \<open>State\<close>

record job_queue =
  q_job_id :: string
  q_weight :: int
  q_items :: "work_item list"
  q_credit :: int

record fair_scheduler =
  queues :: "(string, job_queue) dict"
  pending :: int

definition empty_scheduler :: fair_scheduler where
  "empty_scheduler = \<lparr>queues = [], pending = 0\<rparr>"

text \<open>\<^verbatim>\<open>PRIORITY_WEIGHTS\<close>; the dictionary has an entry for every priority.\<close>

fun priority_weight :: "priority \<Rightarrow> int" where
  "priority_weight HIGH = 4"
| "priority_weight NORMAL = 2"
| "priority_weight LOW = 1"

subsection \<open>Operations\<close>

definition add_job :: "string \<Rightarrow> work_item list \<Rightarrow> priority \<Rightarrow> fair_scheduler \<Rightarrow> fair_scheduler" where
  "add_job jid items prio s =
     (let w = priority_weight prio in
      s\<lparr>queues := dict_set jid \<lparr>q_job_id = jid, q_weight = w, q_items = items, q_credit = w\<rparr> (queues s),
        pending := pending s + int (length items)\<rparr>)"

definition remove_job :: "string \<Rightarrow> fair_scheduler \<Rightarrow> int \<times> fair_scheduler" where
  "remove_job jid s =
     (case dict_get (queues s) jid of
        None \<Rightarrow> (0, s)
      | Some q \<Rightarrow>
          (let removed = int (length (q_items q)) in
           (removed, s\<lparr>queues := dict_del jid (queues s), pending := pending s - removed\<rparr>)))"

text \<open>The first pass of \<^verbatim>\<open>pop\<close> deletes the queues that have drained.\<close>

definition drop_drained :: "(string, job_queue) dict \<Rightarrow> (string, job_queue) dict" where
  "drop_drained qs = filter (\<lambda>(j, q). q_items q \<noteq> []) qs"

definition reset_credits :: "(string, job_queue) dict \<Rightarrow> (string, job_queue) dict" where
  "reset_credits qs = map (\<lambda>(j, q). (j, q\<lparr>q_credit := q_weight q\<rparr>)) qs"

text \<open>
  The serving loop: the first queue in dictionary order that has an item and passes the
  credit test gives its oldest item and one credit.
\<close>

fun serve_first ::
  "(job_queue \<Rightarrow> bool) \<Rightarrow> (string, job_queue) dict \<Rightarrow>
     ((string \<times> work_item) \<times> (string, job_queue) dict) option" where
  "serve_first ok [] = None"
| "serve_first ok ((j, q) # qs) =
     (case q_items q of
        i # rest \<Rightarrow>
          (if ok q
           then Some ((q_job_id q, i), (j, q\<lparr>q_credit := q_credit q - 1, q_items := rest\<rparr>) # qs)
           else map_option (apsnd (Cons (j, q))) (serve_first ok qs))
      | [] \<Rightarrow> map_option (apsnd (Cons (j, q))) (serve_first ok qs))"

definition pop :: "fair_scheduler \<Rightarrow> (string \<times> work_item) option \<times> fair_scheduler" where
  "pop s =
     (let qs = drop_drained (queues s) in
      if qs = [] then (None, s\<lparr>queues := qs\<rparr>)
      else
        (let qs1 = (if \<not> (\<exists>(j, q) \<in> set qs. 0 < q_credit q) then reset_credits qs else qs) in
         case serve_first (\<lambda>q. 0 < q_credit q) qs1 of
           Some (got, qs2) \<Rightarrow> (Some got, s\<lparr>queues := qs2, pending := pending s - 1\<rparr>)
         | None \<Rightarrow>
             (let qs3 = reset_credits qs1 in
              case serve_first (\<lambda>_. True) qs3 of
                Some (got, qs4) \<Rightarrow> (Some got, s\<lparr>queues := qs4, pending := pending s - 1\<rparr>)
              | None \<Rightarrow> (None, s\<lparr>queues := qs3\<rparr>))))"

definition sched_active_jobs :: "fair_scheduler \<Rightarrow> nat" where
  "sched_active_jobs s = length (queues s)"

definition job_pending :: "string \<Rightarrow> fair_scheduler \<Rightarrow> nat" where
  "job_pending jid s =
     (case dict_get (queues s) jid of Some q \<Rightarrow> length (q_items q) | None \<Rightarrow> 0)"

subsection \<open>Well-formedness\<close>

definition queue_ok :: "string \<times> job_queue \<Rightarrow> bool" where
  "queue_ok jq \<longleftrightarrow> q_job_id (snd jq) = fst jq \<and> 1 \<le> q_weight (snd jq) \<and> q_weight (snd jq) \<le> 4 \<and>
     0 \<le> q_credit (snd jq) \<and> q_credit (snd jq) \<le> q_weight (snd jq)"

abbreviation queued :: "(string, job_queue) dict \<Rightarrow> int" where
  "queued qs \<equiv> (\<Sum>jq\<leftarrow>qs. int (length (q_items (snd jq))))"

definition scheduler_ok :: "fair_scheduler \<Rightarrow> bool" where
  "scheduler_ok s \<longleftrightarrow> dict_ok (queues s) \<and> (\<forall>jq \<in> set (queues s). queue_ok jq) \<and>
     pending s = queued (queues s)"

text \<open>The abstraction: the items queued for each job, oldest first.\<close>

definition items_of :: "fair_scheduler \<Rightarrow> string \<Rightarrow> work_item list" where
  "items_of s jid = (case dict_get (queues s) jid of Some q \<Rightarrow> q_items q | None \<Rightarrow> [])"

lemma priority_weight_pos: "1 \<le> priority_weight p"
  by (cases p) simp_all

lemma priority_weight_le: "priority_weight p \<le> 4"
  by (cases p) simp_all

lemma priority_weight_mono: "p \<le> q \<Longrightarrow> priority_weight p \<le> priority_weight q"
  by (cases p; cases q) (simp_all add: less_eq_priority_def)

lemma job_pending_items_of: "job_pending jid s = length (items_of s jid)"
  by (simp add: job_pending_def items_of_def split: option.split)

lemma empty_scheduler_ok: "scheduler_ok empty_scheduler"
  by (simp add: scheduler_ok_def empty_scheduler_def)

lemma add_job_ok:
  assumes "scheduler_ok s" "jid \<notin> set (dict_keys (queues s))"
  shows "scheduler_ok (add_job jid items prio s)"
  using assms priority_weight_pos [of prio] priority_weight_le [of prio]
  by (auto simp: scheduler_ok_def add_job_def Let_def dict_set_fresh queue_ok_def)

lemma pending_add_job: "pending (add_job jid items prio s) = pending s + int (length items)"
  by (simp add: add_job_def Let_def)

lemma items_of_add_job:
  "items_of (add_job jid items prio s) j = (if j = jid then items else items_of s j)"
  by (simp add: items_of_def add_job_def Let_def dict_simps)

lemma remove_job_ok: "scheduler_ok s \<Longrightarrow> scheduler_ok (snd (remove_job jid s))"
  unfolding scheduler_ok_def remove_job_def
  by (auto simp: sum_list_dict_del [where g = "\<lambda>q. int (length (q_items q))"]
      Let_def dest: dict_del_mem split: option.split)

lemma items_of_remove_job:
  "items_of (snd (remove_job jid s)) j = (if j = jid then [] else items_of s j)"
  by (auto simp: items_of_def remove_job_def Let_def dict_simps split: option.split)

lemma remove_job_count: "fst (remove_job jid s) = int (length (items_of s jid))"
  by (simp add: items_of_def remove_job_def Let_def split: option.split)


subsection \<open>One round of service\<close>

text \<open>The queues a call of \<^verbatim>\<open>pop\<close> serves from: drained queues gone, credits restored if spent.\<close>

definition round_queues :: "(string, job_queue) dict \<Rightarrow> (string, job_queue) dict" where
  "round_queues qs =
     (let ds = drop_drained qs in
      if \<exists>(j, q) \<in> set ds. 0 < q_credit q then ds else reset_credits ds)"

definition served_from ::
  "(job_queue \<Rightarrow> bool) \<Rightarrow> (string, job_queue) dict \<Rightarrow> string \<times> work_item \<Rightarrow> (string, job_queue) dict \<Rightarrow> bool" where
  "served_from ok qs got qs' \<longleftrightarrow>
     (\<exists>pre j q rest post. qs = pre @ (j, q) # post \<and> q_items q = snd got # rest \<and> ok q \<and>
        fst got = q_job_id q \<and>
        qs' = pre @ (j, q\<lparr>q_credit := q_credit q - 1, q_items := rest\<rparr>) # post \<and>
        (\<forall>(j', q') \<in> set pre. q_items q' = [] \<or> \<not> ok q'))"

lemma served_from_here:
  "q_items q = i # rest \<Longrightarrow> ok q \<Longrightarrow>
     served_from ok ((j, q) # qs) (q_job_id q, i) ((j, q\<lparr>q_credit := q_credit q - 1, q_items := rest\<rparr>) # qs)"
  unfolding served_from_def by (rule exI [of _ "[]"]) auto

lemma served_from_later:
  assumes "served_from ok qs got qs'" "q_items q = [] \<or> \<not> ok q"
  shows "served_from ok ((j, q) # qs) got ((j, q) # qs')"
proof -
  obtain pre j' q' rest post where "qs = pre @ (j', q') # post" "q_items q' = snd got # rest" "ok q'"
    "fst got = q_job_id q'" "qs' = pre @ (j', q'\<lparr>q_credit := q_credit q' - 1, q_items := rest\<rparr>) # post"
    "\<forall>(j', q') \<in> set pre. q_items q' = [] \<or> \<not> ok q'"
    using assms(1) unfolding served_from_def by blast
  with assms(2) show ?thesis
    unfolding served_from_def by (intro exI [of _ "(j, q) # pre"]) force
qed

lemma serve_first_SomeD: "serve_first ok qs = Some (got, qs') \<Longrightarrow> served_from ok qs got qs'"
  by (induction ok qs arbitrary: qs' rule: serve_first.induct)
    (auto split: list.splits if_splits intro: served_from_here served_from_later)

lemma serve_first_None_iff:
  "serve_first ok qs = None \<longleftrightarrow> (\<forall>(j, q) \<in> set qs. q_items q = [] \<or> \<not> ok q)"
  by (induction ok qs rule: serve_first.induct) (auto split: list.splits)

lemma reset_credits_simps [simp]:
  "reset_credits [] = []"
  "dict_keys (reset_credits qs) = dict_keys qs"
  "reset_credits qs = [] \<longleftrightarrow> qs = []"
  "queued (reset_credits qs) = queued qs"
  by (auto simp: reset_credits_def case_prod_beta comp_def)

lemma round_queues_keys: "dict_keys (round_queues qs) = dict_keys (drop_drained qs)"
  by (simp add: round_queues_def Let_def)

lemma queued_round_queues [simp]: "queued (round_queues qs) = queued qs"
proof -
  have "queued (drop_drained qs) = queued qs"
    unfolding drop_drained_def by (rule sum_list_filter_zero) auto
  then show ?thesis by (simp add: round_queues_def Let_def)
qed

lemma round_queues_nonempty: "(j, q) \<in> set (round_queues qs) \<Longrightarrow> q_items q \<noteq> []"
  by (auto simp: round_queues_def Let_def drop_drained_def reset_credits_def split: if_splits)

lemma round_queues_ok:
  "\<forall>jq \<in> set qs. queue_ok jq \<Longrightarrow> \<forall>jq \<in> set (round_queues qs). queue_ok jq"
  by (auto simp: round_queues_def Let_def drop_drained_def reset_credits_def queue_ok_def)

lemma round_queues_dict_ok: "dict_ok qs \<Longrightarrow> dict_ok (round_queues qs)"
  by (simp add: round_queues_keys drop_drained_def)

lemma round_queues_credit:
  assumes "\<forall>jq \<in> set qs. queue_ok jq" "round_queues qs \<noteq> []"
  shows "\<exists>(j, q) \<in> set (round_queues qs). 0 < q_credit q"
proof (cases "\<exists>(j, q) \<in> set (drop_drained qs). 0 < q_credit q")
  case True
  then show ?thesis by (simp add: round_queues_def Let_def)
next
  case False
  then have eq: "round_queues qs = reset_credits (drop_drained qs)"
    by (simp add: round_queues_def Let_def)
  then obtain j q where "(j, q) \<in> set (drop_drained qs)"
    using assms(2) by (cases "drop_drained qs") auto
  then show ?thesis
    using assms(1) unfolding eq
    by (force simp: reset_credits_def drop_drained_def queue_ok_def)
qed

text \<open>
  On a well-formed scheduler the first serving loop always finds a queue: the reset-and-retry
  code after it is never reached.
\<close>

lemma pop_eq:
  assumes "\<forall>jq \<in> set (queues s). queue_ok jq"
  shows "pop s =
    (case serve_first (\<lambda>q. 0 < q_credit q) (round_queues (queues s)) of
       None \<Rightarrow> (None, s\<lparr>queues := []\<rparr>)
     | Some (got, qs) \<Rightarrow> (Some got, s\<lparr>queues := qs, pending := pending s - 1\<rparr>))"
proof (cases "drop_drained (queues s) = []")
  case True
  then show ?thesis by (simp add: pop_def round_queues_def)
next
  case False
  then have ne: "round_queues (queues s) \<noteq> []" by (simp add: round_queues_def Let_def)
  obtain j q where "(j, q) \<in> set (round_queues (queues s))" "0 < q_credit q"
    using round_queues_credit [OF assms ne] by auto
  with round_queues_nonempty [of j q "queues s"]
  have "serve_first (\<lambda>q. 0 < q_credit q) (round_queues (queues s)) \<noteq> None"
    by (auto simp: serve_first_None_iff)
  moreover have "(if \<not> (\<exists>(j, q) \<in> set (drop_drained (queues s)). 0 < q_credit q)
      then reset_credits (drop_drained (queues s)) else drop_drained (queues s)) = round_queues (queues s)"
    by (simp add: round_queues_def)
  ultimately show ?thesis
    using False unfolding pop_def Let_def by (simp only: if_False) (auto split: option.split)
qed


lemma items_of_mem: "dict_ok (queues s) \<Longrightarrow> (j, q) \<in> set (queues s) \<Longrightarrow> items_of s j = q_items q"
  by (simp add: items_of_def)

lemma dict_get_drop_drained:
  "dict_ok qs \<Longrightarrow> dict_get (drop_drained qs) j =
     (case dict_get qs j of Some q \<Rightarrow> if q_items q = [] then None else Some q | None \<Rightarrow> None)"
  by (simp add: drop_drained_def dict_get_filter split: option.split)

lemma dict_get_reset_credits:
  "dict_get (reset_credits qs) j = map_option (\<lambda>q. q\<lparr>q_credit := q_weight q\<rparr>) (dict_get qs j)"
  by (induction qs) (auto simp: reset_credits_def)

text \<open>Normalising the queues changes no job's items.\<close>

lemma items_of_round_queues:
  "dict_ok (queues s) \<Longrightarrow> items_of (s\<lparr>queues := round_queues (queues s)\<rparr>) j = items_of s j"
  by (simp add: items_of_def round_queues_def Let_def dict_get_reset_credits dict_get_drop_drained
      split: option.split)

lemma pop_NoneD:
  assumes "scheduler_ok s" "pop s = (None, s')"
  shows "items_of s j = []" "items_of s' j = []" "scheduler_ok s'" "pending s' = pending s" "queues s' = []"
proof -
  have none: "serve_first (\<lambda>q. 0 < q_credit q) (round_queues (queues s)) = None"
    and s': "s' = s\<lparr>queues := []\<rparr>"
    using assms by (auto simp: pop_eq scheduler_ok_def split: option.splits)
  have empty: "round_queues (queues s) = []"
  proof (rule ccontr)
    assume "round_queues (queues s) \<noteq> []"
    then obtain j q where "(j, q) \<in> set (round_queues (queues s))" "0 < q_credit q"
      using round_queues_credit [of "queues s"] assms(1) by (auto simp: scheduler_ok_def)
    with round_queues_nonempty none show False by (fastforce simp: serve_first_None_iff)
  qed
  show "items_of s j = []"
    using items_of_round_queues [of s j] empty assms(1) by (simp add: scheduler_ok_def items_of_def)
  show "items_of s' j = []" by (simp add: s' items_of_def)
  show "scheduler_ok s'" "pending s' = pending s" "queues s' = []"
    using assms(1) queued_round_queues [of "queues s"]
    by (simp_all add: s' scheduler_ok_def empty)
qed

lemma pop_SomeD:
  assumes "scheduler_ok s" "pop s = (Some (jid, i), s')"
  shows "items_of s jid = i # items_of s' jid"
    and "j \<noteq> jid \<Longrightarrow> items_of s' j = items_of s j"
    and "scheduler_ok s'" "pending s' = pending s - 1"
proof -
  let ?R = "round_queues (queues s)"
  obtain qs where qs: "serve_first (\<lambda>q. 0 < q_credit q) ?R = Some ((jid, i), qs)"
    and s': "s' = s\<lparr>queues := qs, pending := pending s - 1\<rparr>"
    using assms by (auto simp: pop_eq scheduler_ok_def split: option.splits)
  obtain pre k q rest post where R: "?R = pre @ (k, q) # post" and q: "q_items q = i # rest"
    "0 < q_credit q" "jid = q_job_id q"
    and qs_eq: "qs = pre @ (k, q\<lparr>q_credit := q_credit q - 1, q_items := rest\<rparr>) # post"
    using serve_first_SomeD [OF qs] by (auto simp: served_from_def)
  have ok: "dict_ok ?R" "\<forall>jq \<in> set ?R. queue_ok jq"
    using assms(1) round_queues_dict_ok round_queues_ok by (auto simp: scheduler_ok_def)
  then have k: "k = jid" using q(3) by (auto simp: R queue_ok_def)
  have get: "items_of (s\<lparr>queues := ?R\<rparr>) j = items_of s j" for j
    using assms(1) by (simp add: items_of_round_queues scheduler_ok_def)
  have pre: "jid \<notin> set (dict_keys pre)" using ok(1) by (auto simp: R k)
  have before: "dict_get ?R j = (if j = jid then Some q else dict_get (pre @ post) j)" for j
    unfolding R k by (rule dict_get_middle [OF pre])
  have "queues s' = qs" by (simp add: s')
  then have after: "dict_get (queues s') j =
      (if j = jid then Some (q\<lparr>q_credit := q_credit q - 1, q_items := rest\<rparr>)
       else dict_get (pre @ post) j)" for j
    unfolding qs_eq k by (simp only: dict_get_middle [OF pre])
  have get: "(case dict_get ?R j of Some q \<Rightarrow> q_items q | None \<Rightarrow> []) = items_of s j" for j
    using get [of j] by (simp add: items_of_def)
  show "items_of s jid = i # items_of s' jid"
    using get [of jid] q(1) by (simp add: items_of_def before after)
  show "items_of s' j = items_of s j" if "j \<noteq> jid"
    using get [of j] that by (simp add: items_of_def before after)
  show "scheduler_ok s'"
    using ok assms(1) queued_round_queues [of "queues s"] q
    by (auto simp: scheduler_ok_def s' qs_eq R queue_ok_def)
  show "pending s' = pending s - 1" by (simp add: s')
qed

subsection \<open>The contract the engine relies on\<close>

text \<open>Calling the dequeue operation \<open>n\<close> times, collecting what it hands out.\<close>

fun drain_with :: "('s \<Rightarrow> 'g option \<times> 's) \<Rightarrow> nat \<Rightarrow> 's \<Rightarrow> 'g list \<times> 's" where
  "drain_with next_item 0 s = ([], s)"
| "drain_with next_item (Suc n) s =
     (case next_item s of
        (None, s') \<Rightarrow> ([], s')
      | (Some g, s') \<Rightarrow> (case drain_with next_item n s' of (gs, s'') \<Rightarrow> (g # gs, s'')))"

text \<open>The items handed out for one job, in order.\<close>

definition items_for :: "string \<Rightarrow> (string \<times> work_item) list \<Rightarrow> work_item list" where
  "items_for j gs = map snd (filter (\<lambda>g. fst g = j) gs)"

lemma items_for_simps [simp]:
  "items_for j [] = []"
  "items_for j ((k, i) # gs) = (if k = j then i # items_for j gs else items_for j gs)"
  by (simp_all add: items_for_def)

locale work_scheduler =
  fixes add :: "string \<Rightarrow> work_item list \<Rightarrow> priority \<Rightarrow> 's \<Rightarrow> 's"
    and remove :: "string \<Rightarrow> 's \<Rightarrow> int \<times> 's"
    and next_item :: "'s \<Rightarrow> (string \<times> work_item) option \<times> 's"
    and count :: "'s \<Rightarrow> int"
    and jobs :: "'s \<Rightarrow> string set"
    and items :: "'s \<Rightarrow> string \<Rightarrow> work_item list"
    and invar :: "'s \<Rightarrow> bool"
  assumes items_outside: "j \<notin> jobs s \<Longrightarrow> items s j = []"
    and finite_jobs: "finite (jobs s)"
    and count_items: "invar s \<Longrightarrow> count s = (\<Sum>j \<in> jobs s. int (length (items s j)))"
    and add_invar: "invar s \<Longrightarrow> j \<notin> jobs s \<Longrightarrow> invar (add j js p s)"
    and add_items: "items (add j js p s) k = (if k = j then js else items s k)"
    and remove_invar: "invar s \<Longrightarrow> invar (snd (remove j s))"
    and remove_items: "items (snd (remove j s)) k = (if k = j then [] else items s k)"
    and remove_count: "fst (remove j s) = int (length (items s j))"
    and next_None: "invar s \<Longrightarrow> next_item s = (None, s') \<Longrightarrow>
          invar s' \<and> items s k = [] \<and> items s' k = []"
    and next_Some: "invar s \<Longrightarrow> next_item s = (Some (j, i), s') \<Longrightarrow>
          invar s' \<and> items s j = i # items s' j \<and> (k \<noteq> j \<longrightarrow> items s' k = items s k)"
begin

lemma count_sum:
  assumes "invar s" "finite A" "jobs s \<subseteq> A"
  shows "count s = (\<Sum>j \<in> A. int (length (items s j)))"
  unfolding count_items [OF assms(1)]
  using assms(2,3) by (rule sum.mono_neutral_left) (simp add: items_outside)

lemma count_zero_iff: "invar s \<Longrightarrow> count s = 0 \<longleftrightarrow> (\<forall>j. items s j = [])"
  using finite_jobs [of s] items_outside [of _ s]
  by (auto simp: count_items sum_nonneg_eq_0_iff)

lemma count_nonneg: "invar s \<Longrightarrow> 0 \<le> count s"
  by (simp add: count_items sum_nonneg)

lemma count_pos: "invar s \<Longrightarrow> items s j \<noteq> [] \<Longrightarrow> 0 < count s"
  using count_zero_iff [of s] count_nonneg [of s] by (auto simp: less_le)

lemma count_next:
  assumes "invar s" "next_item s = (Some (j, i), s')"
  shows "count s' = count s - 1"
proof -
  let ?A = "jobs s \<union> jobs s' \<union> {j}" and ?n = "\<lambda>s k. int (length (items s k))"
  have fin: "finite ?A" by (simp add: finite_jobs)
  note n = next_Some [OF assms]
  have "count s' = sum (?n s') ?A" using n fin by (intro count_sum) auto
  also have "\<dots> = ?n s' j + sum (?n s') (?A - {j})"
    using fin by (intro sum.remove) auto
  also have "sum (?n s') (?A - {j}) = sum (?n s) (?A - {j})"
    using n by (intro sum.cong) auto
  also have "?n s' j + sum (?n s) (?A - {j}) = ?n s j + sum (?n s) (?A - {j}) - 1"
    using n by simp
  also have "?n s j + sum (?n s) (?A - {j}) = sum (?n s) ?A"
    using fin by (intro sum.remove [symmetric]) auto
  also have "\<dots> = count s" using assms fin by (intro count_sum [symmetric]) auto
  finally show ?thesis .
qed

lemma next_progress: "invar s \<Longrightarrow> 0 < count s \<Longrightarrow> \<exists>g s'. next_item s = (Some g, s')"
  by (metis count_zero_iff less_irrefl next_None option.exhaust surj_pair)

text \<open>Draining hands out every queued item once, each job's items in their order.\<close>

lemma drain_items:
  assumes "invar s" "count s = int n" "drain_with next_item n s = (gs, s')"
  shows "length gs = n \<and> (\<forall>j. items_for j gs = items s j) \<and> invar s' \<and> (\<forall>j. items s' j = [])"
  using assms
proof (induction n arbitrary: s gs)
  case 0
  then show ?case using count_zero_iff [of s] by auto
next
  case (Suc n)
  then obtain j i s1 where nxt: "next_item s = (Some (j, i), s1)"
    using next_progress [of s] by auto
  obtain hs s2 where hs: "drain_with next_item n s1 = (hs, s2)" by (metis surj_pair)
  then have gs: "gs = (j, i) # hs" "s' = s2" using Suc.prems(3) nxt by auto
  have "count s1 = int n" using count_next [OF Suc.prems(1) nxt] Suc.prems(2) by simp
  with Suc.IH [of s1 hs] hs next_Some [OF Suc.prems(1) nxt] gs show ?case
    by (auto simp: all_conj_distrib)
qed

end

interpretation fair: work_scheduler add_job remove_job pop pending
  "\<lambda>s. set (dict_keys (queues s))" items_of scheduler_ok
proof unfold_locales
  fix s j
  show "j \<notin> set (dict_keys (queues s)) \<Longrightarrow> items_of s j = []"
    unfolding items_of_def dict_get_None_keys [symmetric] by simp
  show "scheduler_ok s \<Longrightarrow> pending s = (\<Sum>j \<in> set (dict_keys (queues s)). int (length (items_of s j)))"
  proof -
    assume ok: "scheduler_ok s"
    then have "(\<Sum>j \<in> set (dict_keys (queues s)). int (length (items_of s j))) =
        (\<Sum>j\<leftarrow>dict_keys (queues s). int (length (items_of s j)))"
      by (intro sum_list_distinct_conv_sum_set [symmetric]) (simp add: scheduler_ok_def)
    also have "\<dots> = queued (queues s)"
      using ok by (auto simp: scheduler_ok_def items_of_mem comp_def intro!: arg_cong [of _ _ sum_list])
    finally show ?thesis using ok by (simp add: scheduler_ok_def)
  qed
qed (auto simp: add_job_ok items_of_add_job remove_job_ok items_of_remove_job remove_job_count
    dest: pop_NoneD pop_SomeD)

end
