(* ===== verification/Fairness.thy ===== *)
theory Fairness
  imports Scheduler
begin

text \<open>
  Fairness of the weighted round-robin scheduler: how long a job with pending items can wait
  when no job arrives, how a full round divides the service, and what happens when
  jobs keep arriving.
\<close>

subsection \<open>Waiting time without arrivals\<close>

text \<open>What the other queues may still take before job \<open>j\<close> is served.\<close>

definition others :: "string \<Rightarrow> (job_queue \<Rightarrow> int) \<Rightarrow> (string, job_queue) dict \<Rightarrow> int" where
  "others j f qs = (\<Sum>kq\<leftarrow>filter (\<lambda>kq. fst kq \<noteq> j) qs. f (snd kq))"

definition has_credit :: "string \<Rightarrow> (string, job_queue) dict \<Rightarrow> bool" where
  "has_credit j qs \<longleftrightarrow> (\<exists>q. dict_get qs j = Some q \<and> 0 < q_credit q)"

definition wait_bound :: "string \<Rightarrow> (string, job_queue) dict \<Rightarrow> int" where
  "wait_bound j qs =
     others j q_credit qs + (if has_credit j qs then 0 else others j q_weight qs)"

lemma others_filter_le:
  assumes "\<And>kq. kq \<in> set qs \<Longrightarrow> 0 \<le> f (snd kq)"
  shows "others j f (filter P qs) \<le> others j f qs"
proof -
  have "others j f (filter P qs) = (\<Sum>kq\<leftarrow>filter P (filter (\<lambda>kq. fst kq \<noteq> j) qs). f (snd kq))"
    by (simp add: others_def conj_commute)
  also have "\<dots> \<le> others j f qs"
    unfolding others_def using assms by (intro sum_list_filter_le) auto
  finally show ?thesis .
qed

lemma others_nonneg:
  assumes "\<And>kq. kq \<in> set qs \<Longrightarrow> 0 \<le> f (snd kq)"
  shows "0 \<le> others j f qs"
  unfolding others_def using assms by (intro sum_list_nonneg_int) auto

lemma others_reset_credits: "others j q_credit (reset_credits qs) = others j q_weight qs"
  by (induction qs) (auto simp: others_def reset_credits_def)

lemma others_zero:
  assumes "\<And>kq. kq \<in> set qs \<Longrightarrow> f (snd kq) = 0"
  shows "others j f qs = 0"
  using assms by (induction qs) (auto simp: others_def)

lemma others_weight_reset: "others j q_weight (reset_credits qs) = others j q_weight qs"
  by (induction qs) (auto simp: others_def reset_credits_def)

lemma wait_bound_round_queues:
  assumes ok: "\<forall>jq \<in> set qs. queue_ok jq" and dk: "dict_ok qs"
    and j: "dict_get qs j = Some q" "q_items q \<noteq> []"
  shows "wait_bound j (round_queues qs) \<le> wait_bound j qs"
proof -
  let ?d = "drop_drained qs"
  have get: "dict_get ?d j = Some q" using dk j by (simp add: dict_get_drop_drained)
  then have hc: "has_credit j ?d = has_credit j qs" using j by (simp add: has_credit_def)
  have "others j q_credit ?d \<le> others j q_credit qs" "others j q_weight ?d \<le> others j q_weight qs"
    unfolding drop_drained_def using ok by (auto intro!: others_filter_le simp: queue_ok_def)
  then have drop: "wait_bound j ?d \<le> wait_bound j qs" by (simp add: wait_bound_def hc)
  show ?thesis
  proof (cases "\<exists>(k, p) \<in> set ?d. 0 < q_credit p")
    case True
    then show ?thesis using drop by (simp add: round_queues_def)
  next
    case False
    then have eq: "round_queues qs = reset_credits ?d" by (simp add: round_queues_def)
    have zero: "q_credit p = 0" if "(k, p) \<in> set ?d" for k p
      using that False ok by (fastforce simp: drop_drained_def queue_ok_def)
    then have "\<not> has_credit j ?d" using get by (auto simp: has_credit_def dest: dict_get_mem)
    moreover have "has_credit j (reset_credits ?d)"
      using get ok dict_get_mem [OF j(1)]
      by (auto simp: has_credit_def dict_get_reset_credits queue_ok_def)
    moreover have "others j q_credit ?d = 0" using zero by (auto intro: others_zero)
    ultimately have "wait_bound j (round_queues qs) = wait_bound j ?d"
      by (simp add: wait_bound_def eq others_reset_credits)
    then show ?thesis using drop by simp
  qed
qed

lemma pop_other_decreases:
  assumes "scheduler_ok s" "items_of s j \<noteq> []" "pop s = (Some (k, i), s')" "k \<noteq> j"
  shows "wait_bound j (queues s') < wait_bound j (queues s)"
proof -
  let ?R = "round_queues (queues s)"
  have ok: "\<forall>jq \<in> set (queues s). queue_ok jq" "dict_ok (queues s)"
    using assms(1) by (auto simp: scheduler_ok_def)
  obtain q where q: "dict_get (queues s) j = Some q" "q_items q \<noteq> []"
    using assms(2) by (auto simp: items_of_def split: option.splits)
  obtain qs where qs: "serve_first (\<lambda>q. 0 < q_credit q) ?R = Some ((k, i), qs)"
    and s': "queues s' = qs"
    using assms(3) ok(1) by (auto simp: pop_eq split: option.splits)
  obtain pre k' p rest post where R: "?R = pre @ (k', p) # post" and p: "k = q_job_id p"
    and qs_eq: "qs = pre @ (k', p\<lparr>q_credit := q_credit p - 1, q_items := rest\<rparr>) # post"
    using serve_first_SomeD [OF qs] by (auto simp: served_from_def)
  have Rok: "dict_ok ?R" "\<forall>jq \<in> set ?R. queue_ok jq"
    using ok round_queues_dict_ok round_queues_ok by auto
  then have k': "k' = k" "k \<notin> set (dict_keys pre)"
    using p by (auto simp: R queue_ok_def)
  have "others j q_credit qs = others j q_credit ?R - 1" "others j q_weight qs = others j q_weight ?R"
    using assms(4) k' by (simp_all add: others_def qs_eq R)
  moreover have "has_credit j qs = has_credit j ?R"
    unfolding has_credit_def qs_eq R k' dict_get_middle [OF k'(2)] using assms(4) by simp
  ultimately have "wait_bound j qs = wait_bound j ?R - 1" by (simp add: wait_bound_def)
  with wait_bound_round_queues [OF ok q] s' show ?thesis by simp
qed

lemma wait_bound_nonneg: "scheduler_ok s \<Longrightarrow> 0 \<le> wait_bound j (queues s)"
  unfolding wait_bound_def scheduler_ok_def
  by (intro add_nonneg_nonneg) (auto intro!: others_nonneg simp: queue_ok_def)

lemma others_le:
  fixes c :: int
  assumes "\<And>kq. kq \<in> set qs \<Longrightarrow> f (snd kq) \<le> c" "0 \<le> c" "dict_ok qs" "j \<in> set (dict_keys qs)"
  shows "others j f qs \<le> c * (int (length qs) - 1)"
proof -
  let ?o = "filter (\<lambda>kq. fst kq \<noteq> j) qs"
  have "others j f qs \<le> c * int (length ?o)"
    unfolding others_def using assms(1) by (induction qs) (auto simp: algebra_simps add_mono)
  moreover have "length ?o < length qs"
    using assms(4) by (auto intro: length_filter_less)
  then have "c * int (length ?o) \<le> c * (int (length qs) - 1)"
    using assms(2) by (intro mult_left_mono) auto
  ultimately show ?thesis by linarith
qed

lemma wait_bound_le:
  assumes "scheduler_ok s" "j \<in> set (dict_keys (queues s))"
  shows "wait_bound j (queues s) \<le> 8 * (int (sched_active_jobs s) - 1)"
proof -
  have ok: "\<And>kq. kq \<in> set (queues s) \<Longrightarrow> queue_ok kq" "dict_ok (queues s)"
    using assms(1) by (simp_all add: scheduler_ok_def)
  have "others j q_credit (queues s) \<le> 4 * (int (sched_active_jobs s) - 1)"
    unfolding sched_active_jobs_def using ok(1)
    by (intro others_le [OF _ _ ok(2) assms(2)]) (fastforce simp: queue_ok_def)+
  moreover have "others j q_weight (queues s) \<le> 4 * (int (sched_active_jobs s) - 1)"
    unfolding sched_active_jobs_def using ok(1)
    by (intro others_le [OF _ _ ok(2) assms(2)]) (fastforce simp: queue_ok_def)+
  moreover have "1 \<le> int (sched_active_jobs s)"
    using assms(2) by (cases "queues s") (auto simp: sched_active_jobs_def)
  ultimately show ?thesis by (simp add: wait_bound_def)
qed

lemma served_within:
  assumes "scheduler_ok s" "items_of s j = i # rest" "wait_bound j (queues s) < int n"
    "drain_with pop n s = (gs, s')"
  shows "(j, i) \<in> set gs"
  using assms
proof (induction n arbitrary: s gs s')
  case 0
  then show ?case using wait_bound_nonneg [of s j] by simp
next
  case (Suc n)
  have "0 < pending s" using fair.count_pos [OF Suc.prems(1), of j] Suc.prems(2) by simp
  then obtain k x s1 where nxt: "pop s = (Some (k, x), s1)"
    using fair.next_progress [OF Suc.prems(1)] by auto
  obtain hs s2 where hs: "drain_with pop n s1 = (hs, s2)" by (metis surj_pair)
  then have gs: "gs = (k, x) # hs" using Suc.prems(4) nxt by auto
  note n = pop_SomeD [OF Suc.prems(1) nxt]
  show ?case
  proof (cases "k = j")
    case True
    then show ?thesis using n(1) Suc.prems(2) gs by simp
  next
    case False
    have "wait_bound j (queues s1) < int n"
      using pop_other_decreases [OF Suc.prems(1) _ nxt False] Suc.prems(2,3) by simp
    then have "(j, i) \<in> set hs"
      using Suc.IH [OF n(3) _ _ hs] n(2) False Suc.prems(2) by simp
    then show ?thesis by (simp add: gs)
  qed
qed


subsection \<open>One full round\<close>

text \<open>What a round still has to serve: each queue's oldest items, up to its credit.\<close>

definition round_trace :: "(string, job_queue) dict \<Rightarrow> (string \<times> work_item) list" where
  "round_trace qs =
     concat (map (\<lambda>(j, q). map (Pair (q_job_id q)) (take (nat (q_credit q)) (q_items q))) qs)"

definition backlogged :: "(string, job_queue) dict \<Rightarrow> bool" where
  "backlogged qs \<longleftrightarrow> (\<forall>(j, q) \<in> set qs. 0 \<le> q_credit q \<and> q_credit q \<le> int (length (q_items q)))"

lemma round_trace_simps [simp]:
  "round_trace [] = []"
  "round_trace (xs @ ys) = round_trace xs @ round_trace ys"
  "round_trace ((j, q) # qs) =
     map (Pair (q_job_id q)) (take (nat (q_credit q)) (q_items q)) @ round_trace qs"
  by (simp_all add: round_trace_def)

lemma round_trace_drop_drained: "round_trace (drop_drained qs) = round_trace qs"
  by (induction qs) (auto simp: round_trace_def drop_drained_def)

lemma round_trace_idle:
  "\<forall>(j, q) \<in> set qs. q_items q = [] \<or> \<not> 0 < q_credit q \<Longrightarrow> round_trace qs = []"
  by (induction qs) (auto simp: round_trace_def)

lemma length_round_trace:
  "backlogged qs \<Longrightarrow> int (length (round_trace qs)) = (\<Sum>jq\<leftarrow>qs. q_credit (snd jq))"
  by (induction qs) (auto simp: backlogged_def round_trace_def min_def)

lemma pop_round_trace:
  assumes ok: "scheduler_ok s" and bl: "backlogged (queues s)" and ne: "round_trace (queues s) = g # gs"
  obtains s' where "pop s = (Some g, s')" "round_trace (queues s') = gs" "backlogged (queues s')"
    "scheduler_ok s'"
proof -
  let ?d = "drop_drained (queues s)"
  have "round_trace ?d \<noteq> []" using ne by (simp add: round_trace_drop_drained)
  then have "\<exists>(j, q) \<in> set ?d. 0 < q_credit q" using round_trace_idle [of ?d] by fastforce
  then have R: "round_queues (queues s) = ?d" by (simp add: round_queues_def)
  have qok: "\<forall>jq \<in> set (queues s). queue_ok jq" using ok by (simp add: scheduler_ok_def)
  obtain got qs where sf: "serve_first (\<lambda>q. 0 < q_credit q) ?d = Some (got, qs)"
    using \<open>\<exists>(j, q) \<in> set ?d. 0 < q_credit q\<close> serve_first_None_iff [of "\<lambda>q. 0 < q_credit q" ?d]
    by (cases "serve_first (\<lambda>q. 0 < q_credit q) ?d") (auto simp: drop_drained_def)
  obtain pre j q rest post where d: "?d = pre @ (j, q) # post" and q: "q_items q = snd got # rest"
    "0 < q_credit q" "fst got = q_job_id q"
    and qs: "qs = pre @ (j, q\<lparr>q_credit := q_credit q - 1, q_items := rest\<rparr>) # post"
    and pre: "\<forall>(j', q') \<in> set pre. q_items q' = [] \<or> \<not> 0 < q_credit q'"
    using serve_first_SomeD [OF sf] by (auto simp: served_from_def)
  have step: "pop s = (Some got, s\<lparr>queues := qs, pending := pending s - 1\<rparr>)"
    using qok sf by (simp add: pop_eq R)
  have "nat (q_credit q) = Suc (nat (q_credit q - 1))" using q(2) by simp
  then have "round_trace ?d = got # round_trace qs"
    using q round_trace_idle [OF pre] by (cases got) (simp add: d qs)
  then have tr: "got = g" "round_trace qs = gs"
    using ne by (simp_all add: round_trace_drop_drained)
  have "backlogged ?d" using bl by (auto simp: backlogged_def drop_drained_def)
  then have "backlogged qs" using q by (auto simp: backlogged_def d qs)
  moreover have "scheduler_ok (s\<lparr>queues := qs, pending := pending s - 1\<rparr>)"
    using pop_SomeD(3) [OF ok] step by (cases got) auto
  ultimately show ?thesis using that step tr by simp
qed

lemma drain_round_trace:
  assumes "scheduler_ok s" "backlogged (queues s)" "round_trace (queues s) = gs"
  shows "fst (drain_with pop (length gs) s) = gs"
  using assms
proof (induction gs arbitrary: s)
  case (Cons g gs)
  obtain s' where "pop s = (Some g, s')" "round_trace (queues s') = gs" "backlogged (queues s')"
    "scheduler_ok s'"
    using pop_round_trace [OF Cons.prems] .
  with Cons.IH [of s'] show ?case by (auto split: prod.split)
qed simp

subsection \<open>Arrivals\<close>

text \<open>One new job with a single item arrives before each call of \<^verbatim>\<open>pop\<close>.\<close>

fun arrive_and_pop ::
  "(string \<times> work_item) list \<Rightarrow> fair_scheduler \<Rightarrow> (string \<times> work_item) option list \<times> fair_scheduler" where
  "arrive_and_pop [] s = ([], s)"
| "arrive_and_pop ((j, i) # js) s =
     (case pop (add_job j [i] LOW s) of
        (got, s') \<Rightarrow> (case arrive_and_pop js s' of (gs, s'') \<Rightarrow> (got # gs, s'')))"

text \<open>Job \<open>a\<close> has spent its credit, has items left, and is the only one with items.\<close>

definition spent_alone :: "string \<Rightarrow> fair_scheduler \<Rightarrow> bool" where
  "spent_alone a s \<longleftrightarrow> scheduler_ok s \<and>
     (\<exists>q. drop_drained (queues s) = [(a, q)] \<and> q_credit q = 0)"

lemma spent_alone_arrival:
  assumes "spent_alone a s" "j \<notin> set (dict_keys (queues s))"
  obtains s' where "pop (add_job j [i] LOW s) = (Some (j, i), s')" "spent_alone a s'"
    "items_of s' a = items_of s a" "set (dict_keys (queues s')) \<subseteq> {a, j}"
proof -
  let ?s = "add_job j [i] LOW s"
  obtain q where q: "drop_drained (queues s) = [(a, q)]" "q_credit q = 0" "scheduler_ok s"
    using assms(1) by (auto simp: spent_alone_def)
  let ?n = "\<lparr>q_job_id = j, q_weight = 1, q_items = [i], q_credit = 1\<rparr>"
  have d: "drop_drained (queues ?s) = [(a, q), (j, ?n)]"
    using q(1) assms(2) by (simp add: add_job_def dict_set_fresh drop_drained_def)
  have ok: "scheduler_ok ?s" using q(3) assms(2) by (rule add_job_ok)
  have "(a, q) \<in> set (drop_drained (queues s))" using q(1) by simp
  then have ne: "q_items q \<noteq> []" and aj: "a \<noteq> j"
    using assms(2) by (auto simp: drop_drained_def image_iff)
  have "round_queues (queues ?s) = [(a, q), (j, ?n)]" by (simp add: round_queues_def d)
  then have step: "pop ?s = (Some (j, i),
      ?s\<lparr>queues := [(a, q), (j, ?n\<lparr>q_credit := 0, q_items := []\<rparr>)], pending := pending ?s - 1\<rparr>)"
    using ok q(2) by (simp add: pop_eq scheduler_ok_def split: list.split)
  let ?s' = "?s\<lparr>queues := [(a, q), (j, ?n\<lparr>q_credit := 0, q_items := []\<rparr>)], pending := pending ?s - 1\<rparr>"
  have "spent_alone a ?s'"
    using pop_SomeD(3) [OF ok step] q(2) ne by (simp add: spent_alone_def drop_drained_def)
  moreover have "items_of ?s' a = items_of s a"
    using pop_SomeD(2) [OF ok step, of a] aj by (simp add: items_of_add_job)
  ultimately show ?thesis using that step by simp
qed

lemma arrivals_starve:
  assumes "spent_alone a s" "distinct (map fst js)" "set (map fst js) \<inter> insert a (set (dict_keys (queues s))) = {}"
  shows "fst (arrive_and_pop js s) = map Some js \<and> items_of (snd (arrive_and_pop js s)) a = items_of s a"
  using assms
proof (induction js arbitrary: s)
  case (Cons ji js)
  obtain j i where ji: "ji = (j, i)" by fastforce
  obtain s' where s': "pop (add_job j [i] LOW s) = (Some (j, i), s')" "spent_alone a s'"
    "items_of s' a = items_of s a" "set (dict_keys (queues s')) \<subseteq> {a, j}"
    using spent_alone_arrival [OF Cons.prems(1), of j i] Cons.prems(3) ji by auto
  have "set (map fst js) \<inter> insert a (set (dict_keys (queues s'))) = {}"
    using s'(4) Cons.prems ji by auto
  then have "fst (arrive_and_pop js s') = map Some js \<and> items_of (snd (arrive_and_pop js s')) a = items_of s' a"
    using Cons.IH [OF s'(2)] Cons.prems(2) by simp
  then show ?case using s' ji by (auto split: prod.split)
qed simp

subsection \<open>Properties of the scheduler\<close>

definition sample_item :: "nat \<Rightarrow> work_item" where
  "sample_item n = \<lparr>item_seq = n, item_id = [], item_prompt = []\<rparr>"

definition sample_scheduler :: fair_scheduler where
  "sample_scheduler = add_job ''b'' [sample_item 0, sample_item 1, sample_item 2] LOW
     (add_job ''a'' [sample_item 0, sample_item 1] NORMAL empty_scheduler)"

lemma sample_scheduler_ok: "scheduler_ok sample_scheduler"
  unfolding sample_scheduler_def
  by (intro add_job_ok empty_scheduler_ok) (simp_all add: empty_scheduler_def add_job_def Let_def)

text \<open>
  C34. No prompt is lost, duplicated or reordered by the scheduler: popping a well-formed scheduler as
  many times as it counts pending items hands out, for each job, exactly that job's items in their
  submission order, and leaves nothing queued.
\<close>

theorem scheduler_drains_everything:
  assumes "scheduler_ok s" "drain_with pop (nat (pending s)) s = (gs, s')"
  shows "int (length gs) = pending s \<and> (\<forall>j. items_for j gs = items_of s j) \<and> (\<forall>j. items_of s' j = [])"
  using fair.drain_items [OF assms(1) _ assms(2)] fair.count_nonneg [OF assms(1)] by simp

theorem scheduler_drains_everything_witness:
  "\<exists>gs s'. drain_with pop (nat (pending sample_scheduler)) sample_scheduler = (gs, s') \<and>
     items_for ''b'' gs = [sample_item 0, sample_item 1, sample_item 2]"
proof -
  obtain gs s' where d: "drain_with pop (nat (pending sample_scheduler)) sample_scheduler = (gs, s')" by fastforce
  have "items_of sample_scheduler ''b'' = [sample_item 0, sample_item 1, sample_item 2]"
    by (simp add: sample_scheduler_def items_of_add_job)
  then show ?thesis using scheduler_drains_everything [OF sample_scheduler_ok d] d by auto
qed

text \<open>
  C35. Bounded waiting: on a well-formed scheduler with \<open>k\<close> jobs, and no arrivals in between, the item at
  the head of any job's queue is among the next \<open>8 (k - 1) + 1\<close> items handed out, whatever the
  priorities and credits are.
\<close>

theorem scheduler_bounded_waiting:
  assumes "scheduler_ok s" "items_of s j = i # rest"
  shows "(j, i) \<in> set (fst (drain_with pop (8 * (sched_active_jobs s - 1) + 1) s))"
proof -
  let ?n = "8 * (sched_active_jobs s - 1) + 1"
  obtain gs s' where d: "drain_with pop ?n s = (gs, s')" by fastforce
  have j: "j \<in> set (dict_keys (queues s))" using assms(2) fair.items_outside [of j s] by fastforce
  then have "0 < sched_active_jobs s" by (auto simp: sched_active_jobs_def)
  then have "wait_bound j (queues s) < int ?n"
    using wait_bound_le [OF assms(1) j] by (cases "sched_active_jobs s") auto
  from served_within [OF assms this d] d show ?thesis by simp
qed

theorem scheduler_bounded_waiting_witness:
  "(''b'', sample_item 0) \<in> set (fst (drain_with pop 9 sample_scheduler))"
proof -
  have "items_of sample_scheduler ''b'' = sample_item 0 # [sample_item 1, sample_item 2]"
    by (simp add: sample_scheduler_def items_of_add_job)
  moreover have "sched_active_jobs sample_scheduler = 2"
    by (simp add: sample_scheduler_def sched_active_jobs_def add_job_def empty_scheduler_def Let_def)
  ultimately show ?thesis using scheduler_bounded_waiting [OF sample_scheduler_ok] by fastforce
qed

lemma items_for_round_trace:
  assumes "dict_ok qs" "\<forall>jq \<in> set qs. queue_ok jq" "(j, q) \<in> set qs"
  shows "items_for j (round_trace qs) = take (nat (q_credit q)) (q_items q)"
  using assms
proof (induction qs)
  case (Cons kq qs)
  have none: "items_for j (round_trace qs) = []" if "j \<notin> set (dict_keys qs)" "\<forall>jq \<in> set qs. queue_ok jq" for qs
    using that by (induction qs) (auto simp: items_for_def queue_ok_def)
  obtain k p where kq: "kq = (k, p)" by fastforce
  then have p: "q_job_id p = k" using Cons.prems(2) by (simp add: queue_ok_def)
  show ?case
  proof (cases "k = j")
    case True
    then have "p = q" "j \<notin> set (dict_keys qs)" using Cons.prems kq by (auto simp: rev_image_eqI)
    with True kq p none [of qs] Cons.prems(2) show ?thesis by (simp add: items_for_def comp_def)
  next
    case False
    then have "(j, q) \<in> set qs" using Cons.prems(3) kq by auto
    with False kq p Cons show ?thesis by (simp add: items_for_def comp_def)
  qed
qed simp

text \<open>What a round leaves behind when no queue drains in it.\<close>

definition residue :: "(string, job_queue) dict \<Rightarrow> (string, job_queue) dict" where
  "residue qs = map (\<lambda>(j, q). (j, q\<lparr>q_items := drop (nat (q_credit q)) (q_items q), q_credit := 0\<rparr>)) qs"

definition lasting :: "(string, job_queue) dict \<Rightarrow> bool" where
  "lasting qs \<longleftrightarrow> (\<forall>(j, q) \<in> set qs. 0 \<le> q_credit q \<and> q_credit q < int (length (q_items q)))"

lemma lasting_backlogged: "lasting qs \<Longrightarrow> backlogged qs"
  by (auto simp: lasting_def backlogged_def)

lemma lasting_not_drained: "lasting qs \<Longrightarrow> drop_drained qs = qs"
  by (auto simp: lasting_def drop_drained_def filter_id_conv)

lemma residue_spent:
  assumes "lasting qs" "round_trace qs = []"
  shows "residue qs = qs"
proof -
  have "q\<lparr>q_items := drop (nat (q_credit q)) (q_items q), q_credit := 0\<rparr> = q" if "(j, q) \<in> set qs" for j q
  proof -
    have "take (nat (q_credit q)) (q_items q) = []" using assms(2) that by (auto simp: round_trace_def)
    then have "q_credit q = 0" using assms(1) that by (auto simp: lasting_def)
    then show ?thesis by (cases q) simp
  qed
  then show ?thesis unfolding residue_def by (intro map_idI) auto
qed

lemma pop_residue:
  assumes ok: "scheduler_ok s" and ls: "lasting (queues s)" and nxt: "pop s = (Some g, s')" and ne: "round_trace (queues s) \<noteq> []"
  shows "residue (queues s') = residue (queues s) \<and> lasting (queues s')"
proof -
  have "\<exists>(j, q) \<in> set (queues s). 0 < q_credit q" using ne round_trace_idle [of "queues s"] by fastforce
  then have R: "round_queues (queues s) = queues s" by (simp add: round_queues_def lasting_not_drained [OF ls])
  obtain qs where sf: "serve_first (\<lambda>q. 0 < q_credit q) (queues s) = Some (g, qs)" and s': "queues s' = qs"
    using nxt ok by (auto simp: pop_eq scheduler_ok_def R split: option.splits)
  obtain pre j q rest post where d: "queues s = pre @ (j, q) # post" and q: "q_items q = snd g # rest" "0 < q_credit q"
    and qs: "qs = pre @ (j, q\<lparr>q_credit := q_credit q - 1, q_items := rest\<rparr>) # post"
    using serve_first_SomeD [OF sf] by (auto simp: served_from_def)
  have "nat (q_credit q) = Suc (nat (q_credit q - 1))" using q(2) by simp
  then have "residue qs = residue (queues s)" using q by (simp add: residue_def d qs)
  moreover have "lasting qs" using ls q by (auto simp: lasting_def d qs)
  ultimately show ?thesis by (simp add: s')
qed

lemma drain_round:
  assumes "scheduler_ok s" "lasting (queues s)" "round_trace (queues s) = gs"
  shows "\<exists>s'. drain_with pop (length gs) s = (gs, s') \<and> queues s' = residue (queues s) \<and> scheduler_ok s'"
  using assms
proof (induction gs arbitrary: s)
  case Nil
  then show ?case using residue_spent by simp
next
  case (Cons g gs)
  obtain s' where s': "pop s = (Some g, s')" "round_trace (queues s') = gs" "scheduler_ok s'"
    using pop_round_trace [OF Cons.prems(1) lasting_backlogged [OF Cons.prems(2)] Cons.prems(3)] by blast
  have "residue (queues s') = residue (queues s)" "lasting (queues s')"
    using pop_residue [OF Cons.prems(1,2) s'(1)] Cons.prems(3) by auto
  with Cons.IH [OF s'(3) _ s'(2)] s'(1) show ?case by auto
qed

text \<open>The credits are restored by the next \<^verbatim>\<open>pop\<close>; restoring them at the end of the round makes no difference.\<close>

lemma drain_refilled:
  assumes "scheduler_ok s" "queues s = residue qs" "lasting qs"
  shows "fst (drain_with pop n s) = fst (drain_with pop n (s\<lparr>queues := reset_credits (queues s)\<rparr>))"
proof (cases n)
  case (Suc m)
  have d: "drop_drained (queues s) = queues s" "drop_drained (reset_credits (queues s)) = reset_credits (queues s)"
    using assms(2,3) by (auto simp: drop_drained_def residue_def lasting_def reset_credits_def filter_id_conv)
  have idle: "\<not> (\<exists>(j, q) \<in> set (queues s). 0 < q_credit q)" using assms(2) by (auto simp: residue_def)
  have q: "\<forall>jq \<in> set (queues s). queue_ok jq" using assms(1) by (simp add: scheduler_ok_def)
  then have r: "\<forall>jq \<in> set (reset_credits (queues s)). queue_ok jq"
    by (auto simp: reset_credits_def queue_ok_def)
  have "reset_credits (reset_credits (queues s)) = reset_credits (queues s)"
    by (simp add: reset_credits_def comp_def case_prod_beta)
  then have "round_queues (reset_credits (queues s)) = round_queues (queues s)"
    using idle by (simp add: round_queues_def d Let_def)
  then have "pop (s\<lparr>queues := reset_credits (queues s)\<rparr>) = pop s"
    using q r by (simp add: pop_eq split: option.split prod.split)
  then show ?thesis by (simp add: Suc)
qed simp

lemma drain_add:
  "drain_with pop m s = (gs, s') \<Longrightarrow> length gs = m \<Longrightarrow> fst (drain_with pop (m + n) s) = gs @ fst (drain_with pop n s')"
proof (induction m arbitrary: s gs)
  case (Suc m)
  obtain g s1 hs where "pop s = (Some g, s1)" "drain_with pop m s1 = (hs, s')" "gs = g # hs" "length hs = m"
    using Suc.prems by (auto split: prod.splits option.splits)
  with Suc.IH [of s1 hs] show ?case by (simp add: case_prod_beta)
qed simp

definition full :: "(string, job_queue) dict \<Rightarrow> bool" where
  "full qs \<longleftrightarrow> (\<forall>(j, q) \<in> set qs. q_credit q = q_weight q)"

abbreviation round_length :: "(string, job_queue) dict \<Rightarrow> nat" where
  "round_length qs \<equiv> nat (\<Sum>jq\<leftarrow>qs. q_weight (snd jq))"

lemma length_full_round:
  assumes "full qs" "backlogged qs"
  shows "length (round_trace qs) = round_length qs"
proof -
  have "map (\<lambda>jq. q_credit (snd jq)) qs = map (\<lambda>jq. q_weight (snd jq)) qs" using assms(1) by (auto simp: full_def)
  then show ?thesis using length_round_trace [OF assms(2)] by (metis nat_int)
qed

lemma weighted_rounds:
  assumes "scheduler_ok s" "full (queues s)" "(j, q) \<in> set (queues s)"
    "\<forall>(k, p) \<in> set (queues s). int n * q_weight p \<le> int (length (q_items p))"
  shows "items_for j (fst (drain_with pop (n * round_length (queues s)) s)) = take (n * nat (q_weight q)) (q_items q)"
  using assms
proof (induction n arbitrary: s q)
  case 0
  then show ?case by (simp add: items_for_def)
next
  case (Suc n)
  let ?qs = "queues s"
  have ok: "dict_ok ?qs" "\<forall>jq \<in> set ?qs. queue_ok jq" using Suc.prems(1) by (auto simp: scheduler_ok_def)
  have w: "1 \<le> q_weight p \<and> q_credit p = q_weight p" if "(k, p) \<in> set ?qs" for k p
    using ok(2) Suc.prems(2) that by (auto simp: queue_ok_def full_def)
  have bl: "backlogged ?qs"
  proof -
    have "q_weight p \<le> int (length (q_items p))" if kp: "(k, p) \<in> set ?qs" for k p
    proof -
      have "1 * q_weight p \<le> int (Suc n) * q_weight p" using w [OF kp] by (intro mult_right_mono) auto
      with Suc.prems(4) kp show ?thesis by fastforce
    qed
    then show ?thesis using w by (fastforce simp: backlogged_def)
  qed
  note len = length_full_round [OF Suc.prems(2) bl]
  have first: "items_for j (round_trace ?qs) = take (nat (q_weight q)) (q_items q)"
    using items_for_round_trace [OF ok Suc.prems(3)] w [OF Suc.prems(3)] by simp
  show ?case
  proof (cases n)
    case 0
    then show ?thesis using first drain_round_trace [OF Suc.prems(1) bl refl] by (simp add: len)
  next
    case (Suc m)
    have ls: "lasting ?qs" unfolding lasting_def
    proof clarify
      fix k p assume kp: "(k, p) \<in> set ?qs"
      have "2 * q_weight p \<le> int (Suc n) * q_weight p" using w [OF kp] Suc by (intro mult_right_mono) auto
      then have "2 * q_weight p \<le> int (length (q_items p))" using Suc.prems(4) kp by fastforce
      then show "0 \<le> q_credit p \<and> q_credit p < int (length (q_items p))" using w [OF kp] by simp
    qed
    obtain s1 where s1: "drain_with pop (length (round_trace ?qs)) s = (round_trace ?qs, s1)"
      "queues s1 = residue ?qs" "scheduler_ok s1"
      using drain_round [OF Suc.prems(1) ls refl] by blast
    let ?s2 = "s1\<lparr>queues := reset_credits (queues s1)\<rparr>"
    let ?left = "\<lambda>p. p\<lparr>q_items := drop (nat (q_weight p)) (q_items p)\<rparr>"
    have q2: "queues ?s2 = map (\<lambda>(k, p). (k, ?left p)) ?qs"
      using Suc.prems(2) by (auto simp: s1(2) residue_def reset_credits_def full_def)
    have "scheduler_ok ?s2"
      using s1(3) by (auto simp: scheduler_ok_def reset_credits_def queue_ok_def comp_def case_prod_beta)
    moreover have "full (queues ?s2)" using Suc.prems(2) unfolding q2 by (auto simp: full_def)
    moreover have "(j, ?left q) \<in> set (queues ?s2)" using Suc.prems(3) unfolding q2 by force
    moreover have "\<forall>(k, p) \<in> set (queues ?s2). int n * q_weight p \<le> int (length (q_items p))"
    proof -
      have "int n * q_weight p \<le> int (length (drop (nat (q_weight p)) (q_items p)))" if kp: "(k, p) \<in> set ?qs" for k p
      proof -
        have "int (Suc n) * q_weight p \<le> int (length (q_items p))" using Suc.prems(4) kp by fastforce
        moreover have "0 \<le> int n * q_weight p" using w [OF kp] by simp
        ultimately show ?thesis using w [OF kp] by (simp add: distrib_right) linarith
      qed
      then show ?thesis unfolding q2 by auto
    qed
    ultimately have "items_for j (fst (drain_with pop (n * round_length (queues ?s2)) ?s2)) =
        take (n * nat (q_weight (?left q))) (q_items (?left q))"
      by (rule Suc.IH)
    moreover have "round_length (queues ?s2) = round_length ?qs" unfolding q2 by (simp add: comp_def case_prod_beta)
    moreover have "fst (drain_with pop (n * round_length ?qs) s1) = fst (drain_with pop (n * round_length ?qs) ?s2)"
      using drain_refilled [OF s1(3,2) ls] .
    ultimately have "items_for j (fst (drain_with pop (n * round_length ?qs) s1)) =
        take (n * nat (q_weight q)) (drop (nat (q_weight q)) (q_items q))" by simp
    moreover have "fst (drain_with pop (Suc n * round_length ?qs) s) = round_trace ?qs @ fst (drain_with pop (n * round_length ?qs) s1)"
      using drain_add [OF s1(1) refl, of "n * round_length ?qs"] by (simp add: len)
    ultimately show ?thesis using first by (simp add: items_for_def take_add)
  qed
qed

text \<open>The shares the documentation promises for high, normal and low priority.\<close>

fun share :: "priority \<Rightarrow> nat" where
  "share HIGH = 4"
| "share NORMAL = 2"
| "share LOW = 1"

definition scheduler_of :: "(string \<times> work_item list \<times> priority) list \<Rightarrow> fair_scheduler" where
  "scheduler_of js = foldl (\<lambda>s (j, its, p). add_job j its p s) empty_scheduler js"

lemma scheduler_of_queues:
  assumes "distinct (map fst js)"
  shows "scheduler_ok (scheduler_of js) \<and> queues (scheduler_of js) =
    map (\<lambda>(j, its, p). (j, \<lparr>q_job_id = j, q_weight = int (share p), q_items = its, q_credit = int (share p)\<rparr>)) js"
  using assms
proof (induction js rule: rev_induct)
  case Nil
  then show ?case using empty_scheduler_ok by (simp add: scheduler_of_def empty_scheduler_def)
next
  case (snoc x js)
  obtain j its p where x: "x = (j, its, p)" by (cases x)
  have "priority_weight p = int (share p)" by (cases p) simp_all
  moreover have fresh: "j \<notin> set (dict_keys (queues (scheduler_of js)))" using snoc x by (force simp: case_prod_beta)
  moreover have eq: "scheduler_of (js @ [x]) = add_job j its p (scheduler_of js)" by (simp add: scheduler_of_def x)
  moreover have "scheduler_ok (scheduler_of (js @ [x]))" using snoc add_job_ok [OF _ fresh] unfolding eq by simp
  ultimately show ?case using snoc by (simp add: x add_job_def dict_set_fresh Let_def)
qed

text \<open>
  C36. Weighted shares: queue any jobs with at least \<open>n\<close> rounds of work each; after \<open>n\<close> rounds of pops every job has been
  served exactly \<open>4 * n\<close>, \<open>2 * n\<close> or \<open>n\<close> of its items, if its priority is high, normal or low, and these are its
  oldest items in order. So the shares 4 : 2 : 1 hold exactly, however many jobs compete.
\<close>

theorem scheduler_weighted_round:
  assumes "distinct (map fst js)" "(j, its, p) \<in> set js" "\<forall>(k, xs, q) \<in> set js. n * share q \<le> length xs"
  shows "items_for j (fst (drain_with pop (n * (\<Sum>(k, xs, q)\<leftarrow>js. share q)) (scheduler_of js))) = take (n * share p) its"
proof -
  let ?q = "\<lambda>(j, its, p). (j, \<lparr>q_job_id = j, q_weight = int (share p), q_items = its, q_credit = int (share p)\<rparr>)"
  have ok: "scheduler_ok (scheduler_of js)" and qs: "queues (scheduler_of js) = map ?q js"
    using scheduler_of_queues [OF assms(1)] by auto
  have "(\<Sum>jq\<leftarrow>map ?q js. q_weight (snd jq)) = int (\<Sum>(k, xs, q)\<leftarrow>js. share q)" by (induction js) auto
  then have len: "round_length (queues (scheduler_of js)) = (\<Sum>(k, xs, q)\<leftarrow>js. share q)" by (simp only: qs nat_int)
  have "items_for j (fst (drain_with pop (n * round_length (queues (scheduler_of js))) (scheduler_of js))) =
      take (n * nat (int (share p))) its"
    using weighted_rounds [OF ok, of j "snd (?q (j, its, p))" n] assms(2,3)
    by (force simp: qs full_def simp flip: of_nat_mult)
  then show ?thesis by (simp add: len)
qed

definition sample_shares :: "(string \<times> work_item list \<times> priority) list" where
  "sample_shares =
     [(''a'', [sample_item 0, sample_item 1, sample_item 2, sample_item 3], NORMAL), (''b'', [sample_item 0, sample_item 1], LOW),
      (''c'', map sample_item [0..<8], HIGH)]"

theorem scheduler_weighted_round_witness:
  "items_for ''c'' (fst (drain_with pop 14 (scheduler_of sample_shares))) = map sample_item [0..<8] \<and>
   map fst (fst (drain_with pop 7 (scheduler_of sample_shares))) = [''a'', ''a'', ''b'', ''c'', ''c'', ''c'', ''c'']"
proof
  show "items_for ''c'' (fst (drain_with pop 14 (scheduler_of sample_shares))) = map sample_item [0..<8]"
    using scheduler_weighted_round [of sample_shares "''c''" "map sample_item [0..<8]" HIGH 2]
    by (simp add: sample_shares_def)
  show "map fst (fst (drain_with pop 7 (scheduler_of sample_shares))) = [''a'', ''a'', ''b'', ''c'', ''c'', ''c'', ''c'']"
    by code_simp
qed

text \<open>
  C38. The reset-and-retry code at the end of \<^verbatim>\<open>pop\<close> is dead: on queues whose credits and weights are in
  range, \<^verbatim>\<open>pop\<close> equals the one-pass version that drops drained queues, restores credits if none is left,
  and serves the first queue with credit.
\<close>

theorem pop_equals_one_pass:
  assumes "scheduler_ok s"
  shows "pop s =
    (case serve_first (\<lambda>q. 0 < q_credit q) (round_queues (queues s)) of
       None \<Rightarrow> (None, s\<lparr>queues := []\<rparr>)
     | Some (got, qs) \<Rightarrow> (Some got, s\<lparr>queues := qs, pending := pending s - 1\<rparr>))"
  using assms by (intro pop_eq) (simp add: scheduler_ok_def)

theorem pop_equals_one_pass_witness:
  "fst (pop sample_scheduler) = Some (''a'', sample_item 0)"
  using pop_equals_one_pass [OF sample_scheduler_ok]
  by (simp add: sample_scheduler_def add_job_def empty_scheduler_def round_queues_def drop_drained_def Let_def)

text \<open>
  C37. Starvation under arrivals: when a job has spent its credit and new single-prompt low-priority jobs
  keep arriving, one before each pop, every pop serves the newcomer and the old job's queue never moves,
  however many arrivals there are. (New jobs come with fresh credit, so the round never ends.)
\<close>

theorem scheduler_starvation:
  assumes "spent_alone a s" "distinct (map fst js)" "set (map fst js) \<inter> insert a (set (dict_keys (queues s))) = {}"
  shows "fst (arrive_and_pop js s) = map Some js \<and> items_of (snd (arrive_and_pop js s)) a = items_of s a"
  using assms by (rule arrivals_starve)

definition spent_scheduler :: fair_scheduler where
  "spent_scheduler = snd (pop (add_job ''old'' [sample_item 0, sample_item 1] LOW empty_scheduler))"

theorem scheduler_starvation_witness:
  "spent_alone ''old'' spent_scheduler \<and>
   fst (arrive_and_pop [(''x'', sample_item 0), (''y'', sample_item 0)] spent_scheduler) =
     [Some (''x'', sample_item 0), Some (''y'', sample_item 0)]"
proof -
  have s: "spent_scheduler = \<lparr>queues = [(''old'', \<lparr>q_job_id = ''old'', q_weight = 1,
      q_items = [sample_item 1], q_credit = 0\<rparr>)], pending = 1\<rparr>"
    by (simp add: spent_scheduler_def add_job_def empty_scheduler_def pop_def drop_drained_def Let_def)
  have "spent_alone ''old'' spent_scheduler"
    by (simp add: s spent_alone_def scheduler_ok_def queue_ok_def drop_drained_def)
  then show ?thesis
    using scheduler_starvation [of "''old''" spent_scheduler "[(''x'', sample_item 0), (''y'', sample_item 0)]"]
    by (simp add: s)
qed

end
