(* ===== verification/Ratelimit.thy ===== *)
theory Ratelimit
  imports PyFloat
begin

text \<open>
  The rate-limiting primitives of \<^verbatim>\<open>app/ratelimit.py\<close>. A coroutine is modelled by the work it does
  between two suspension points: \<^verbatim>\<open>TokenBucket.acquire\<close> by one pass of its loop (which either
  takes the tokens or yields the time to sleep) and by the loop over successive clock readings;
  \<^verbatim>\<open>AdaptiveConcurrencyLimiter.acquire\<close> by one evaluation of its \<^verbatim>\<open>while\<close> test, which takes a
  permit or parks the task in the condition's FIFO queue; \<^verbatim>\<open>release\<close> by the decrement and the
  \<^verbatim>\<open>notify(1)\<close> that wakes the first parked task. The locks of both classes are never held across
  a suspension point, so these passes are atomic on the event loop.
\<close>

subsection \<open>Token bucket\<close>

record token_bucket =
  tb_rate :: pyfloat
  tb_capacity :: pyfloat
  tb_tokens :: pyfloat
  tb_last :: "pyfloat option"

definition new_token_bucket :: "pyfloat \<Rightarrow> pyfloat option \<Rightarrow> token_bucket" where
  "new_token_bucket rate_per_sec cap =
     (let c = (case cap of Some c \<Rightarrow> c | None \<Rightarrow> max rate_per_sec 1) in
      \<lparr>tb_rate = rate_per_sec, tb_capacity = c, tb_tokens = c, tb_last = None\<rparr>)"

definition tb_refill :: "pyfloat \<Rightarrow> token_bucket \<Rightarrow> token_bucket" where
  "tb_refill now b =
     (case tb_last b of
        None \<Rightarrow> b\<lparr>tb_last := Some now\<rparr>
      | Some t0 \<Rightarrow>
          (let elapsed = fl (now - t0) in
           b\<lparr>tb_last := Some now,
             tb_tokens := min (tb_capacity b) (fl (tb_tokens b + fl (elapsed * tb_rate b)))\<rparr>))"

text \<open>One pass of the loop: \<^term>\<open>None\<close> when it returns, \<^term>\<open>Some w\<close> when it sleeps \<open>w\<close> seconds.\<close>

definition tb_pass :: "pyfloat \<Rightarrow> pyfloat \<Rightarrow> token_bucket \<Rightarrow> pyfloat option \<times> token_bucket" where
  "tb_pass n now b =
     (if tb_rate b \<le> 0 then (None, b)
      else
        (let b1 = tb_refill now b in
         if n \<le> tb_tokens b1 then (None, b1\<lparr>tb_tokens := fl (tb_tokens b1 - n)\<rparr>)
         else (Some (fl (fl (n - tb_tokens b1) / tb_rate b1)), b1)))"

text \<open>
  The loop over the clock readings it sees; the result says whether it returned within them.
\<close>

fun tb_acquire :: "pyfloat \<Rightarrow> pyfloat list \<Rightarrow> token_bucket \<Rightarrow> bool \<times> token_bucket" where
  "tb_acquire n [] b = (False, b)"
| "tb_acquire n (now # clock) b =
     (case tb_pass n now b of
        (None, b') \<Rightarrow> (True, b')
      | (Some w, b') \<Rightarrow> tb_acquire n clock b')"

definition tb_available :: "token_bucket \<Rightarrow> pyfloat" where
  "tb_available b = tb_tokens b"

definition bucket_ok :: "token_bucket \<Rightarrow> bool" where
  "bucket_ok b \<longleftrightarrow> 0 \<le> tb_tokens b \<and> tb_tokens b \<le> tb_capacity b \<and>
     fl (tb_capacity b) = tb_capacity b \<and> fl (tb_tokens b) = tb_tokens b"

lemma new_token_bucket_ok:
  assumes "fl c = c" "0 \<le> c"
  shows "bucket_ok (new_token_bucket r (Some c))"
  using assms by (simp add: new_token_bucket_def bucket_ok_def)

lemma tb_refill_capacity [simp]:
  "tb_capacity (tb_refill now b) = tb_capacity b" "tb_rate (tb_refill now b) = tb_rate b"
  by (simp_all add: tb_refill_def Let_def split: option.split)

lemma tb_refill_tokens_le: "bucket_ok b \<Longrightarrow> tb_tokens (tb_refill now b) \<le> tb_capacity b"
  by (auto simp: tb_refill_def bucket_ok_def Let_def split: option.split)

lemma tb_refill_ok:
  assumes "bucket_ok b" "0 \<le> tb_rate b" "\<And>t0. tb_last b = Some t0 \<Longrightarrow> t0 \<le> now"
  shows "bucket_ok (tb_refill now b)" "tb_tokens b \<le> tb_tokens (tb_refill now b)"
proof -
  have "tb_tokens b \<le> min (tb_capacity b) (fl (tb_tokens b + fl (fl (now - t0) * tb_rate b)))"
    if "t0 \<le> now" for t0
  proof -
    have "0 \<le> fl (fl (now - t0) * tb_rate b)"
      using that assms(2) by (intro fl_nonneg mult_nonneg_nonneg) auto
    then have "tb_tokens b \<le> fl (tb_tokens b + fl (fl (now - t0) * tb_rate b))"
      using assms(1) by (intro binary64.rnd_ge) (auto simp: bucket_ok_def)
    with assms(1) show ?thesis by (simp add: bucket_ok_def)
  qed
  then show le: "tb_tokens b \<le> tb_tokens (tb_refill now b)"
    using assms(3) by (auto simp: tb_refill_def Let_def split: option.split)
  have "fl (tb_tokens (tb_refill now b)) = tb_tokens (tb_refill now b)"
    using assms(1) by (auto simp: tb_refill_def Let_def bucket_ok_def fl_idem min_def split: option.split)
  with le tb_refill_tokens_le [OF assms(1), of now] assms(1) show "bucket_ok (tb_refill now b)"
    by (simp add: bucket_ok_def)
qed

lemma tb_pass_capacity [simp]:
  "tb_capacity (snd (tb_pass n now b)) = tb_capacity b" "tb_rate (snd (tb_pass n now b)) = tb_rate b"
  by (simp_all add: tb_pass_def Let_def)

lemma tb_pass_ok:
  assumes "bucket_ok b" "0 \<le> n" "\<And>t0. tb_last b = Some t0 \<Longrightarrow> t0 \<le> now"
  shows "bucket_ok (snd (tb_pass n now b))"
proof (cases "tb_rate b \<le> 0")
  case True
  then show ?thesis using assms(1) by (simp add: tb_pass_def)
next
  case False
  let ?b = "tb_refill now b"
  have ok: "bucket_ok ?b" using assms False by (intro tb_refill_ok) auto
  have "fl (tb_tokens ?b - n) \<le> tb_tokens ?b"
    using ok assms(2) by (intro binary64.rnd_le) (auto simp: bucket_ok_def)
  with ok have "bucket_ok (?b\<lparr>tb_tokens := fl (tb_tokens ?b - n)\<rparr>)" if "n \<le> tb_tokens ?b"
    using that by (auto simp: bucket_ok_def fl_idem intro: fl_nonneg order_trans)
  with ok False show ?thesis by (simp add: tb_pass_def Let_def)
qed

text \<open>A request larger than the capacity is never granted, however long it waits.\<close>

lemma tb_pass_over_capacity:
  assumes "bucket_ok b" "0 < tb_rate b" "tb_capacity b < n"
  shows "fst (tb_pass n now b) \<noteq> None"
  using assms tb_refill_tokens_le [OF assms(1), of now] by (simp add: tb_pass_def Let_def)

text \<open>Once the refill covers the request, the pass returns.\<close>

lemma tb_pass_grants:
  assumes "bucket_ok b" "tb_last b = Some t0" "n \<le> tb_capacity b" "fl n = n" "0 < tb_rate b"
    "n \<le> fl (fl (now - t0) * tb_rate b)"
  shows "fst (tb_pass n now b) = None"
proof -
  have "n \<le> tb_tokens b + fl (fl (now - t0) * tb_rate b)"
    using assms(1,6) by (simp add: bucket_ok_def)
  then have "n \<le> fl (tb_tokens b + fl (fl (now - t0) * tb_rate b))"
    by (rule binary64.rnd_ge [OF assms(4)])
  then show ?thesis using assms(2,3,5) by (simp add: tb_pass_def tb_refill_def Let_def)
qed

subsection \<open>Adaptive concurrency limiter\<close>

record limiter =
  lim_max :: int
  lim_min :: int
  lim_limit :: int
  lim_decrease :: pyfloat
  lim_increase_after :: int
  lim_in_use :: int
  lim_streak :: int
  lim_waiters :: "nat list"

definition new_limiter :: "int \<Rightarrow> int \<Rightarrow> int option \<Rightarrow> pyfloat \<Rightarrow> int \<Rightarrow> limiter" where
  "new_limiter initial minimum maximum decrease_factor increase_after =
     (let mx = (case maximum of Some m \<Rightarrow> m | None \<Rightarrow> initial);
          mn = min minimum mx in
      \<lparr>lim_max = mx, lim_min = mn, lim_limit = max mn (min initial mx),
       lim_decrease = decrease_factor, lim_increase_after = increase_after,
       lim_in_use = 0, lim_streak = 0, lim_waiters = []\<rparr>)"

text \<open>One test of the loop in \<^verbatim>\<open>acquire\<close> by task \<open>w\<close>: the permit is taken, or the task is parked.\<close>

definition lim_acquire :: "nat \<Rightarrow> limiter \<Rightarrow> bool \<times> limiter" where
  "lim_acquire w l =
     (if lim_limit l \<le> lim_in_use l then (False, l\<lparr>lim_waiters := lim_waiters l @ [w]\<rparr>)
      else (True, l\<lparr>lim_in_use := lim_in_use l + 1\<rparr>))"

text \<open>\<^verbatim>\<open>release\<close>: the task that \<^verbatim>\<open>notify(1)\<close> wakes, if one is parked, is returned.\<close>

definition lim_release :: "limiter \<Rightarrow> nat option \<times> limiter" where
  "lim_release l =
     (let l1 = l\<lparr>lim_in_use := lim_in_use l - 1\<rparr> in
      case lim_waiters l1 of
        [] \<Rightarrow> (None, l1)
      | w # ws \<Rightarrow> (Some w, l1\<lparr>lim_waiters := ws\<rparr>))"

definition record_throttle :: "limiter \<Rightarrow> limiter" where
  "record_throttle l =
     l\<lparr>lim_streak := 0,
       lim_limit := max (lim_min l) (py_int (fl (fl (of_int (lim_limit l)) * lim_decrease l)))\<rparr>"

definition record_success :: "limiter \<Rightarrow> limiter" where
  "record_success l =
     (let l1 = l\<lparr>lim_streak := lim_streak l + 1\<rparr> in
      if lim_increase_after l1 \<le> lim_streak l1 \<and> lim_limit l1 < lim_max l1
      then l1\<lparr>lim_limit := lim_limit l1 + 1, lim_streak := 0\<rparr>
      else l1)"

text \<open>A cancelled task leaves the condition's queue.\<close>

definition lim_forget :: "nat \<Rightarrow> limiter \<Rightarrow> limiter" where
  "lim_forget w l = l\<lparr>lim_waiters := removeAll w (lim_waiters l)\<rparr>"

definition limiter_ok :: "limiter \<Rightarrow> bool" where
  "limiter_ok l \<longleftrightarrow> 0 \<le> lim_min l \<and> lim_min l \<le> lim_limit l \<and> lim_limit l \<le> lim_max l \<and>
     lim_max l \<le> 2 ^ 53 \<and> lim_decrease l \<le> 1"

lemma new_limiter_ok:
  assumes "0 \<le> mn" "0 \<le> mx" "mx \<le> 2 ^ 53" "d \<le> 1"
  shows "limiter_ok (new_limiter i mn (Some mx) d a)"
  using assms by (auto simp: limiter_ok_def new_limiter_def Let_def)

lemma throttled_le:
  assumes "limiter_ok l"
  shows "py_int (fl (fl (of_int (lim_limit l)) * lim_decrease l)) \<le> lim_limit l"
proof -
  let ?m = "lim_limit l"
  have m: "0 \<le> ?m" "?m \<le> 2 ^ 53" and d: "lim_decrease l \<le> 1"
    using assms by (auto simp: limiter_ok_def)
  have flm: "fl (of_int ?m) = of_int ?m" using m by (intro fl_of_int) auto
  have "of_int ?m * lim_decrease l \<le> of_int ?m"
    using m(1) d by (simp add: mult_left_le)
  then have le: "fl (of_int ?m * lim_decrease l) \<le> of_int ?m" by (rule binary64.rnd_le [OF flm])
  show ?thesis
  proof (cases "0 \<le> fl (of_int ?m * lim_decrease l)")
    case True
    then show ?thesis using le by (simp add: flm py_int_le)
  next
    case False
    then have "py_int (fl (of_int ?m * lim_decrease l)) \<le> 0" by (intro py_int_nonpos) simp
    then show ?thesis using m(1) by (simp add: flm)
  qed
qed

lemma record_throttle_fields [simp]:
  "lim_max (record_throttle l) = lim_max l" "lim_min (record_throttle l) = lim_min l"
  "lim_in_use (record_throttle l) = lim_in_use l" "lim_waiters (record_throttle l) = lim_waiters l"
  "lim_decrease (record_throttle l) = lim_decrease l" "lim_streak (record_throttle l) = 0"
  "lim_increase_after (record_throttle l) = lim_increase_after l"
  by (simp_all add: record_throttle_def)

lemma record_success_fields [simp]:
  "lim_max (record_success l) = lim_max l" "lim_min (record_success l) = lim_min l"
  "lim_in_use (record_success l) = lim_in_use l" "lim_waiters (record_success l) = lim_waiters l"
  "lim_decrease (record_success l) = lim_decrease l"
  "lim_increase_after (record_success l) = lim_increase_after l"
  by (simp_all add: record_success_def Let_def)

lemma record_throttle_ok:
  assumes "limiter_ok l"
  shows "limiter_ok (record_throttle l)" "lim_limit (record_throttle l) \<le> lim_limit l"
  using assms throttled_le [OF assms] by (auto simp: limiter_ok_def record_throttle_def)

lemma record_success_ok:
  "limiter_ok l \<Longrightarrow> limiter_ok (record_success l)" "lim_limit l \<le> lim_limit (record_success l)"
  by (auto simp: limiter_ok_def record_success_def Let_def)


lemma lim_acquire_ok: "limiter_ok l \<Longrightarrow> limiter_ok (snd (lim_acquire w l))"
  by (simp add: lim_acquire_def limiter_ok_def)

lemma lim_release_ok: "limiter_ok l \<Longrightarrow> limiter_ok (snd (lim_release l))"
  by (simp add: lim_release_def limiter_ok_def Let_def split: list.split)

subsection \<open>The contract of a concurrency gate\<close>

datatype gate_op = Enter nat | Leave | Throttled | Succeeded

fun gate_step ::
  "(nat \<Rightarrow> 's \<Rightarrow> bool \<times> 's) \<Rightarrow> ('s \<Rightarrow> nat option \<times> 's) \<Rightarrow> ('s \<Rightarrow> 's) \<Rightarrow> ('s \<Rightarrow> 's) \<Rightarrow> gate_op \<Rightarrow> 's \<Rightarrow> 's" where
  "gate_step enter leave shrink grow (Enter w) s = snd (enter w s)"
| "gate_step enter leave shrink grow Leave s = snd (leave s)"
| "gate_step enter leave shrink grow Throttled s = shrink s"
| "gate_step enter leave shrink grow Succeeded s = grow s"

locale concurrency_gate =
  fixes enter :: "nat \<Rightarrow> 's \<Rightarrow> bool \<times> 's"
    and leave :: "'s \<Rightarrow> nat option \<times> 's"
    and shrink :: "'s \<Rightarrow> 's"
    and grow :: "'s \<Rightarrow> 's"
    and used :: "'s \<Rightarrow> int"
    and level :: "'s \<Rightarrow> int"
    and floor_of :: "'s \<Rightarrow> int"
    and cap :: "'s \<Rightarrow> int"
    and parked :: "'s \<Rightarrow> nat list"
    and invar :: "'s \<Rightarrow> bool"
  assumes enter_taken: "enter w s = (True, s') \<Longrightarrow>
        used s < level s \<and> used s' = used s + 1 \<and> parked s' = parked s"
    and enter_parked: "enter w s = (False, s') \<Longrightarrow>
        level s \<le> used s \<and> used s' = used s \<and> parked s' = parked s @ [w]"
    and leave_used: "used (snd (leave s)) = used s - 1"
    and leave_wakes: "leave s = (wo, s') \<Longrightarrow>
        (case wo of None \<Rightarrow> parked s = [] \<and> parked s' = [] | Some w \<Rightarrow> parked s = w # parked s')"
    and used_level: "used (shrink s) = used s" "used (grow s) = used s"
    and bounds_step: "cap (gate_step enter leave shrink grow opr s) = cap s"
        "floor_of (gate_step enter leave shrink grow opr s) = floor_of s"
    and invar_step: "invar s \<Longrightarrow> invar (gate_step enter leave shrink grow opr s)"
    and invar_level: "invar s \<Longrightarrow> floor_of s \<le> level s \<and> level s \<le> cap s"
begin

lemma used_step_bounded:
  assumes "invar s" "used s \<le> cap s"
  shows "used (gate_step enter leave shrink grow opr s) \<le> cap s"
proof (cases opr)
  case (Enter w)
  obtain b s' where e: "enter w s = (b, s')" by fastforce
  then show ?thesis
    using enter_taken [of w s s'] enter_parked [of w s s'] invar_level [OF assms(1)] assms(2) Enter
    by (cases b) auto
qed (use assms leave_used used_level in auto)

text \<open>Whatever the order of the operations, the permits in use stay within the cap.\<close>

lemma run_bounded:
  assumes "invar s" "used s \<le> cap s"
  shows "invar (fold (gate_step enter leave shrink grow) ops s) \<and>
    used (fold (gate_step enter leave shrink grow) ops s) \<le> cap s \<and>
    cap (fold (gate_step enter leave shrink grow) ops s) = cap s \<and>
    floor_of (fold (gate_step enter leave shrink grow) ops s) = floor_of s"
  using assms
proof (induction ops arbitrary: s)
  case (Cons opr ops)
  let ?s = "gate_step enter leave shrink grow opr s"
  have "invar ?s" "used ?s \<le> cap ?s"
    using Cons.prems invar_step used_step_bounded by (auto simp: bounds_step)
  from Cons.IH [OF this] show ?case by (simp add: bounds_step)
qed simp

end

interpretation aimd: concurrency_gate lim_acquire lim_release record_throttle record_success
  lim_in_use lim_limit lim_min lim_max lim_waiters limiter_ok
proof unfold_locales
  fix l :: limiter and opr w l'
  show "lim_acquire w l = (True, l') \<Longrightarrow>
      lim_in_use l < lim_limit l \<and> lim_in_use l' = lim_in_use l + 1 \<and> lim_waiters l' = lim_waiters l"
    by (auto simp: lim_acquire_def split: if_splits)
  show "lim_acquire w l = (False, l') \<Longrightarrow>
      lim_limit l \<le> lim_in_use l \<and> lim_in_use l' = lim_in_use l \<and> lim_waiters l' = lim_waiters l @ [w]"
    by (auto simp: lim_acquire_def split: if_splits)
  show "lim_max (gate_step lim_acquire lim_release record_throttle record_success opr l) = lim_max l"
    "lim_min (gate_step lim_acquire lim_release record_throttle record_success opr l) = lim_min l"
    by (cases opr; simp add: lim_acquire_def lim_release_def Let_def split: list.split)+
  show "limiter_ok l \<Longrightarrow>
      limiter_ok (gate_step lim_acquire lim_release record_throttle record_success opr l)"
    by (cases opr) (simp_all add: lim_acquire_ok lim_release_ok record_throttle_ok record_success_ok)
qed (auto simp: lim_release_def Let_def limiter_ok_def split: list.splits)

subsection \<open>Additive increase\<close>

text \<open>
  While the limit is below the maximum, the successes seen so far are accounted for by the
  increments and the current streak.
\<close>

lemma record_success_run_inv:
  assumes "1 \<le> lim_increase_after l" "lim_streak l = 0" "lim_limit l \<le> lim_max l"
  defines "a \<equiv> lim_increase_after l" and "r \<equiv> \<lambda>n. (record_success ^^ n) l"
  shows "lim_increase_after (r n) = a \<and> lim_max (r n) = lim_max l \<and>
    (lim_limit (r n) < lim_max l \<and> 0 \<le> lim_streak (r n) \<and> lim_streak (r n) < a \<and>
       int n = (lim_limit (r n) - lim_limit l) * a + lim_streak (r n) \<or>
     lim_limit (r n) = lim_max l \<and> (lim_max l - lim_limit l) * a \<le> int n)"
proof (induction n)
  case 0
  then show ?case using assms by auto
next
  case (Suc n)
  have r: "r (Suc n) = record_success (r n)" by (simp add: r_def)
  consider "lim_limit (r n) = lim_max l" | "lim_limit (r n) < lim_max l" "lim_streak (r n) + 1 < a"
    | "lim_limit (r n) + 1 < lim_max l" "lim_streak (r n) + 1 = a"
    | "lim_max l = lim_limit (r n) + 1" "lim_streak (r n) + 1 = a"
    using Suc by linarith
  then show ?case
    using Suc unfolding r by cases (auto simp: record_success_def Let_def algebra_simps)
qed

lemma record_success_run:
  assumes "1 \<le> lim_increase_after l" "lim_streak l = 0" "lim_limit l \<le> lim_max l"
  shows "lim_limit ((record_success ^^ n) l) =
      min (lim_max l) (lim_limit l + int n div lim_increase_after l)"
proof -
  let ?a = "lim_increase_after l" and ?l = "(record_success ^^ n) l"
  consider (grow) "lim_limit ?l < lim_max l" "0 \<le> lim_streak ?l" "lim_streak ?l < ?a"
      "int n = (lim_limit ?l - lim_limit l) * ?a + lim_streak ?l"
    | (full) "lim_limit ?l = lim_max l" "(lim_max l - lim_limit l) * ?a \<le> int n"
    using record_success_run_inv [OF assms, of n] by auto
  then show ?thesis
  proof cases
    case grow
    then have "int n div ?a = lim_limit ?l - lim_limit l" by simp
    with grow(1) show ?thesis by simp
  next
    case full
    then have "(lim_max l - lim_limit l) * ?a div ?a \<le> int n div ?a"
      using assms(1) by (intro zdiv_mono1) auto
    then have "lim_max l - lim_limit l \<le> int n div ?a" using assms(1) by simp
    with full(1) show ?thesis by simp
  qed
qed

subsection \<open>Properties of the limiters\<close>

lemma fold_gate_fields:
  assumes "limiter_ok l" "lim_in_use l \<le> lim_max l"
  shows "limiter_ok (fold (gate_step lim_acquire lim_release record_throttle record_success) ops l) \<and>
    lim_in_use (fold (gate_step lim_acquire lim_release record_throttle record_success) ops l) \<le> lim_max l \<and>
    lim_max (fold (gate_step lim_acquire lim_release record_throttle record_success) ops l) = lim_max l \<and>
    lim_min (fold (gate_step lim_acquire lim_release record_throttle record_success) ops l) = lim_min l"
  using aimd.run_bounded [OF assms] by simp

text \<open>
  AIMD bounds: whatever sequence of acquires, releases, throttles and successes a limiter built from
  a sane configuration sees, its limit stays between the clamped minimum and the maximum, and the
  permits in use never exceed the maximum.
\<close>

lemma limiter_stays_in_bounds:
  fixes minimum maximum initial after :: int and factor :: pyfloat and ops :: "gate_op list"
  assumes "0 \<le> minimum" "0 \<le> maximum" "maximum \<le> 2 ^ 53" "factor \<le> 1"
  defines "l \<equiv> fold (gate_step lim_acquire lim_release record_throttle record_success) ops
    (new_limiter initial minimum (Some maximum) factor after)"
  shows "min minimum maximum \<le> lim_limit l \<and> lim_limit l \<le> maximum \<and> lim_in_use l \<le> maximum"
proof -
  let ?l = "new_limiter initial minimum (Some maximum) factor after"
  have "lim_in_use ?l = 0" "lim_max ?l = maximum" "lim_min ?l = min minimum maximum"
    by (simp_all add: new_limiter_def Let_def)
  then show ?thesis
    using fold_gate_fields [OF new_limiter_ok [OF assms(1-4)], of initial after ops] assms(2)
    by (simp add: l_def limiter_ok_def)
qed

text \<open>
  Additive increase: after \<open>n\<close> successes in a row the limit has grown by one per \<^verbatim>\<open>increase_after\<close>
  successes, up to the maximum.
\<close>

lemma limiter_additive_increase:
  assumes "1 \<le> lim_increase_after l" "lim_streak l = 0" "lim_limit l \<le> lim_max l"
  shows "lim_limit ((record_success ^^ n) l) = min (lim_max l) (lim_limit l + int n div lim_increase_after l)"
  using assms by (rule record_success_run)

lemma tb_acquire_ok:
  assumes "bucket_ok b" "0 \<le> n" "sorted clock" "\<And>t0. tb_last b = Some t0 \<Longrightarrow> \<forall>t \<in> set clock. t0 \<le> t"
  shows "bucket_ok (snd (tb_acquire n clock b))"
  using assms
proof (induction clock arbitrary: b)
  case (Cons now clock)
  obtain w b' where p: "tb_pass n now b = (w, b')" by fastforce
  have ok: "bucket_ok b'" using tb_pass_ok [OF Cons.prems(1,2), of now] Cons.prems(4) p by simp
  have last: "tb_last b' = Some now \<or> tb_last b' = tb_last b"
    using p by (auto simp: tb_pass_def tb_refill_def Let_def split: if_splits option.splits)
  then have "bucket_ok (snd (tb_acquire n clock b'))"
    using Cons.prems(3,4) by (intro Cons.IH [OF ok Cons.prems(2)]) auto
  with ok p show ?case by (cases w) auto
qed simp

text \<open>
  Token bucket invariant: with a clock that does not run backwards, an acquire leaves the bucket
  with at least zero and at most its capacity of tokens, however many passes it needs.
\<close>

lemma token_bucket_invariant:
  assumes "bucket_ok b" "0 \<le> n" "sorted clock" "\<And>t0. tb_last b = Some t0 \<Longrightarrow> \<forall>t \<in> set clock. t0 \<le> t"
  shows "0 \<le> tb_available (snd (tb_acquire n clock b)) \<and>
    tb_available (snd (tb_acquire n clock b)) \<le> tb_capacity (snd (tb_acquire n clock b))"
  using tb_acquire_ok [OF assms] by (simp add: bucket_ok_def tb_available_def)

text \<open>
  An acquire of at most the capacity returns as soon as a pass sees that enough time has gone by
  since the last refill; it never waits on a bucket that can pay.
\<close>

lemma token_bucket_grants:
  assumes "bucket_ok b" "tb_last b = Some t0" "n \<le> tb_capacity b" "fl n = n" "0 < tb_rate b"
    "n \<le> fl (fl (now - t0) * tb_rate b)"
  shows "fst (tb_acquire n (now # clock) b)"
  using tb_pass_grants [OF assms] by (auto split: prod.split option.split)

end
