(* ===== verification/Store.thy ===== *)
theory Store
  imports Models
begin

text \<open>
  \<^verbatim>\<open>app/store.py\<close>. The protocol \<^verbatim>\<open>JobStore\<close> is the locale \<^verbatim>\<open>job_store_spec\<close>; \<^verbatim>\<open>InMemoryJobStore\<close>
  interprets it. Jobs are mutable objects shared between the store and the running coroutines: a
  change made through a reference is \<^verbatim>\<open>store_mutate\<close>, which the locale constrains like the other
  operations.
\<close>

subsection \<open>The in-memory store\<close>

record job_store =
  jobs :: "(string, job) dict"
  by_key :: "(string, string) dict"

definition empty_store :: job_store where
  "empty_store = \<lparr>jobs = [], by_key = []\<rparr>"

definition store_create :: "job \<Rightarrow> job_store \<Rightarrow> job_store" where
  "store_create j st =
     (let st1 = st\<lparr>jobs := dict_set (job_id j) j (jobs st)\<rparr> in
      case idempotency_key j of
        None \<Rightarrow> st1
      | Some k \<Rightarrow> if k = [] then st1 else st1\<lparr>by_key := dict_set k (job_id j) (by_key st1)\<rparr>)"

definition store_get :: "job_store \<Rightarrow> string \<Rightarrow> job option" where
  "store_get st jid = dict_get (jobs st) jid"

definition store_all :: "job_store \<Rightarrow> job list" where
  "store_all st = dict_values (jobs st)"

definition find_by_idempotency_key :: "job_store \<Rightarrow> string \<Rightarrow> job option" where
  "find_by_idempotency_key st key =
     (case dict_get (by_key st) key of
        None \<Rightarrow> None
      | Some jid \<Rightarrow> if jid = [] then None else dict_get (jobs st) jid)"

text \<open>In-place update of the job object with the given id.\<close>

definition store_mutate :: "string \<Rightarrow> (job \<Rightarrow> job) \<Rightarrow> job_store \<Rightarrow> job_store" where
  "store_mutate jid f st = st\<lparr>jobs := dict_mutate jid f (jobs st)\<rparr>"

subsection \<open>Well-formedness\<close>

definition store_ok :: "job_store \<Rightarrow> bool" where
  "store_ok st \<longleftrightarrow> dict_ok (jobs st) \<and>
     (\<forall>jid j. dict_get (jobs st) jid = Some j \<longrightarrow> job_id j = jid \<and> jid \<noteq> []) \<and>
     (\<forall>k jid. dict_get (by_key st) k = Some jid \<longrightarrow>
        (\<exists>j. dict_get (jobs st) jid = Some j \<and> idempotency_key j = Some k))"

text \<open>Updates through a reference never touch the identity of a job.\<close>

definition keeps_identity :: "(job \<Rightarrow> job) \<Rightarrow> bool" where
  "keeps_identity f \<longleftrightarrow> (\<forall>j. job_id (f j) = job_id j \<and> idempotency_key (f j) = idempotency_key j \<and>
     request_fingerprint (f j) = request_fingerprint j)"

lemma empty_store_ok: "store_ok empty_store"
  by (simp add: store_ok_def empty_store_def)

lemma store_get_create [dict_simps]:
  "store_get (store_create j st) k = (if k = job_id j then Some j else store_get st k)"
  by (simp add: store_get_def store_create_def Let_def dict_simps split: option.split)

lemma store_get_mutate [dict_simps]:
  "store_get (store_mutate jid f st) k =
     (if k = jid then map_option f (store_get st jid) else store_get st k)"
  by (simp add: store_get_def store_mutate_def dict_simps)

lemma store_ok_ids: "store_ok st \<Longrightarrow> store_get st jid = Some j \<Longrightarrow> job_id j = jid \<and> jid \<noteq> []"
  by (simp add: store_ok_def store_get_def)

lemma store_ok_keys:
  assumes "store_ok st" "dict_get (by_key st) k = Some jid"
  obtains j where "store_get st jid = Some j" "idempotency_key j = Some k" "job_id j = jid" "jid \<noteq> []"
  using assms unfolding store_ok_def store_get_def by meson

lemma store_okI:
  assumes "dict_ok (jobs st)"
    and "\<And>jid j. store_get st jid = Some j \<Longrightarrow> job_id j = jid \<and> jid \<noteq> []"
    and "\<And>k jid. dict_get (by_key st) k = Some jid \<Longrightarrow>
           \<exists>j. store_get st jid = Some j \<and> idempotency_key j = Some k"
  shows "store_ok st"
  using assms by (simp add: store_ok_def store_get_def)

lemma by_key_create:
  "dict_get (by_key (store_create j st)) k =
     (if idempotency_key j = Some k \<and> k \<noteq> [] then Some (job_id j) else dict_get (by_key st) k)"
  by (auto simp: store_create_def Let_def dict_simps split: option.split)

lemma by_key_mutate [simp]: "by_key (store_mutate jid f st) = by_key st"
  by (simp add: store_mutate_def)

lemma store_create_ok:
  assumes "store_ok st" "store_get st (job_id j) = None" "job_id j \<noteq> []"
  shows "store_ok (store_create j st)"
proof (rule store_okI)
  show "dict_ok (jobs (store_create j st))"
    using assms(1) by (simp add: store_ok_def store_create_def Let_def split: option.split)
next
  fix jid i assume "store_get (store_create j st) jid = Some i"
  then show "job_id i = jid \<and> jid \<noteq> []"
    using assms(3) store_ok_ids [OF assms(1)] by (auto simp: dict_simps split: if_splits)
next
  fix k jid assume k: "dict_get (by_key (store_create j st)) k = Some jid"
  show "\<exists>i. store_get (store_create j st) jid = Some i \<and> idempotency_key i = Some k"
  proof (cases "idempotency_key j = Some k \<and> k \<noteq> []")
    case True
    with k show ?thesis by (simp add: by_key_create dict_simps)
  next
    case False
    with k have "dict_get (by_key st) k = Some jid" by (simp add: by_key_create split: if_splits)
    then obtain i where "store_get st jid = Some i" "idempotency_key i = Some k"
      using assms(1) store_ok_keys by blast
    with assms(2) show ?thesis by (auto simp: dict_simps)
  qed
qed

lemma store_mutate_ok:
  assumes "store_ok st" "keeps_identity f"
  shows "store_ok (store_mutate jid f st)"
proof (rule store_okI)
  show "dict_ok (jobs (store_mutate jid f st))"
    using assms(1) by (simp add: store_ok_def store_mutate_def)
next
  fix jid' i assume "store_get (store_mutate jid f st) jid' = Some i"
  then show "job_id i = jid' \<and> jid' \<noteq> []"
    using assms(2) store_ok_ids [OF assms(1)]
    by (auto simp: dict_simps keeps_identity_def split: if_splits)
next
  fix k jid' assume "dict_get (by_key (store_mutate jid f st)) k = Some jid'"
  then obtain i where "store_get st jid' = Some i" "idempotency_key i = Some k"
    using assms(1) store_ok_keys by (metis by_key_mutate)
  then show "\<exists>i. store_get (store_mutate jid f st) jid' = Some i \<and> idempotency_key i = Some k"
    using assms(2) by (auto simp: dict_simps keeps_identity_def)
qed

lemma find_eq:
  assumes "store_ok st"
  shows "find_by_idempotency_key st k = Option.bind (dict_get (by_key st) k) (store_get st)"
  using assms store_ok_keys [OF assms, of k]
  by (cases "dict_get (by_key st) k") (auto simp: find_by_idempotency_key_def store_get_def)

lemma find_create:
  assumes "store_ok st" "store_get st (job_id j) = None" "job_id j \<noteq> []" "k \<noteq> []"
  shows "find_by_idempotency_key (store_create j st) k =
    (if idempotency_key j = Some k then Some j else find_by_idempotency_key st k)"
proof -
  have "dict_get (by_key st) k = Some jid \<Longrightarrow> jid \<noteq> job_id j" for jid
    using assms(1,2) by (metis option.distinct(1) store_ok_keys)
  then show ?thesis
    using assms by (cases "dict_get (by_key st) k")
      (auto simp: find_eq store_create_ok by_key_create dict_simps)
qed

lemma find_mutate:
  assumes "store_ok st" "keeps_identity f"
  shows "find_by_idempotency_key (store_mutate jid f st) k =
    map_option (\<lambda>j. if job_id j = jid then f j else j) (find_by_idempotency_key st k)"
proof (cases "dict_get (by_key st) k")
  case None
  then show ?thesis using assms by (simp add: find_eq store_mutate_ok)
next
  case (Some jid')
  then obtain i where "store_get st jid' = Some i" "job_id i = jid'"
    using assms(1) store_ok_keys by blast
  with Some show ?thesis using assms by (auto simp: find_eq store_mutate_ok dict_simps)
qed

lemma find_key:
  assumes "store_ok st" "find_by_idempotency_key st k = Some j"
  shows "idempotency_key j = Some k" "store_get st (job_id j) = Some j"
proof -
  from assms obtain jid where "dict_get (by_key st) k = Some jid" "store_get st jid = Some j"
    by (cases "dict_get (by_key st) k") (auto simp: find_eq)
  with assms(1) show "idempotency_key j = Some k" "store_get st (job_id j) = Some j"
    by (auto elim!: store_ok_keys)
qed

lemma store_all_iff:
  assumes "store_ok st"
  shows "j \<in> set (store_all st) \<longleftrightarrow> store_get st (job_id j) = Some j"
proof
  assume "j \<in> set (store_all st)"
  then obtain jid where "(jid, j) \<in> set (jobs st)" by (auto simp: store_all_def)
  with assms have "store_get st jid = Some j" by (simp add: store_ok_def store_get_def dict_mem_get)
  with store_ok_ids [OF assms] show "store_get st (job_id j) = Some j" by auto
next
  assume "store_get st (job_id j) = Some j"
  then show "j \<in> set (store_all st)" by (force simp: store_get_def store_all_def dest: dict_get_mem)
qed

lemma store_all_distinct: "store_ok st \<Longrightarrow> distinct (map job_id (store_all st))"
proof -
  assume ok: "store_ok st"
  have "map job_id (store_all st) = dict_keys (jobs st)"
    unfolding store_all_def
    using ok by (auto simp: store_ok_def dict_mem_get)
  with ok show ?thesis by (simp add: store_ok_def)
qed

subsection \<open>The protocol\<close>

text \<open>
  What the engine relies on of a \<^verbatim>\<open>JobStore\<close>: the five laws of its methods, for a store that satisfies
  the implementation's own invariant. The client lemma is the one idempotent submission needs: a
  key, once bound to a job, stays bound to that job whatever is created under other keys and
  however the jobs are updated.
\<close>

datatype store_op = Create job | Mutate string "job \<Rightarrow> job"

locale job_store_spec =
  fixes ok :: "'s \<Rightarrow> bool"
    and create :: "job \<Rightarrow> 's \<Rightarrow> 's"
    and get :: "'s \<Rightarrow> string \<Rightarrow> job option"
    and find :: "'s \<Rightarrow> string \<Rightarrow> job option"
    and mutate :: "string \<Rightarrow> (job \<Rightarrow> job) \<Rightarrow> 's \<Rightarrow> 's"
  assumes create_ok: "ok st \<Longrightarrow> get st (job_id j) = None \<Longrightarrow> job_id j \<noteq> [] \<Longrightarrow> ok (create j st)"
    and mutate_ok: "ok st \<Longrightarrow> keeps_identity f \<Longrightarrow> ok (mutate jid f st)"
    and create_find: "ok st \<Longrightarrow> get st (job_id j) = None \<Longrightarrow> job_id j \<noteq> [] \<Longrightarrow> k \<noteq> [] \<Longrightarrow>
      find (create j st) k = (if idempotency_key j = Some k then Some j else find st k)"
    and mutate_find: "ok st \<Longrightarrow> keeps_identity f \<Longrightarrow>
      find (mutate jid f st) k = map_option (\<lambda>j. if job_id j = jid then f j else j) (find st k)"
begin

fun apply_op :: "store_op \<Rightarrow> 's \<Rightarrow> 's" where
  "apply_op (Create j) st = create j st"
| "apply_op (Mutate jid f) st = mutate jid f st"

fun op_ok :: "string \<Rightarrow> store_op \<Rightarrow> 's \<Rightarrow> bool" where
  "op_ok k (Create j) st \<longleftrightarrow> get st (job_id j) = None \<and> job_id j \<noteq> [] \<and> idempotency_key j \<noteq> Some k"
| "op_ok k (Mutate jid f) st \<longleftrightarrow> keeps_identity f"

fun ops_ok :: "string \<Rightarrow> store_op list \<Rightarrow> 's \<Rightarrow> bool" where
  "ops_ok k [] st \<longleftrightarrow> True"
| "ops_ok k (op # ops) st \<longleftrightarrow> op_ok k op st \<and> ops_ok k ops (apply_op op st)"

lemma step_keeps_key:
  assumes "ok st" "op_ok k op st" "k \<noteq> []" "find st k = Some j"
  shows "ok (apply_op op st) \<and> (\<exists>j'. find (apply_op op st) k = Some j' \<and>
    job_id j' = job_id j \<and> request_fingerprint j' = request_fingerprint j)"
  using assms
  by (cases op) (auto simp: create_ok mutate_ok create_find mutate_find keeps_identity_def)

lemma key_stays_bound:
  assumes "ok st" "ops_ok k ops st" "k \<noteq> []" "find st k = Some j"
  shows "\<exists>j'. find (fold apply_op ops st) k = Some j' \<and> job_id j' = job_id j \<and>
    request_fingerprint j' = request_fingerprint j"
  using assms
proof (induction ops arbitrary: st j)
  case (Cons op ops)
  then have "op_ok k op st" "ops_ok k ops (apply_op op st)" by auto
  with step_keeps_key [OF Cons.prems(1) _ Cons.prems(3,4)] obtain j' where
    "ok (apply_op op st)" "find (apply_op op st) k = Some j'" "job_id j' = job_id j"
    "request_fingerprint j' = request_fingerprint j" by blast
  with Cons.IH [OF _ \<open>ops_ok k ops (apply_op op st)\<close> Cons.prems(3)] show ?case by fastforce
qed simp

end

interpretation memory_store: job_store_spec store_ok store_create store_get find_by_idempotency_key store_mutate
  by unfold_locales (simp_all add: store_create_ok store_mutate_ok find_create find_mutate)

end
