(* ===== verification/PyRepr.thy ===== *)
theory PyRepr
  imports PyFloat
begin

text \<open>
  \<^verbatim>\<open>repr(x)\<close> of a Python float, which f-strings and \<^verbatim>\<open>json.dumps\<close> use: the shortest decimal
  numeral that rounds to \<open>x\<close> (the nearest one among those of that length), in positional notation
  when the decimal point lies between 3 places before and 16 places after the first digit, in
  exponent notation otherwise. Numbers the code keeps as either \<^verbatim>\<open>int\<close> or \<^verbatim>\<open>float\<close> are \<^verbatim>\<open>pynum\<close>.
\<close>

text \<open>The decimal digits of a non-negative integer, by recursion on the integer itself.\<close>

function show_pos :: "int \<Rightarrow> string" where
  "show_pos i = (if i < 10 then [digit_char (nat i)] else show_pos (i div 10) @ [digit_char (nat (i mod 10))])"
  by auto
termination by (relation "measure nat") auto

declare show_pos.simps [simp del]

lemma show_pos_nat: "0 \<le> i \<Longrightarrow> show_pos i = show_nat (nat i)"
proof (induction i rule: show_pos.induct)
  case (1 i)
  then show ?case
    by (simp add: show_pos.simps [of i] show_nat.simps [of "nat i"] nat_div_distrib nat_mod_distrib nat_less_iff)
qed

definition decimal_exponent :: "rat \<Rightarrow> int" where
  "decimal_exponent x =
     (let pq = quotient_of \<bar>x\<bar>;
          k = int (length (show_pos (fst pq))) - int (length (show_pos (snd pq))) in
      if \<bar>x\<bar> < 10 powi k then k - 1 else k)"

text \<open>The decimals with \<open>p\<close> significant digits around \<open>x > 0\<close> that read back as \<open>x\<close>, nearest first.\<close>

definition decimals_at :: "rat \<Rightarrow> nat \<Rightarrow> int list" where
  "decimals_at x p =
     (let sc = 10 powi (decimal_exponent x - int p + 1);
          m = \<lfloor>x / sc\<rfloor>;
          cs = (if x - of_int m * sc \<le> of_int (m + 1) * sc - x then [m, m + 1] else [m + 1, m]) in
      filter (\<lambda>c. fl (of_int c * sc) = x) cs)"

text \<open>Significand and scale of the shortest numeral; 17 digits always suffice for binary64.\<close>

definition shortest_decimal :: "rat \<Rightarrow> int \<times> int" where
  "shortest_decimal x =
     (let p = (case find (\<lambda>p. decimals_at x p \<noteq> []) [1..<17] of Some p \<Rightarrow> p | None \<Rightarrow> 17) in
      (hd (decimals_at x p @ [0]), decimal_exponent x - int p + 1))"

definition strip_zeros :: "string \<Rightarrow> string" where
  "strip_zeros ds = rev (dropWhile (\<lambda>c. c = CHR ''0'') (rev ds))"

definition format_decimal :: "string \<Rightarrow> int \<Rightarrow> string" where
  "format_decimal ds decpt =
     (if - 4 < decpt \<and> decpt \<le> 16
      then
        (if decpt \<le> 0 then ''0.'' @ replicate (nat (- decpt)) (CHR ''0'') @ ds
         else if int (length ds) \<le> decpt
              then ds @ replicate (nat decpt - length ds) (CHR ''0'') @ ''.0''
              else take (nat decpt) ds @ ''.'' @ drop (nat decpt) ds)
      else
        (let e = decpt - 1; es = show_nat (nat \<bar>e\<bar>) in
         take 1 ds @ (if length ds = 1 then [] else ''.'' @ drop 1 ds) @ ''e'' @
         (if e < 0 then ''-'' else ''+'') @ (if length es < 2 then ''0'' else []) @ es))"

definition py_repr :: "pyfloat \<Rightarrow> string" where
  "py_repr x =
     (if x = 0 then ''0.0''
      else
        (let (m, k) = shortest_decimal \<bar>x\<bar>; ds = show_pos m in
         (if x < 0 then ''-'' else []) @ format_decimal (strip_zeros ds) (int (length ds) + k)))"

subsection \<open>Numbers that may be either\<close>

datatype pynum = PyInt int | PyFlt pyfloat

fun py_float :: "pynum \<Rightarrow> pyfloat" where
  "py_float (PyInt i) = fl (of_int i)"
| "py_float (PyFlt x) = x"

fun py_value :: "pynum \<Rightarrow> rat" where
  "py_value (PyInt i) = of_int i"
| "py_value (PyFlt x) = x"

fun py_add :: "pynum \<Rightarrow> pynum \<Rightarrow> pynum" where
  "py_add (PyInt a) (PyInt b) = PyInt (a + b)"
| "py_add x y = PyFlt (fl (py_float x + py_float y))"

fun py_sub :: "pynum \<Rightarrow> pynum \<Rightarrow> pynum" where
  "py_sub (PyInt a) (PyInt b) = PyInt (a - b)"
| "py_sub x y = PyFlt (fl (py_float x - py_float y))"

fun py_str :: "pynum \<Rightarrow> string" where
  "py_str (PyInt i) = show_int i"
| "py_str (PyFlt x) = py_repr x"

end
