(* ===== verification/Metrics.thy ===== *)
theory Metrics
  imports PyRepr
begin

text \<open>
  The Prometheus registry of \<^verbatim>\<open>app/metrics.py\<close>. The process-wide singleton \<^verbatim>\<open>metrics\<close> is a value of
  the record \<^verbatim>\<open>metric_registry\<close> that the engine threads through its operations. The thread locks are
  not represented: each operation is one atomic step of the event loop.
\<close>

subsection \<open>Counter and Gauge\<close>

record counter =
  ctr_name :: string
  ctr_help :: string
  ctr_value :: pyfloat

definition new_counter :: "string \<Rightarrow> string \<Rightarrow> counter" where
  "new_counter name hlp = \<lparr>ctr_name = name, ctr_help = hlp, ctr_value = 0\<rparr>"

definition ctr_inc :: "pynum \<Rightarrow> counter \<Rightarrow> counter" where
  "ctr_inc amount c = c\<lparr>ctr_value := fl (ctr_value c + py_float amount)\<rparr>"

text \<open>\<^verbatim>\<open>inc()\<close> with the default amount 1.0.\<close>

abbreviation ctr_inc1 :: "counter \<Rightarrow> counter" where
  "ctr_inc1 \<equiv> ctr_inc (PyFlt 1)"

definition ctr_render :: "counter \<Rightarrow> string list" where
  "ctr_render c =
     [''# HELP '' @ ctr_name c @ '' '' @ ctr_help c,
      ''# TYPE '' @ ctr_name c @ '' counter'',
      ctr_name c @ '' '' @ py_repr (ctr_value c)]"

record gauge =
  gau_name :: string
  gau_help :: string
  gau_value :: pynum

definition new_gauge :: "string \<Rightarrow> string \<Rightarrow> gauge" where
  "new_gauge name hlp = \<lparr>gau_name = name, gau_help = hlp, gau_value = PyFlt 0\<rparr>"

definition gau_set :: "pynum \<Rightarrow> gauge \<Rightarrow> gauge" where
  "gau_set v g = g\<lparr>gau_value := v\<rparr>"

definition gau_inc :: "pynum \<Rightarrow> gauge \<Rightarrow> gauge" where
  "gau_inc amount g = g\<lparr>gau_value := py_add (gau_value g) amount\<rparr>"

definition gau_dec :: "pynum \<Rightarrow> gauge \<Rightarrow> gauge" where
  "gau_dec amount g = g\<lparr>gau_value := py_sub (gau_value g) amount\<rparr>"

definition gau_render :: "gauge \<Rightarrow> string list" where
  "gau_render g =
     [''# HELP '' @ gau_name g @ '' '' @ gau_help g,
      ''# TYPE '' @ gau_name g @ '' gauge'',
      gau_name g @ '' '' @ py_str (gau_value g)]"

subsection \<open>Histogram\<close>

definition DEFAULT_BUCKETS :: "pynum list" where
  "DEFAULT_BUCKETS =
     map PyFlt [fl (5 / 1000), fl (1 / 100), fl (25 / 1000), fl (5 / 100), fl (1 / 10), fl (25 / 100),
       fl (5 / 10), 1, fl (25 / 10), 5, 10]"

record histogram =
  his_name :: string
  his_help :: string
  his_buckets :: "pynum list"
  his_counts :: "nat list"
  his_sum :: pyfloat
  his_count :: nat

definition new_histogram :: "string \<Rightarrow> string \<Rightarrow> pynum list \<Rightarrow> histogram" where
  "new_histogram name hlp buckets =
     \<lparr>his_name = name, his_help = hlp, his_buckets = buckets,
      his_counts = map (\<lambda>_. 0) buckets, his_sum = 0, his_count = 0\<rparr>"

text \<open>The loop over \<^verbatim>\<open>enumerate(self.buckets)\<close> that increments \<^verbatim>\<open>_counts[i]\<close> in place.\<close>

definition bump_buckets :: "pyfloat \<Rightarrow> pynum list \<Rightarrow> nat list \<Rightarrow> nat list" where
  "bump_buckets v buckets counts =
     foldl (\<lambda>cs (i, edge). if v \<le> py_value edge then cs[i := cs ! i + 1] else cs)
       counts (enumerate 0 buckets)"

definition his_observe :: "pyfloat \<Rightarrow> histogram \<Rightarrow> histogram" where
  "his_observe v h =
     h\<lparr>his_sum := fl (his_sum h + v), his_count := his_count h + 1,
       his_counts := bump_buckets v (his_buckets h) (his_counts h)\<rparr>"

definition his_render :: "histogram \<Rightarrow> string list" where
  "his_render h =
     [''# HELP '' @ his_name h @ '' '' @ his_help h,
      ''# TYPE '' @ his_name h @ '' histogram''] @
     map (\<lambda>(edge, c). his_name h @ ''_bucket{le='' @ [CHR 34] @ py_str edge @ [CHR 34] @ ''} '' @ show_nat c)
       (zip (his_buckets h) (his_counts h)) @
     [his_name h @ ''_bucket{le='' @ [CHR 34] @ ''+Inf'' @ [CHR 34] @ ''} '' @ show_nat (his_count h),
      his_name h @ ''_sum '' @ py_repr (his_sum h),
      his_name h @ ''_count '' @ show_nat (his_count h)]"

subsection \<open>The registry\<close>

record metric_registry =
  m_jobs_submitted :: counter
  m_jobs_rejected :: counter
  m_jobs_completed :: counter
  m_jobs_cancelled :: counter
  m_prompts_completed :: counter
  m_prompts_succeeded :: counter
  m_prompts_failed :: counter
  m_inference_retries :: counter
  m_inference_rate_limited :: counter
  m_retries_exhausted :: counter
  m_idempotent_reuse :: counter
  m_cost_usd :: counter
  m_tokens :: counter
  m_queue_depth :: gauge
  m_active_jobs :: gauge
  m_inflight :: gauge
  m_concurrency_limit :: gauge
  m_inference_latency :: histogram
  m_job_duration :: histogram

definition new_metrics :: metric_registry where
  "new_metrics =
     \<lparr>m_jobs_submitted = new_counter ''batch_jobs_submitted_total'' ''Total batch jobs accepted.'',
      m_jobs_rejected = new_counter ''batch_jobs_rejected_total'' ''Batch jobs rejected due to overload.'',
      m_jobs_completed = new_counter ''batch_jobs_completed_total'' ''Batch jobs that reached completed state.'',
      m_jobs_cancelled = new_counter ''batch_jobs_cancelled_total'' ''Batch jobs cancelled.'',
      m_prompts_completed = new_counter ''batch_prompts_completed_total'' ''Prompts processed (success or failure).'',
      m_prompts_succeeded = new_counter ''batch_prompts_succeeded_total'' ''Prompts that produced a completion.'',
      m_prompts_failed = new_counter ''batch_prompts_failed_total'' ''Prompts that ultimately failed.'',
      m_inference_retries = new_counter ''inference_retries_total'' ''Total retry attempts across all prompts.'',
      m_inference_rate_limited = new_counter ''inference_rate_limited_total'' ''Total HTTP 429 responses observed.'',
      m_retries_exhausted =
        new_counter ''inference_retries_exhausted_total'' ''Prompts that exhausted their retry budget.'',
      m_idempotent_reuse =
        new_counter ''batch_idempotent_reuse_total'' ''Submits short-circuited by an Idempotency-Key.'',
      m_cost_usd =
        new_counter ''inference_estimated_cost_usd_total'' ''Cumulative estimated inference cost (USD).'',
      m_tokens = new_counter ''inference_tokens_total'' ''Cumulative estimated tokens (input+output).'',
      m_queue_depth = new_gauge ''scheduler_queue_depth'' ''Pending prompts across all jobs in the scheduler.'',
      m_active_jobs = new_gauge ''scheduler_active_jobs'' ''Jobs currently in the scheduler.'',
      m_inflight = new_gauge ''inference_inflight'' ''Inference calls currently in flight.'',
      m_concurrency_limit = new_gauge ''inference_concurrency_limit'' ''Current adaptive concurrency limit.'',
      m_inference_latency =
        new_histogram ''inference_latency_seconds'' ''End-to-end latency per prompt (incl. retries).'' DEFAULT_BUCKETS,
      m_job_duration =
        new_histogram ''job_duration_seconds'' ''Wall-clock duration of a batch job.''
          ([PyFlt (fl (1 / 10)), PyFlt (fl (5 / 10))] @ map PyInt [1, 2, 5, 10, 30, 60, 120, 300])\<rparr>"

text \<open>\<^verbatim>\<open>reset\<close> runs the constructor again on the same object.\<close>

definition reset_metrics :: "metric_registry \<Rightarrow> metric_registry" where
  "reset_metrics m = new_metrics"

definition render_metrics :: "metric_registry \<Rightarrow> string" where
  "render_metrics m =
     (let nl = [CHR 10] in
      join_with nl (map (join_with nl)
        (map ctr_render
          [m_jobs_submitted m, m_jobs_rejected m, m_jobs_completed m, m_jobs_cancelled m,
           m_prompts_completed m, m_prompts_succeeded m, m_prompts_failed m, m_inference_retries m,
           m_inference_rate_limited m, m_retries_exhausted m, m_idempotent_reuse m, m_cost_usd m,
           m_tokens m] @
         map gau_render [m_queue_depth m, m_active_jobs m, m_inflight m, m_concurrency_limit m] @
         map his_render [m_inference_latency m, m_job_duration m])) @ nl)"

subsection \<open>Bucket counts\<close>

lemma bump_buckets_aux:
  assumes "length counts = n + length buckets"
  shows "foldl (\<lambda>cs (i, edge). if v \<le> py_value edge then cs[i := cs ! i + 1] else cs)
      counts (enumerate n buckets) =
    take n counts @ map2 (\<lambda>edge c. if v \<le> py_value edge then c + 1 else c) buckets (drop n counts)"
  using assms
proof (induction buckets arbitrary: n counts)
  case (Cons edge buckets)
  then obtain c rest where d: "drop n counts = c # rest" "n < length counts"
    by (cases "drop n counts") auto
  then have nth: "counts ! n = c" "drop (Suc n) counts = rest"
    by (metis nth_via_drop) (metis d(1) drop_Suc list.sel(3) tl_drop)
  let ?cs = "if v \<le> py_value edge then counts[n := counts ! n + 1] else counts"
  have "take (Suc n) ?cs = take n counts @ [if v \<le> py_value edge then c + 1 else c]"
    using d(2) nth(1) by (simp add: take_Suc_conv_app_nth)
  moreover have "drop (Suc n) ?cs = rest" using nth(2) by simp
  ultimately show ?case using Cons.IH [of ?cs "Suc n"] Cons.prems d by simp
qed simp

lemma bump_buckets_eq:
  "length counts = length buckets \<Longrightarrow>
     bump_buckets v buckets counts =
       map2 (\<lambda>edge c. if v \<le> py_value edge then c + 1 else c) buckets counts"
  using bump_buckets_aux [of counts 0 buckets v] by (simp add: bump_buckets_def)

text \<open>The number of observations at or below an edge.\<close>

definition at_most :: "pyfloat list \<Rightarrow> pynum \<Rightarrow> nat" where
  "at_most vs edge = length (filter (\<lambda>v. v \<le> py_value edge) vs)"

definition observe_all :: "pyfloat list \<Rightarrow> histogram \<Rightarrow> histogram" where
  "observe_all vs h = fold his_observe vs h"

lemma observe_all_counts:
  assumes "his_counts h = map f (his_buckets h)"
  shows "his_counts (observe_all vs h) = map (\<lambda>edge. f edge + at_most vs edge) (his_buckets h) \<and>
    his_buckets (observe_all vs h) = his_buckets h \<and> his_count (observe_all vs h) = his_count h + length vs"
  using assms
proof (induction vs arbitrary: h f)
  case (Cons v vs)
  let ?f = "\<lambda>edge. if v \<le> py_value edge then f edge + 1 else f edge"
  have "his_counts (his_observe v h) = map ?f (his_buckets h)"
    using Cons.prems by (simp add: his_observe_def bump_buckets_eq zip_map2 map_zip_map2 comp_def zip_same_conv_map)
  then have "his_counts (his_observe v h) = map ?f (his_buckets (his_observe v h))"
    by (simp add: his_observe_def)
  from Cons.IH [OF this] show ?case
    by (auto simp: observe_all_def at_most_def his_observe_def)
qed (simp add: observe_all_def at_most_def)

lemma at_most_mono: "py_value a \<le> py_value b \<Longrightarrow> at_most vs a \<le> at_most vs b"
  by (induction vs) (auto simp: at_most_def)

lemma ctr_inc_run:
  assumes "ctr_value c = 0" "int n \<le> 2 ^ 53"
  shows "ctr_value ((ctr_inc1 ^^ n) c) = of_nat n"
  using assms(2)
proof (induction n)
  case 0
  then show ?case using assms(1) by simp
next
  case (Suc n)
  have "fl (of_int (int (Suc n))) = of_int (int (Suc n))" using Suc.prems by (intro fl_of_int) auto
  with Suc show ?case by (simp add: ctr_inc_def add.commute)
qed

text \<open>
  Histogram semantics: after any sequence of observations on a fresh histogram, the count of every
  bucket is the number of observations at or below its edge (Prometheus \<^verbatim>\<open>le\<close> semantics), so the counts
  grow with the edges and never exceed the total count.
\<close>

lemma histogram_counts_cumulative:
  fixes vs :: "pyfloat list" and name hlp :: string
  assumes "i < length bs"
  defines "h \<equiv> observe_all vs (new_histogram name hlp bs)"
  shows "his_counts h ! i = at_most vs (bs ! i) \<and> his_counts h ! i \<le> his_count h \<and>
    (\<forall>k < length bs. py_value (bs ! i) \<le> py_value (bs ! k) \<longrightarrow> his_counts h ! i \<le> his_counts h ! k)"
proof -
  have "his_counts h = map (at_most vs) bs" "his_count h = length vs"
    using observe_all_counts [of "new_histogram name hlp bs" "\<lambda>_. 0" vs] by (simp_all add: h_def new_histogram_def)
  then show ?thesis using assms(1) at_most_mono by (simp add: at_most_def)
qed

text \<open>
  Counters are exact: \<open>n\<close> increments of a fresh counter give the float \<open>n\<close>, for every \<open>n\<close> up to
  \<open>2^53\<close>, where binary64 stops representing the integers one by one.
\<close>

lemma counter_exact:
  assumes "int n \<le> 2 ^ 53"
  shows "ctr_value ((ctr_inc1 ^^ n) (new_counter name hlp)) = of_nat n"
  using assms by (intro ctr_inc_run) (simp_all add: new_counter_def)

end
