(* ===== verification/Config.thy ===== *)
theory Config
  imports PyFloat
begin

text \<open>
  \<^verbatim>\<open>app/config.py\<close>: the settings record and its construction from environment variables. The
  environment is a map from names to values. Python's \<^verbatim>\<open>int(s)\<close> and \<^verbatim>\<open>float(s)\<close> are modelled on
  ASCII decimal text: surrounding whitespace, a sign, digits with single underscores between
  them, and for floats a fraction and an exponent; \<^term>\<open>None\<close> is \<^verbatim>\<open>ValueError\<close>. The spellings of
  infinity and NaN denote no finite float and are outside the model.
\<close>

subsection \<open>Parsing numbers\<close>

definition py_space :: "char \<Rightarrow> bool" where
  "py_space c \<longleftrightarrow> (of_char c :: nat) \<in> {9, 10, 11, 12, 13, 28, 29, 30, 31, 32}"

definition py_strip :: "string \<Rightarrow> string" where
  "py_strip cs = rev (dropWhile py_space (rev (dropWhile py_space cs)))"

definition is_digit :: "char \<Rightarrow> bool" where
  "is_digit c \<longleftrightarrow> 48 \<le> (of_char c :: nat) \<and> (of_char c :: nat) \<le> 57"

text \<open>Digits with single underscores between them: the digits, or \<^term>\<open>None\<close>.\<close>

fun digit_run :: "string \<Rightarrow> string option" where
  "digit_run [] = None"
| "digit_run [c] = (if is_digit c then Some [c] else None)"
| "digit_run (c # d # cs) =
     (if \<not> is_digit c then None
      else if d = CHR ''_'' then map_option (Cons c) (digit_run cs)
      else map_option (Cons c) (digit_run (d # cs)))"

fun take_sign :: "string \<Rightarrow> bool \<times> string" where
  "take_sign [] = (False, [])"
| "take_sign (c # cs) =
     (if c = CHR ''-'' then (True, cs) else if c = CHR ''+'' then (False, cs) else (False, c # cs))"

definition signed :: "bool \<Rightarrow> 'a \<Rightarrow> 'a :: uminus" where
  "signed neg x = (if neg then - x else x)"

definition int_of_string :: "string \<Rightarrow> int option" where
  "int_of_string s =
     (let (neg, ds) = take_sign (py_strip s) in
      map_option (\<lambda>d. signed neg (int (read_nat d))) (digit_run ds))"

text \<open>An optional digit run: empty text is zero digits.\<close>

definition opt_digits :: "string \<Rightarrow> string option" where
  "opt_digits s = (if s = [] then Some [] else digit_run s)"

definition split_at :: "(char \<Rightarrow> bool) \<Rightarrow> string \<Rightarrow> string \<times> string option" where
  "split_at p s =
     (case dropWhile (\<lambda>c. \<not> p c) s of
        [] \<Rightarrow> (s, None)
      | _ # rest \<Rightarrow> (takeWhile (\<lambda>c. \<not> p c) s, Some rest))"

definition exponent_of_string :: "string option \<Rightarrow> int option" where
  "exponent_of_string e =
     (case e of
        None \<Rightarrow> Some 0
      | Some t \<Rightarrow>
          (let (neg, ds) = take_sign t in
           map_option (\<lambda>d. signed neg (int (read_nat d))) (digit_run ds)))"

definition mantissa_of_string :: "string \<Rightarrow> rat option" where
  "mantissa_of_string m =
     (let (whole, frac) = split_at (\<lambda>c. c = CHR ''.'') m in
      case (opt_digits whole, opt_digits (case frac of None \<Rightarrow> [] | Some f \<Rightarrow> f)) of
        (Some w, Some f) \<Rightarrow>
          (if w = [] \<and> f = [] then None
           else Some (of_nat (read_nat (w @ f)) / 10 ^ length f))
      | _ \<Rightarrow> None)"

definition float_of_string :: "string \<Rightarrow> pyfloat option" where
  "float_of_string s =
     (let (neg, body) = take_sign (py_strip s);
          (m, e) = split_at (\<lambda>c. c = CHR ''e'' \<or> c = CHR ''E'') body in
      case (mantissa_of_string m, exponent_of_string e) of
        (Some x, Some k) \<Rightarrow> Some (signed neg (fl (x * 10 powi k)))
      | _ \<Rightarrow> None)"

subsection \<open>Environment lookups\<close>

type_synonym environment = "string \<Rightarrow> string option"

definition get_int :: "environment \<Rightarrow> string \<Rightarrow> int \<Rightarrow> int" where
  "get_int env name dflt =
     (case env name of
        None \<Rightarrow> dflt
      | Some v \<Rightarrow> (case int_of_string v of None \<Rightarrow> dflt | Some i \<Rightarrow> i))"

definition get_float :: "environment \<Rightarrow> string \<Rightarrow> pyfloat \<Rightarrow> pyfloat" where
  "get_float env name dflt =
     (case env name of
        None \<Rightarrow> dflt
      | Some v \<Rightarrow> (case float_of_string v of None \<Rightarrow> dflt | Some x \<Rightarrow> x))"

subsection \<open>Settings\<close>

record settings =
  worker_pool_size :: int
  max_queue_size :: int
  global_max_concurrency :: int
  adaptive_min_concurrency :: int
  adaptive_increase_after :: int
  adaptive_decrease_factor :: pyfloat
  provider_max_rps :: pyfloat
  provider_burst :: pyfloat
  cost_per_1k_input_tokens :: pyfloat
  cost_per_1k_output_tokens :: pyfloat
  chars_per_token :: pyfloat
  max_active_jobs :: int
  overload_retry_after_seconds :: int
  graceful_shutdown_seconds :: pyfloat
  api_key :: string
  max_retries :: int
  backoff_base_seconds :: pyfloat
  backoff_max_seconds :: pyfloat
  backoff_jitter :: pyfloat
  mock_rate_limit_every :: int
  mock_min_latency_ms :: int
  mock_max_latency_ms :: int

text \<open>\<open>env\<close> is the environment when the module is imported: the class body evaluates the defaults then, once.\<close>

definition get_settings :: "environment \<Rightarrow> settings" where
  "get_settings env =
     \<lparr>worker_pool_size = get_int env ''WORKER_POOL_SIZE'' 16,
      max_queue_size = get_int env ''MAX_QUEUE_SIZE'' 10000,
      global_max_concurrency = get_int env ''GLOBAL_MAX_CONCURRENCY'' 64,
      adaptive_min_concurrency = get_int env ''ADAPTIVE_MIN_CONCURRENCY'' 4,
      adaptive_increase_after = get_int env ''ADAPTIVE_INCREASE_AFTER'' 5,
      adaptive_decrease_factor = get_float env ''ADAPTIVE_DECREASE_FACTOR'' (fl (4 / 5)),
      provider_max_rps = get_float env ''PROVIDER_MAX_RPS'' 0,
      provider_burst = get_float env ''PROVIDER_BURST'' 0,
      cost_per_1k_input_tokens = get_float env ''COST_PER_1K_INPUT_TOKENS'' (fl (15 / 100000)),
      cost_per_1k_output_tokens = get_float env ''COST_PER_1K_OUTPUT_TOKENS'' (fl (6 / 10000)),
      chars_per_token = get_float env ''CHARS_PER_TOKEN'' 4,
      max_active_jobs = get_int env ''MAX_ACTIVE_JOBS'' 50,
      overload_retry_after_seconds = get_int env ''OVERLOAD_RETRY_AFTER_SECONDS'' 5,
      graceful_shutdown_seconds = get_float env ''GRACEFUL_SHUTDOWN_SECONDS'' 10,
      api_key = (case env ''API_KEY'' of None \<Rightarrow> '''' | Some v \<Rightarrow> v),
      max_retries = get_int env ''MAX_RETRIES'' 5,
      backoff_base_seconds = get_float env ''BACKOFF_BASE_SECONDS'' (fl (2 / 10)),
      backoff_max_seconds = get_float env ''BACKOFF_MAX_SECONDS'' 10,
      backoff_jitter = get_float env ''BACKOFF_JITTER'' (fl (1 / 10)),
      mock_rate_limit_every = get_int env ''MOCK_RATE_LIMIT_EVERY'' 7,
      mock_min_latency_ms = get_int env ''MOCK_MIN_LATENCY_MS'' 5,
      mock_max_latency_ms = get_int env ''MOCK_MAX_LATENCY_MS'' 25\<rparr>"

definition default_settings :: settings where
  "default_settings = get_settings (\<lambda>_. None)"

lemma digit_run_show_nat_aux:
  "cs \<noteq> [] \<Longrightarrow> list_all is_digit cs \<Longrightarrow> digit_run cs = Some cs"
  by (induction cs rule: digit_run.induct) (auto simp: is_digit_def)

lemma is_digit_digit_char: "d < 10 \<Longrightarrow> is_digit (digit_char d)"
  by (simp add: is_digit_def digit_char_def of_char_of)

lemma show_nat_digits: "show_nat n \<noteq> [] \<and> list_all is_digit (show_nat n)"
proof (induction n rule: show_nat.induct)
  case (1 n)
  then show ?case
    by (cases "n < 10") (simp_all add: show_nat.simps [of n] is_digit_digit_char)
qed

lemma is_digit_not_space: "is_digit c \<Longrightarrow> \<not> py_space c"
  by (auto simp: is_digit_def py_space_def)

lemma py_strip_id:
  "cs \<noteq> [] \<Longrightarrow> \<not> py_space (hd cs) \<Longrightarrow> \<not> py_space (last cs) \<Longrightarrow> py_strip cs = cs"
  by (simp add: py_strip_def dropWhile_eq_self_iff [THEN iffD2] hd_rev)

lemma digit_run_show_nat: "digit_run (show_nat n) = Some (show_nat n)"
  using show_nat_digits [of n] digit_run_show_nat_aux by blast

lemma int_of_show_int: "int_of_string (show_int i) = Some i"
proof -
  have ends: "is_digit (hd (show_nat n))" "is_digit (last (show_nat n))" for n
    using show_nat_digits [of n] by (auto simp: list_all_iff)
  have minus: "\<not> is_digit CHR ''-''" "\<not> is_digit CHR ''+''" "\<not> py_space CHR ''-''"
    by (simp_all add: is_digit_def py_space_def)
  have sign: "take_sign (show_nat n) = (False, show_nat n)" for n
    using ends(1) [of n] minus by (cases "show_nat n") auto
  show ?thesis
  proof (cases "i < 0")
    case True
    have "py_strip (CHR ''-'' # show_nat (nat (- i))) = CHR ''-'' # show_nat (nat (- i))"
      using minus ends(2) [of "nat (- i)"] show_nat_digits [of "nat (- i)"]
      by (intro py_strip_id) (auto dest: is_digit_not_space)
    with True show ?thesis
      by (simp add: int_of_string_def show_int_def digit_run_show_nat read_show_nat signed_def)
  next
    case False
    have "py_strip (show_nat (nat i)) = show_nat (nat i)"
      using ends [of "nat i"] show_nat_digits [of "nat i"]
      by (intro py_strip_id) (auto dest: is_digit_not_space)
    with False show ?thesis
      by (simp add: int_of_string_def show_int_def digit_run_show_nat read_show_nat signed_def sign)
  qed
qed

lemma default_settings_simps:
  "worker_pool_size default_settings = 16" "max_queue_size default_settings = 10000"
  "global_max_concurrency default_settings = 64" "adaptive_min_concurrency default_settings = 4"
  "adaptive_increase_after default_settings = 5" "adaptive_decrease_factor default_settings = fl (4 / 5)"
  "provider_max_rps default_settings = 0" "provider_burst default_settings = 0"
  "chars_per_token default_settings = 4" "max_active_jobs default_settings = 50"
  "overload_retry_after_seconds default_settings = 5" "max_retries default_settings = 5"
  "backoff_base_seconds default_settings = fl (2 / 10)" "backoff_max_seconds default_settings = 10"
  "backoff_jitter default_settings = fl (1 / 10)" "mock_rate_limit_every default_settings = 7"
  by (simp_all add: default_settings_def get_settings_def get_int_def get_float_def)

text \<open>
  Integer settings round-trip through the environment: when a variable holds the decimal rendering
  of an integer (any sign, any size), \<^verbatim>\<open>get_int\<close> reads back that integer and ignores the default.
\<close>

lemma get_int_round_trip:
  assumes "env name = Some (show_int i)"
  shows "get_int env name dflt = i"
  using assms by (simp add: get_int_def int_of_show_int)

end
