(* ===== verification/Repr_Laws.thy ===== *)
theory Repr_Laws
  imports PyRepr Config
begin

text \<open>
  \<^verbatim>\<open>float(repr(x)) == x\<close>: the numeral Python prints for a float reads back as that float. Seventeen
  significant digits determine a binary64 number, because the distance between neighbouring decimals of that length is smaller
  than the distance between neighbouring floats; the printed numeral has the value of the shortest such decimal.
\<close>

subsection \<open>Decimal exponents\<close>

lemma show_pos_nonempty [simp]: "show_pos i \<noteq> []"
  by (subst show_pos.simps) simp

lemma show_pos_bounds:
  assumes "0 < i"
  shows "10 ^ (length (show_pos i) - 1) \<le> i" "i < 10 ^ length (show_pos i)"
proof -
  have "10 ^ (length (show_pos i) - 1) \<le> i \<and> i < 10 ^ length (show_pos i)"
    using assms
  proof (induction i rule: show_pos.induct)
    case (1 i)
    show ?case
    proof (cases "i < 10")
      case True
      with 1 show ?thesis by (simp add: show_pos.simps [of i])
    next
      case False
      define l where "l = length (show_pos (i div 10))"
      have l: "length (show_pos i) = l + 1" "0 < l"
        using False by (auto simp: show_pos.simps [of i] l_def)
      then obtain k where k: "l = Suc k" by (cases l) auto
      have "10 ^ (l - 1) \<le> i div 10" "i div 10 < 10 ^ l"
        using 1 False by (auto simp: l_def)
      then have "10 * 10 ^ k \<le> i" "i < 10 * 10 ^ l" using k by simp_all
      with l k show ?thesis by simp
    qed
  qed
  then show "10 ^ (length (show_pos i) - 1) \<le> i" "i < 10 ^ length (show_pos i)" by blast+
qed

lemma decimal_exponent_bounds:
  assumes "0 < x"
  shows "10 powi decimal_exponent x \<le> x" "x < 10 powi (decimal_exponent x + 1)"
proof -
  obtain p q where pq: "quotient_of x = (p, q)" by (metis surj_pair)
  have x: "x = of_int p / of_int q" using quotient_of_div [OF pq] .
  have q: "0 < q" using quotient_of_denom_pos [OF pq] .
  with x assms have p: "0 < p" by (simp add: zero_less_divide_iff)
  define a b where "a = int (length (show_pos p))" and "b = int (length (show_pos q))"
  have bound: "(10::rat) powi (int (length (show_pos i)) - 1) \<le> of_int i \<and> of_int i < (10::rat) powi int (length (show_pos i))"
    if "0 < i" for i
  proof -
    have "int (length (show_pos i)) - 1 = int (length (show_pos i) - 1)" by (simp add: of_nat_diff Suc_le_eq)
    moreover have "(10::rat) powi int n = of_int (10 ^ n)" for n by (simp add: power_int_def)
    ultimately show ?thesis using show_pos_bounds [OF that] by (metis of_int_le_iff of_int_less_iff)
  qed
  have up: "x < 10 powi (a - b + 1)"
  proof -
    have "x < 10 powi a / 10 powi (b - 1)"
      unfolding x a_def b_def using bound [OF p] bound [OF q] p q by (intro frac_less) auto
    also have "\<dots> = 10 powi (a - b + 1)" by (simp flip: power_int_diff add: algebra_simps)
    finally show ?thesis .
  qed
  have lo: "10 powi (a - b - 1) \<le> x"
  proof -
    have "10 powi (a - b - 1) = (10::rat) powi (a - 1) / 10 powi b"
      by (simp flip: power_int_diff add: algebra_simps)
    also have "\<dots> \<le> x"
      unfolding x a_def b_def using bound [OF p] bound [OF q] p q by (intro frac_le) (auto simp: less_imp_le)
    finally show ?thesis .
  qed
  show "10 powi decimal_exponent x \<le> x" "x < 10 powi (decimal_exponent x + 1)"
    using up lo assms by (auto simp: decimal_exponent_def pq Let_def a_def b_def)
qed

subsection \<open>Numbers close to a float round to it\<close>

lemma round_half_even_near:
  assumes "\<bar>x - of_int m\<bar> < 1 / 2"
  shows "round_half_even x = m"
proof (cases "of_int m \<le> x")
  case True
  with assms have "\<lfloor>x\<rfloor> = m" by (simp add: floor_eq_iff abs_if split: if_splits)
  with True assms show ?thesis by (simp add: round_half_even_def)
next
  case False
  with assms have "\<lfloor>x\<rfloor> = m - 1" by (simp add: floor_eq_iff abs_if split: if_splits)
  with False assms show ?thesis by (simp add: round_half_even_def Let_def)
qed

lemma fl_near:
  assumes "x \<noteq> 0" "\<bar>x - of_int m * 2 powi ulp_exponent x\<bar> < 2 powi ulp_exponent x / 2"
  shows "fl x = of_int m * 2 powi ulp_exponent x"
proof -
  let ?u = "(2::rat) powi ulp_exponent x"
  have "x / ?u - of_int m = (x - of_int m * ?u) / ?u" by (simp add: field_simps)
  then have "\<bar>x / ?u - of_int m\<bar> = \<bar>x - of_int m * ?u\<bar> / ?u" by (simp add: abs_divide)
  also have "\<dots> < 1 / 2" using assms(2) by (simp add: divide_less_eq)
  finally show ?thesis using assms(1) by (simp add: fl_def round_half_even_near)
qed

lemma fl_fixed_multiple:
  assumes "fl x = x" "x \<noteq> 0"
  obtains m where "x = of_int m * 2 powi ulp_exponent x"
  using assms by (simp add: fl_def) metis

lemma powi_pred: "(2::rat) powi n = 2 * 2 powi (n - 1)"
  using power_int_add [of "2::rat" 1 "n - 1"] by simp

text \<open>A multiple of the unit in the last place above a power of two is above it by at least one unit.\<close>

lemma multiple_gap:
  assumes "n \<ge> u" "2 powi n < of_int m * (2::rat) powi u"
  shows "2 powi n + 2 powi u \<le> of_int m * (2::rat) powi u"
proof -
  have n: "(2::rat) powi n = of_int (2 ^ nat (n - u)) * 2 powi u" by (rule powi_split [OF assms(1)])
  with assms(2) have "of_int (2 ^ nat (n - u)) < (of_int m :: rat)" by simp
  then have "2 ^ nat (n - u) + 1 \<le> m" by linarith
  then have "of_int (2 ^ nat (n - u) + 1) * (2::rat) powi u \<le> of_int m * 2 powi u"
    by (intro mult_right_mono) (simp_all only: of_int_le_iff, simp)
  with n show ?thesis by (simp add: algebra_simps)
qed

lemma multiple_gap_below:
  assumes "n \<ge> u" "of_int m * (2::rat) powi u < 2 powi n"
  shows "of_int m * (2::rat) powi u + 2 powi u \<le> 2 powi n"
proof -
  have n: "(2::rat) powi n = of_int (2 ^ nat (n - u)) * 2 powi u" by (rule powi_split [OF assms(1)])
  with assms(2) have "(of_int m :: rat) < of_int (2 ^ nat (n - u))" by simp
  then have "m + 1 \<le> 2 ^ nat (n - u)" by linarith
  then have "of_int (m + 1) * (2::rat) powi u \<le> of_int (2 ^ nat (n - u)) * 2 powi u"
    by (intro mult_right_mono) (simp_all only: of_int_le_iff, simp)
  with n show ?thesis by (simp add: algebra_simps)
qed

lemma binary_exponent_eqI:
  assumes "2 powi n \<le> y" "y < 2 powi (n + 1)"
  shows "binary_exponent y = n"
proof -
  have y: "0 < y" using assms(1) zero_less_power_int [of "2::rat" n] by linarith
  then have "binary_exponent y < n + 1" using assms(2) by (intro binary_exponent_less) auto
  moreover have "n < binary_exponent y + 1"
  proof (rule ccontr)
    assume "\<not> ?thesis"
    then have "(2::rat) powi (binary_exponent y + 1) \<le> 2 powi n" by (intro power_int_increasing) auto
    with binary_exponent_bounds(2) [of y] assms(1) y show False by linarith
  qed
  ultimately show ?thesis by linarith
qed

text \<open>
  Half a unit on either side, a quarter below a power of two, where the unit of the smaller numbers is half
  as large.
\<close>

lemma fl_absorbs:
  assumes x: "fl x = x" "0 < x" and y: "0 < y"
    and "\<bar>y - x\<bar> < 2 powi ulp_exponent x / 2"
    and power: "x = 2 powi binary_exponent x \<Longrightarrow> \<bar>y - x\<bar> < 2 powi ulp_exponent x / 4"
  shows "fl y = x"
proof -
  define e u where "e = binary_exponent x" and "u = ulp_exponent x"
  obtain m where m: "x = of_int m * 2 powi u" using fl_fixed_multiple [of x] x unfolding u_def by auto
  have e: "2 powi e \<le> x" "x < 2 powi (e + 1)" using binary_exponent_bounds [of x] x by (simp_all add: e_def)
  have u: "u = max (- 1074) (e - 52)" by (simp add: u_def e_def ulp_exponent_def)
  have near: "\<bar>y - x\<bar> < 2 powi u / 2" using assms(4) by (simp add: u_def)
  have same: "fl y = x" if "ulp_exponent y = u"
    using fl_near [of y m, unfolded that] near y m [symmetric] by simp
  show ?thesis
  proof (cases "ulp_exponent y = u")
    case True
    then show ?thesis by (rule same)
  next
    case False
    have "y < 2 powi (e + 1)"
    proof (cases "u \<le> e + 1")
      case True
      with m e have "x + 2 powi u \<le> 2 powi (e + 1)" using multiple_gap_below [of u "e + 1" m] by simp
      with near show ?thesis using zero_less_power_int [of "2::rat" u] by (simp add: abs_if split: if_splits)
    next
      case False
      with u e x near m show ?thesis
      proof -
        have "x < 2 powi u" using e False by (meson less_le_trans not_le order.strict_implies_order power_int_increasing one_le_numeral)
        with m have "of_int m < (1::rat)" by simp
        moreover have "0 < of_int m * (2::rat) powi u" using m x by simp
        then have "0 < (of_int m :: rat)" by (rule zero_less_mult_pos2) simp
        ultimately show ?thesis by simp
      qed
    qed
    then have "\<not> 2 powi e \<le> y" using binary_exponent_eqI [of e y] same False u
      by (auto simp: ulp_exponent_def)
    then have y_lt: "y < 2 powi e" by simp
    have sub: "u = e - 52" "- 1074 < u"
    proof -
      have "binary_exponent y < e" using binary_exponent_less [of y e] y y_lt by simp
      with False u show "u = e - 52" "- 1074 < u" by (auto simp: ulp_exponent_def)
    qed
    have "x = 2 powi e"
    proof (rule ccontr)
      assume "x \<noteq> 2 powi e"
      with e m sub have "2 powi e + 2 powi u \<le> x" using multiple_gap [of u e m] by simp
      with near y_lt zero_less_power_int [of "2::rat" u] show False
        by (simp add: abs_if split: if_splits)
    qed
    then have quarter: "\<bar>y - x\<bar> < 2 powi u / 4" using power by (simp add: e_def u_def)
    have "(2::rat) powi u \<le> 2 powi e" using sub by (intro power_int_increasing) auto
    with quarter \<open>x = 2 powi e\<close> y_lt have "2 powi (e - 1) \<le> y"
      using powi_pred [of e] by (simp add: abs_if split: if_splits)
    with y_lt have "binary_exponent y = e - 1" by (intro binary_exponent_eqI) simp_all
    with sub have uy: "ulp_exponent y = u - 1" by (simp add: ulp_exponent_def)
    have "x = of_int (2 * m) * 2 powi (u - 1)" using m powi_pred [of u] by simp
    with uy quarter y fl_near [of y "2 * m"] powi_pred [of u] show ?thesis by simp
  qed
qed

subsection \<open>Seventeen digits suffice\<close>

lemma unit_arithmetic:
  fixes d q p t :: rat
  assumes "p \<le> q" "p * 4503599627370496 = t" "0 < t"
  shows "2 * d * 10000000000000000 \<le> x \<Longrightarrow> x < 2 * t \<Longrightarrow> d < q / 2"
    and "2 * d * 10000000000000000 \<le> t \<Longrightarrow> d < q / 4"
  using assms by linarith+

lemma seventeen_digits:
  assumes x: "fl x = x" "0 < x" and y: "0 < y"
    and near: "2 * \<bar>y - x\<bar> \<le> 10 powi (decimal_exponent x - 16)"
  shows "fl y = x"
proof (rule fl_absorbs [OF x y])
  define e where "e = binary_exponent x"
  have e: "x < 2 * 2 powi e" "2 powi (e - 52) \<le> (2::rat) powi ulp_exponent x"
    using binary_exponent_bounds(2) [of x] x powi_pred [of "e + 1"]
    by (simp_all add: e_def ulp_exponent_def power_int_increasing)
  have "10 powi (decimal_exponent x - 16) = 10 powi decimal_exponent x / (10 ^ 16 :: rat)"
    by (simp add: power_int_diff)
  then have half: "2 * \<bar>y - x\<bar> * 10000000000000000 \<le> x"
    using near decimal_exponent_bounds(1) [OF x(2)] by (simp add: le_divide_eq)
  have unit: "(2::rat) powi (e - 52) * 4503599627370496 = 2 powi e" "0 < (2::rat) powi e"
    by (simp_all add: power_int_diff)
  show "\<bar>y - x\<bar> < 2 powi ulp_exponent x / 2"
    by (rule unit_arithmetic(1) [OF e(2) unit half e(1)])
  assume "x = 2 powi binary_exponent x"
  then have "x = 2 powi e" by (simp add: e_def)
  with half show "\<bar>y - x\<bar> < 2 powi ulp_exponent x / 4"
    using unit_arithmetic(2) [OF e(2) unit, of "\<bar>y - x\<bar>"] by simp
qed

lemma decimals_at_17:
  assumes "fl x = x" "0 < x"
  shows "decimals_at x 17 \<noteq> []"
proof -
  define sc where "sc = (10::rat) powi (decimal_exponent x - 16)"
  define m where "m = \<lfloor>x / sc\<rfloor>"
  define c where "c = (if x - of_int m * sc \<le> of_int (m + 1) * sc - x then m else m + 1)"
  have sc: "0 < sc" by (simp add: sc_def)
  have "sc \<le> 10 powi decimal_exponent x" unfolding sc_def by (intro power_int_increasing) auto
  with decimal_exponent_bounds(1) [OF assms(2)] have "sc \<le> x" by linarith
  with sc have "1 \<le> m" by (simp add: m_def le_floor_iff le_divide_eq)
  then have pos: "0 < of_int c * sc" using sc by (simp add: c_def)
  have m: "of_int m * sc \<le> x" "x < of_int (m + 1) * sc"
    using floor_correct [of "x / sc"] unfolding m_def
    by (simp_all only: pos_le_divide_eq [OF sc] pos_divide_less_eq [OF sc])
  then have "2 * \<bar>of_int c * sc - x\<bar> \<le> sc"
    by (auto simp: c_def algebra_simps abs_if)
  then have "fl (of_int c * sc) = x"
    using seventeen_digits [OF assms pos] by (simp add: sc_def)
  moreover have "decimals_at x 17 =
      filter (\<lambda>c. fl (of_int c * sc) = x) (if c = m then [m, m + 1] else [m + 1, m])"
    by (simp add: decimals_at_def sc_def m_def c_def Let_def)
  ultimately show ?thesis by (auto simp: c_def split: if_splits)
qed

lemma shortest_decimal_value:
  assumes "fl x = x" "0 < x" "shortest_decimal x = (m, k)"
  shows "fl (of_int m * 10 powi k) = x" "0 < m"
proof -
  define p where "p = (case find (\<lambda>p. decimals_at x p \<noteq> []) [1..<17] of Some p \<Rightarrow> p | None \<Rightarrow> 17)"
  have "decimals_at x p \<noteq> []"
    using decimals_at_17 [OF assms(1,2)] by (auto simp: p_def find_Some_iff split: option.splits)
  moreover have mk: "m = hd (decimals_at x p @ [0])" "k = decimal_exponent x - int p + 1"
    using assms(3) by (auto simp: shortest_decimal_def p_def Let_def)
  ultimately have "m \<in> set (decimals_at x p)" by simp
  then show val: "fl (of_int m * 10 powi k) = x"
    using mk(2) by (auto simp: decimals_at_def Let_def split: if_splits)
  show "0 < m"
  proof (rule ccontr)
    assume "\<not> ?thesis"
    then have "of_int m * (10::rat) powi k \<le> 0" by (simp add: mult_le_0_iff)
    then have "fl (of_int m * 10 powi k) \<le> 0" by (rule binary64.rnd_nonpos)
    with val assms(2) show False by simp
  qed
qed

subsection \<open>Numerals and their values\<close>

text \<open>A numeral by its parts: sign, integer digits, digits of the fraction, sign and digits of the exponent.\<close>

definition numeral_text :: "bool \<Rightarrow> string \<Rightarrow> string option \<Rightarrow> (bool \<times> string) option \<Rightarrow> string" where
  "numeral_text neg ip fp ep =
     (if neg then ''-'' else []) @ ip @
     (case fp of None \<Rightarrow> [] | Some f \<Rightarrow> CHR ''.'' # f) @
     (case ep of None \<Rightarrow> [] | Some (eneg, e) \<Rightarrow> CHR ''e'' # (if eneg then CHR ''-'' else CHR ''+'') # e)"

definition numeral_ok :: "string \<Rightarrow> string option \<Rightarrow> (bool \<times> string) option \<Rightarrow> bool" where
  "numeral_ok ip fp ep \<longleftrightarrow>
     list_all is_digit ip \<and> ip \<noteq> [] \<and> (hd ip = CHR ''0'' \<longrightarrow> ip = ''0'') \<and>
     (case fp of None \<Rightarrow> ep \<noteq> None | Some f \<Rightarrow> list_all is_digit f \<and> f \<noteq> []) \<and>
     (case ep of None \<Rightarrow> True | Some (eneg, e) \<Rightarrow> list_all is_digit e \<and> e \<noteq> [])"

definition numeral_value :: "string \<Rightarrow> string option \<Rightarrow> (bool \<times> string) option \<Rightarrow> rat" where
  "numeral_value ip fp ep =
     (let f = (case fp of None \<Rightarrow> [] | Some f \<Rightarrow> f) in
      of_nat (read_nat (ip @ f)) / 10 ^ length f *
      10 powi (case ep of None \<Rightarrow> 0 | Some (eneg, e) \<Rightarrow> signed eneg (int (read_nat e))))"

lemma py_strip_spaceless: "list_all (\<lambda>c. \<not> py_space c) s \<Longrightarrow> s \<noteq> [] \<Longrightarrow> py_strip s = s"
  by (rule py_strip_id) (auto simp: list_all_iff)

lemma split_at_none: "list_all (\<lambda>c. \<not> p c) a \<Longrightarrow> split_at p a = (a, None)"
proof -
  assume "list_all (\<lambda>c. \<not> p c) a"
  then have "dropWhile (\<lambda>c. \<not> p c) a = []" by (simp only: dropWhile_eq_Nil_conv list_all_iff)
  then show ?thesis by (simp only: split_at_def list.case)
qed

lemma split_at_some: "list_all (\<lambda>c. \<not> p c) a \<Longrightarrow> p c \<Longrightarrow> split_at p (a @ c # b) = (a, Some b)"
  by (simp add: split_at_def list_all_iff dropWhile_append3 takeWhile_append)

lemma digits_avoid:
  assumes "list_all is_digit ds"
  shows "list_all (\<lambda>c. \<not> py_space c) ds" "list_all (\<lambda>c. c \<noteq> CHR ''.'') ds" "list_all (\<lambda>c. c \<noteq> CHR ''e'' \<and> c \<noteq> CHR ''E'') ds"
  using assms by (auto simp: list_all_iff is_digit_def py_space_def)

lemma take_sign_digits: "list_all is_digit ds \<Longrightarrow> ds \<noteq> [] \<Longrightarrow> take_sign (ds @ s) = (False, ds @ s)"
  by (cases ds) (auto simp: is_digit_def)

lemma mantissa_of_numeral:
  assumes "numeral_ok ip fp ep"
  shows "mantissa_of_string (ip @ (case fp of None \<Rightarrow> [] | Some f \<Rightarrow> CHR ''.'' # f)) =
    Some (of_nat (read_nat (ip @ (case fp of None \<Rightarrow> [] | Some f \<Rightarrow> f))) / 10 ^ length (case fp of None \<Rightarrow> [] | Some f \<Rightarrow> f))"
  using assms digits_avoid(2) [of ip]
  by (auto simp: mantissa_of_string_def numeral_ok_def opt_digits_def digit_run_show_nat_aux split_at_none split_at_some
      split: option.splits)

lemma exponent_of_numeral:
  assumes "numeral_ok ip fp ep"
  shows "exponent_of_string (map_option (\<lambda>(eneg, e). (if eneg then CHR ''-'' else CHR ''+'') # e) ep) =
    Some (case ep of None \<Rightarrow> 0 | Some (eneg, e) \<Rightarrow> signed eneg (int (read_nat e)))"
  using assms by (auto simp: exponent_of_string_def numeral_ok_def digit_run_show_nat_aux split: option.splits)

lemma float_of_numeral:
  assumes "numeral_ok ip fp ep"
  shows "float_of_string (numeral_text neg ip fp ep) = Some (signed neg (fl (numeral_value ip fp ep)))"
proof -
  let ?m = "ip @ (case fp of None \<Rightarrow> [] | Some f \<Rightarrow> CHR ''.'' # f)"
  let ?e = "map_option (\<lambda>(eneg, e). (if eneg then CHR ''-'' else CHR ''+'') # e) ep"
  let ?body = "?m @ (case ep of None \<Rightarrow> [] | Some (eneg, e) \<Rightarrow> CHR ''e'' # (if eneg then CHR ''-'' else CHR ''+'') # e)"
  have ip: "list_all is_digit ip" "ip \<noteq> []" using assms by (simp_all add: numeral_ok_def)
  have m: "list_all (\<lambda>c. c \<noteq> CHR ''e'' \<and> c \<noteq> CHR ''E'') ?m" "list_all (\<lambda>c. \<not> py_space c) ?m"
    using assms digits_avoid [of ip] digits_avoid by (auto simp: numeral_ok_def py_space_def split: option.splits)
  have "list_all (\<lambda>c. \<not> py_space c) (numeral_text neg ip fp ep)"
    using assms m(2) digits_avoid(1) by (auto simp: numeral_text_def numeral_ok_def py_space_def split: option.splits)
  then have "take_sign (py_strip (numeral_text neg ip fp ep)) = (neg, ?body)"
    using ip by (simp add: py_strip_spaceless numeral_text_def take_sign_digits)
  moreover have "split_at (\<lambda>c. c = CHR ''e'' \<or> c = CHR ''E'') ?body = (?m, ?e)"
    using m(1) by (cases ep) (auto simp: split_at_none split_at_some [of _ _ "CHR ''e''"] simp del: append_assoc)
  ultimately show ?thesis
    using mantissa_of_numeral [OF assms] exponent_of_numeral [OF assms]
    by (simp add: float_of_string_def numeral_value_def Let_def)
qed

subsection \<open>The printed numeral\<close>

lemma read_nat_append: "read_nat (xs @ ys) = read_nat xs * 10 ^ length ys + read_nat ys"
  by (induction ys rule: rev_induct) (simp_all add: read_nat_def algebra_simps)

lemma read_nat_0 [simp]: "read_nat (CHR ''0'' # ds) = read_nat ds" "read_nat [] = 0"
  by (simp_all add: read_nat_def digit_value_def)

lemma read_nat_zeros [simp]: "read_nat (replicate n (CHR ''0'')) = 0"
  by (induction n) (simp_all add: read_nat_def digit_value_def)

lemma read_show_pos: "0 \<le> i \<Longrightarrow> read_nat (show_pos i) = nat i"
  by (simp add: show_pos_nat read_show_nat)

lemma show_pos_digits: "list_all is_digit (show_pos i)"
proof (induction i rule: show_pos.induct)
  case (1 i)
  have "is_digit (digit_char d)" if "d < 10" for d using that by (simp add: is_digit_def digit_char_def)
  with 1 show ?case by (simp add: show_pos.simps [of i] nat_less_iff)
qed

lemma show_pos_hd: "0 < i \<Longrightarrow> hd (show_pos i) \<noteq> CHR ''0''"
proof (induction i rule: show_pos.induct)
  case (1 i)
  show ?case
  proof (cases "i < 10")
    case True
    have "digit_value (digit_char (nat i)) = nat i" using True by (simp add: nat_less_iff)
    moreover have "digit_value (CHR ''0'') = 0" by (simp add: digit_value_def)
    ultimately have "digit_char (nat i) \<noteq> CHR ''0''" using 1(2) by (metis less_numeral_extra(3) zero_less_nat_eq)
    then show ?thesis using True by (simp add: show_pos.simps [of i])
  next
    case False
    with 1 show ?thesis by (simp add: show_pos.simps [of i])
  qed
qed

text \<open>Dropping the zeros at the end: the digits that are left, and how many zeros there were.\<close>

lemma strip_zeros_split:
  obtains z where "ds = strip_zeros ds @ replicate z (CHR ''0'')"
proof -
  let ?P = "\<lambda>c. c = CHR ''0''"
  have "takeWhile ?P (rev ds) = replicate (length (takeWhile ?P (rev ds))) (CHR ''0'')"
    by (induction "rev ds" arbitrary: ds) (auto simp: takeWhile_eq_Nil_iff intro: replicate_eqI dest: set_takeWhileD)
  then have "rev ds = replicate (length (takeWhile ?P (rev ds))) (CHR ''0'') @ dropWhile ?P (rev ds)"
    by (metis takeWhile_dropWhile_id)
  then have "ds = strip_zeros ds @ replicate (length (takeWhile ?P (rev ds))) (CHR ''0'')"
    by (metis rev_append rev_replicate rev_rev_ident strip_zeros_def)
  then show thesis by (rule that)
qed

text \<open>The value of digits with the decimal point after \<open>n\<close> places.\<close>

definition decimal_value :: "string \<Rightarrow> int \<Rightarrow> rat" where
  "decimal_value ds n = of_nat (read_nat ds) * 10 powi (n - int (length ds))"

lemma powi_of_nat: "(10::rat) powi int n = 10 ^ n"
  by (simp add: power_int_def)

lemma format_decimal_numeral:
  assumes ds: "list_all is_digit ds" "ds \<noteq> []" "hd ds \<noteq> CHR ''0''"
  obtains ip fp ep where "format_decimal ds n = numeral_text False ip fp ep" "numeral_ok ip fp ep"
    "numeral_value ip fp ep = decimal_value ds n"
proof -
  have zero: "is_digit (CHR ''0'')" by (simp add: is_digit_def)
  consider (small) "- 4 < n" "n \<le> 0" | (whole) "0 < n" "n \<le> 16" "int (length ds) \<le> n"
    | (mixed) "0 < n" "n \<le> 16" "n < int (length ds)" | (scientific) "\<not> (- 4 < n \<and> n \<le> 16)"
    by linarith
  then show thesis
  proof cases
    case small
    let ?f = "replicate (nat (- n)) (CHR ''0'') @ ds"
    have "10 powi (n - int (length ds)) = (1::rat) / 10 ^ (nat (- n) + length ds)"
      using small powi_of_nat [of "nat (- n) + length ds"]
      by (metis (no_types, opaque_lifting) add.inverse_inverse diff_conv_add_uminus int_nat_eq minus_add_distrib neg_0_le_iff_le
          of_nat_add power_int_minus_divide)
    then have "numeral_value ''0'' (Some ?f) None = decimal_value ds n"
      by (simp add: numeral_value_def decimal_value_def read_nat_append)
    moreover have "numeral_ok ''0'' (Some ?f) None" using ds zero by (auto simp: numeral_ok_def list_all_iff)
    moreover have "format_decimal ds n = numeral_text False ''0'' (Some ?f) None"
      using small by (simp add: format_decimal_def numeral_text_def)
    ultimately show thesis using that by blast
  next
    case whole
    let ?i = "ds @ replicate (nat n - length ds) (CHR ''0'')"
    have "10 powi (n - int (length ds)) = (10::rat) ^ (nat n - length ds)"
      using whole powi_of_nat [of "nat n - length ds"] by (simp add: of_nat_diff nat_le_iff le_nat_iff)
    then have "numeral_value ?i (Some ''0'') None = decimal_value ds n"
      by (simp add: numeral_value_def decimal_value_def read_nat_append)
    moreover have "numeral_ok ?i (Some ''0'') None" using ds zero by (auto simp: numeral_ok_def list_all_iff)
    moreover have "format_decimal ds n = numeral_text False ?i (Some ''0'') None"
      using whole by (simp add: format_decimal_def numeral_text_def)
    ultimately show thesis using that by blast
  next
    case mixed
    let ?i = "take (nat n) ds" and ?f = "drop (nat n) ds"
    have "10 powi (n - int (length ds)) = (1::rat) / 10 ^ (length ds - nat n)"
      using mixed powi_of_nat [of "length ds - nat n"] power_int_minus_divide [of "10::rat" "int (length ds - nat n)"]
      by (simp add: of_nat_diff)
    then have "numeral_value ?i (Some ?f) None = decimal_value ds n"
      by (simp add: numeral_value_def decimal_value_def)
    moreover have "numeral_ok ?i (Some ?f) None"
      using ds mixed by (auto simp: numeral_ok_def list_all_iff dest: in_set_takeD in_set_dropD)
    moreover have "format_decimal ds n = numeral_text False ?i (Some ?f) None"
      using mixed by (simp add: format_decimal_def numeral_text_def)
    ultimately show thesis using that by blast
  next
    case scientific
    define f where "f = (if length ds = 1 then None else Some (drop 1 ds))"
    define e where "e = (if length (show_nat (nat \<bar>n - 1\<bar>)) < 2 then ''0'' else []) @ show_nat (nat \<bar>n - 1\<bar>)"
    have e: "list_all is_digit e" "e \<noteq> []" "read_nat e = nat \<bar>n - 1\<bar>"
      using show_pos_digits [of "\<bar>n - 1\<bar>"] show_pos_nonempty [of "\<bar>n - 1\<bar>"] zero
      by (auto simp: e_def read_show_nat show_pos_nat)
    obtain d t where d: "ds = d # t" using ds by (cases ds) auto
    have "10 powi (n - int (length ds)) = (10::rat) powi (n - 1) / 10 ^ length t"
      using d power_int_diff [of "10::rat" "n - 1" "int (length t)"] by (simp add: powi_of_nat algebra_simps)
    moreover have "signed (n - 1 < 0) (int (read_nat e)) = n - 1" using e(3) by (simp add: signed_def)
    ultimately have "numeral_value [d] f (Some (n - 1 < 0, e)) = decimal_value ds n"
      using d by (auto simp: numeral_value_def decimal_value_def f_def)
    moreover have "numeral_ok [d] f (Some (n - 1 < 0, e))"
      using ds e d by (auto simp: numeral_ok_def f_def)
    moreover have "format_decimal ds n = numeral_text False [d] f (Some (n - 1 < 0, e))"
      unfolding format_decimal_def if_not_P [OF scientific] using d
      by (simp add: numeral_text_def f_def e_def Let_def)
    ultimately show thesis using that by blast
  qed
qed

lemma decimal_value_strip:
  assumes "ds = ds' @ replicate z (CHR ''0'')"
  shows "decimal_value ds' n = decimal_value ds n"
proof -
  have "decimal_value ds n = of_nat (read_nat ds') * (10 ^ z * 10 powi (n - int (length ds') - int z))"
    using assms by (simp add: decimal_value_def read_nat_append algebra_simps)
  also have "10 ^ z * (10::rat) powi (n - int (length ds') - int z) = 10 powi (n - int (length ds'))"
    using power_int_add [of "10::rat" "int z" "n - int (length ds') - int z"] by (simp add: powi_of_nat)
  finally show ?thesis by (simp add: decimal_value_def)
qed

lemma py_repr_numeral:
  assumes "fl x = x"
  obtains ip fp ep where "py_repr x = numeral_text (x < 0) ip fp ep" "numeral_ok ip fp ep"
    "signed (x < 0) (fl (numeral_value ip fp ep)) = x"
proof (cases "x = 0")
  case True
  then show thesis
    using that [of "''0''" "Some ''0''" None]
    by (simp add: py_repr_def numeral_text_def numeral_ok_def numeral_value_def is_digit_def signed_def)
next
  case False
  obtain m k where mk: "shortest_decimal \<bar>x\<bar> = (m, k)" by (metis surj_pair)
  have abs: "fl \<bar>x\<bar> = \<bar>x\<bar>" "0 < \<bar>x\<bar>" using assms False by (auto simp: abs_if fl_minus)
  note m = shortest_decimal_value [OF abs mk]
  let ?ds = "show_pos m" and ?n = "int (length (show_pos m)) + k"
  obtain z where z: "?ds = strip_zeros ?ds @ replicate z (CHR ''0'')" by (rule strip_zeros_split)
  have "strip_zeros ?ds \<noteq> []"
  proof
    assume "strip_zeros ?ds = []"
    with z have "?ds = replicate z (CHR ''0'')" by simp
    with show_pos_hd [OF m(2)] show_pos_nonempty [of m] show False by (metis hd_replicate replicate_0)
  qed
  moreover have "list_all is_digit (strip_zeros ?ds)"
    using show_pos_digits [of m] z by (metis list_all_append)
  moreover have "hd (strip_zeros ?ds) \<noteq> CHR ''0''"
    using show_pos_hd [OF m(2)] calculation(1) z by (metis hd_append2)
  ultimately obtain ip fp ep where num: "format_decimal (strip_zeros ?ds) ?n = numeral_text False ip fp ep"
    "numeral_ok ip fp ep" "numeral_value ip fp ep = decimal_value (strip_zeros ?ds) ?n"
    by (metis format_decimal_numeral)
  have "numeral_value ip fp ep = of_int m * 10 powi k"
    using num(3) decimal_value_strip [OF z] m(2) by (simp add: decimal_value_def read_show_pos)
  with m(1) have "signed (x < 0) (fl (numeral_value ip fp ep)) = x" by (simp add: signed_def)
  moreover have "py_repr x = numeral_text (x < 0) ip fp ep"
    using False num(1) by (simp add: py_repr_def mk Let_def numeral_text_def)
  ultimately show thesis using that num(2) by blast
qed

text \<open>Every finite float survives printing and reading.\<close>

lemma float_of_repr: "fl x = x \<Longrightarrow> float_of_string (py_repr x) = Some x"
  by (metis py_repr_numeral float_of_numeral)

end
