(* ===== verification/Json.thy ===== *)
theory Json
  imports Repr_Laws
begin

text \<open>
  JSON values and their text: the encoder of \<^verbatim>\<open>json.dumps\<close> and \<^verbatim>\<open>json.dump\<close> (compact, or with an
  \<^verbatim>\<open>indent\<close>), a recursive-descent reader, and the law that the reader gives back what the encoder wrote.
  The code that prints JSON (fingerprints, event streams, log lines, the prompt generator) goes through the
  encoder; the code that reads it (\<^verbatim>\<open>json.loads\<close> of an upload) sees it through the interface
  \<^verbatim>\<open>json_reader\<close>, of which the reader below is an interpretation.
\<close>

subsection \<open>Values\<close>

datatype json =
    JNull
  | JBool bool
  | JNum pynum
  | JStr string
  | JList "json list"
  | JObj "(string, json) dict"

text \<open>What \<^verbatim>\<open>json.loads\<close> raises: a \<^verbatim>\<open>JSONDecodeError\<close> with its message, or something else.\<close>

datatype json_failure = JSONDecodeError string | OtherFailure string

text \<open>Dictionaries have distinct keys, at every level, and floats are binary64 numbers.\<close>

primrec json_wf :: "json \<Rightarrow> bool" where
  "json_wf JNull \<longleftrightarrow> True"
| "json_wf (JBool b) \<longleftrightarrow> True"
| "json_wf (JNum n) \<longleftrightarrow> (case n of PyInt _ \<Rightarrow> True | PyFlt x \<Rightarrow> fl x = x)"
| "json_wf (JStr s) \<longleftrightarrow> True"
| "json_wf (JList xs) \<longleftrightarrow> list_all id (map json_wf xs)"
| "json_wf (JObj d) \<longleftrightarrow> dict_ok d \<and> list_all (\<lambda>p. snd p) (map (map_prod id json_wf) d)"

lemma json_wf_list [simp]: "json_wf (JList xs) \<longleftrightarrow> (\<forall>x \<in> set xs. json_wf x)"
  by (simp add: list_all_iff)

lemma json_wf_obj [simp]: "json_wf (JObj d) \<longleftrightarrow> dict_ok d \<and> (\<forall>p \<in> set d. json_wf (snd p))"
  by (simp add: list_all_iff)

declare json_wf.simps(5,6) [simp del]

subsection \<open>Characters and strings\<close>

definition hex_digit :: "nat \<Rightarrow> char" where
  "hex_digit d = (if d < 10 then char_of (48 + d) else char_of (87 + d))"

definition json_escape_char :: "char \<Rightarrow> string" where
  "json_escape_char c =
     (let n = of_char c :: nat in
      if n = 34 then [CHR 92, CHR 34]
      else if n = 92 then [CHR 92, CHR 92]
      else if n = 10 then [CHR 92, CHR ''n'']
      else if n = 13 then [CHR 92, CHR ''r'']
      else if n = 9 then [CHR 92, CHR ''t'']
      else if n = 12 then [CHR 92, CHR ''f'']
      else if n = 8 then [CHR 92, CHR ''b'']
      else if 32 \<le> n \<and> n \<le> 126 then [c]
      else [CHR 92, CHR ''u'', CHR ''0'', CHR ''0'', hex_digit (n div 16), hex_digit (n mod 16)])"

definition json_string :: "string \<Rightarrow> string" where
  "json_string s = [CHR 34] @ concat (map json_escape_char s) @ [CHR 34]"

text \<open>Reading one, possibly escaped, character of a string literal.\<close>

definition hex_value :: "char \<Rightarrow> nat option" where
  "hex_value h =
     (let n = of_char h in
      if 48 \<le> n \<and> n \<le> 57 then Some (n - 48)
      else if 97 \<le> n \<and> n \<le> 102 then Some (n - 87)
      else if 65 \<le> n \<and> n \<le> 70 then Some (n - 55)
      else None)"

lemma hex_value_digit: "d < 16 \<Longrightarrow> hex_value (hex_digit d) = Some d"
  by (auto simp: hex_value_def hex_digit_def Let_def)

definition simple_escape :: "char \<Rightarrow> char option" where
  "simple_escape x =
     map_of [(CHR ''n'', CHR 10), (CHR ''r'', CHR 13), (CHR ''t'', CHR 9), (CHR ''f'', CHR 12), (CHR ''b'', CHR 8),
       (CHR 34, CHR 34), (CHR 92, CHR 92), (CHR ''/'', CHR ''/'')] x"

text \<open>The four digits of a \<^verbatim>\<open>\u\<close> escape; codes above 255 have no 8-bit character.\<close>

definition hex_escape :: "string \<Rightarrow> (char \<times> string) option" where
  "hex_escape ys =
     (case ys of
        z1 # z2 # h # l # zs \<Rightarrow>
          (if z1 = CHR ''0'' \<and> z2 = CHR ''0''
           then (case (hex_value h, hex_value l) of (Some a, Some b) \<Rightarrow> Some (char_of (16 * a + b), zs) | _ \<Rightarrow> None)
           else None)
      | _ \<Rightarrow> None)"

fun unescape :: "string \<Rightarrow> (char \<times> string) option" where
  "unescape (c # x # ys) =
     (if c = CHR 92
      then
        (if x = CHR ''u'' then hex_escape ys else map_option (\<lambda>e. (e, ys)) (simple_escape x))
      else Some (c, x # ys))"
| "unescape [c] = (if c = CHR 92 then None else Some (c, []))"
| "unescape [] = None"

lemma of_char_less_256: "(of_char c :: nat) < 256"
  using of_char_mod_256 [of c] by (metis mod_less_divisor zero_less_numeral)

lemma char_of_code: "of_char c = (n :: nat) \<Longrightarrow> c = char_of n"
  by (metis char_of_char)

lemma control_chars:
  "char_of (34 :: nat) = CHR 34" "char_of (92 :: nat) = CHR 92" "char_of (10 :: nat) = CHR 10"
  "char_of (13 :: nat) = CHR 13" "char_of (9 :: nat) = CHR 9" "char_of (12 :: nat) = CHR 12"
  "char_of (8 :: nat) = CHR 8"
  by code_simp+

lemma unescape_plain: "c \<noteq> CHR 92 \<Longrightarrow> unescape (c # rest) = Some (c, rest)"
  by (cases rest) auto

lemma unescape_escape: "unescape (json_escape_char c @ rest) = Some (c, rest)"
proof -
  let ?n = "of_char c :: nat"
  consider (short) "?n \<in> {34, 92, 10, 13, 9, 12, 8}"
    | (plain) "?n \<notin> {34, 92, 10, 13, 9, 12, 8}" "32 \<le> ?n" "?n \<le> 126"
    | (hex) "?n \<notin> {34, 92, 10, 13, 9, 12, 8}" "\<not> (32 \<le> ?n \<and> ?n \<le> 126)"
    by blast
  then show ?thesis
  proof cases
    case short
    then show ?thesis
      by (auto dest!: char_of_code simp: json_escape_char_def simple_escape_def control_chars)
  next
    case plain
    then have "c \<noteq> CHR 92" by auto
    moreover have "json_escape_char c = [c]" using plain by (simp add: json_escape_char_def Let_def)
    ultimately show ?thesis by (simp add: unescape_plain)
  next
    case hex
    have "json_escape_char c =
        [CHR 92, CHR ''u'', CHR ''0'', CHR ''0'', hex_digit (?n div 16), hex_digit (?n mod 16)]"
      using hex unfolding json_escape_char_def Let_def by auto
    moreover have "?n div 16 < 16" using of_char_less_256 [of c] by (simp add: less_mult_imp_div_less)
    ultimately show ?thesis by (simp add: hex_value_digit hex_escape_def)
  qed
qed

lemma escape_inj: "json_escape_char c @ xs = json_escape_char d @ ys \<Longrightarrow> c = d \<and> xs = ys"
  by (metis unescape_escape option.inject prod.inject)

lemma escape_not_quote: "json_escape_char c @ xs \<noteq> CHR 34 # ys"
proof
  assume eq: "json_escape_char c @ xs = CHR 34 # ys"
  then have "unescape (CHR 34 # ys) = Some (c, xs)" by (metis unescape_escape)
  then have "c = CHR 34" by (simp add: unescape_plain)
  with eq show False by (simp add: json_escape_char_def)
qed

subsection \<open>The encoder\<close>

text \<open>
  With \<^verbatim>\<open>indent=None\<close> items are separated by a comma and a blank; with an indent of \<open>k\<close> every item of a
  non-empty container goes on a line of its own, indented by \<open>k\<close> blanks for each level.
\<close>

definition line_break :: "nat option \<Rightarrow> nat \<Rightarrow> string" where
  "line_break indent lvl = (case indent of None \<Rightarrow> [] | Some k \<Rightarrow> CHR 10 # replicate (k * lvl) (CHR '' ''))"

definition item_separator :: "nat option \<Rightarrow> nat \<Rightarrow> string" where
  "item_separator indent lvl = (case indent of None \<Rightarrow> '', '' | Some k \<Rightarrow> '','' @ line_break indent lvl)"

definition bracketed :: "nat option \<Rightarrow> nat \<Rightarrow> char \<Rightarrow> char \<Rightarrow> string list \<Rightarrow> string" where
  "bracketed indent lvl op cl items =
     (if items = [] then [op, cl]
      else
        op # line_break indent (lvl + 1) @ join_with (item_separator indent (lvl + 1)) items @
        line_break indent lvl @ [cl])"

definition json_field :: "string \<Rightarrow> string \<Rightarrow> string" where
  "json_field k v = json_string k @ '': '' @ v"

primrec iterencode :: "json \<Rightarrow> nat option \<Rightarrow> nat \<Rightarrow> string" where
  "iterencode JNull indent lvl = ''null''"
| "iterencode (JBool b) indent lvl = (if b then ''true'' else ''false'')"
| "iterencode (JNum n) indent lvl = py_str n"
| "iterencode (JStr s) indent lvl = json_string s"
| "iterencode (JList xs) indent lvl =
     bracketed indent lvl (CHR ''['') (CHR '']'') (map (\<lambda>x. iterencode x indent (lvl + 1)) xs)"
| "iterencode (JObj d) indent lvl =
     bracketed indent lvl (CHR ''{'') (CHR ''}'')
       (map (\<lambda>p. json_field (fst p) (snd p)) (map (map_prod id (\<lambda>v. iterencode v indent (lvl + 1))) d))"

definition json_dumps :: "json \<Rightarrow> string" where
  "json_dumps v = iterencode v None 0"

definition json_dump_indent :: "nat \<Rightarrow> json \<Rightarrow> string" where
  "json_dump_indent k v = iterencode v (Some k) 0"

text \<open>An object whose values are already encoded.\<close>

definition json_object :: "(string \<times> string) list \<Rightarrow> string" where
  "json_object fs = ''{'' @ join_with '', '' (map (\<lambda>(k, v). json_field k v) fs) @ ''}''"

lemma iterencode_obj:
  "iterencode (JObj d) indent lvl =
     bracketed indent lvl (CHR ''{'') (CHR ''}'') (map (\<lambda>(k, v). json_field k (iterencode v indent (lvl + 1))) d)"
  by (simp add: comp_def case_prod_beta')

declare iterencode.simps(6) [simp del]

subsection \<open>The reader\<close>

definition json_space :: "char \<Rightarrow> bool" where
  "json_space c \<longleftrightarrow> c \<in> {CHR '' '', CHR 9, CHR 10, CHR 13}"

definition skip_space :: "string \<Rightarrow> string" where
  "skip_space s = dropWhile json_space s"

text \<open>The rest behind the given character, after white space.\<close>

definition expect :: "char \<Rightarrow> string \<Rightarrow> string option" where
  "expect c s = (case skip_space s of [] \<Rightarrow> None | d # r \<Rightarrow> if d = c then Some r else None)"

lemma skip_space_length: "length (skip_space s) \<le> length s"
  by (simp add: skip_space_def length_dropWhile_le)

lemma expect_length: "expect c s = Some r \<Longrightarrow> length r < length s"
  using skip_space_length [of s] by (auto simp: expect_def split: list.splits if_splits)

lemma hex_escape_length: "hex_escape ys = Some (c, zs) \<Longrightarrow> length zs < length ys"
  by (auto simp: hex_escape_def split: list.splits if_splits option.splits)

lemma unescape_length: "unescape s = Some (c, r) \<Longrightarrow> length r < length s"
  by (induction s rule: unescape.induct) (auto split: if_splits dest: hex_escape_length)

text \<open>A string literal behind its opening quote. Control characters must be escaped.\<close>

function read_text :: "string \<Rightarrow> (string \<times> string) option" where
  "read_text [] = None"
| "read_text (c # cs) =
     (if c = CHR 34 then Some ([], cs)
      else if (of_char c :: nat) < 32 then None
      else
        (case unescape (c # cs) of
           None \<Rightarrow> None
         | Some (x, r) \<Rightarrow> map_option (apfst (\<lambda>t. x # t)) (read_text r)))"
  by pat_completeness auto
termination by (relation "measure length") (auto dest: unescape_length)

lemma read_text_length: "read_text s = Some (t, r) \<Longrightarrow> length r < length s"
  by (induction s arbitrary: t rule: read_text.induct)
    (fastforce split: if_splits option.splits dest: unescape_length)+

definition number_int :: "string \<Rightarrow> string" where
  "number_int s = (case s of [] \<Rightarrow> [] | c # _ \<Rightarrow> if c = CHR ''0'' then ''0'' else takeWhile is_digit s)"

definition number_frac :: "string \<Rightarrow> string" where
  "number_frac s =
     (case s of
        [] \<Rightarrow> []
      | c # t \<Rightarrow> let ds = takeWhile is_digit t in if c = CHR ''.'' \<and> ds \<noteq> [] then c # ds else [])"

definition number_exp :: "string \<Rightarrow> string" where
  "number_exp s =
     (case s of
        [] \<Rightarrow> []
      | c # t \<Rightarrow>
          let sg = takeWhile (\<lambda>d. d = CHR ''+'' \<or> d = CHR ''-'') (take 1 t);
              ds = takeWhile is_digit (drop (length sg) t) in
          if c \<in> {CHR ''e'', CHR ''E''} \<and> ds \<noteq> [] then c # sg @ ds else [])"

text \<open>A number is an integer when it has neither a fraction nor an exponent.\<close>

definition read_number :: "string \<Rightarrow> (pynum \<times> string) option" where
  "read_number s =
     (let sg = takeWhile (\<lambda>d. d = CHR ''-'') (take 1 s);
          s1 = drop (length sg) s; ip = number_int s1;
          s2 = drop (length ip) s1; fp = number_frac s2;
          s3 = drop (length fp) s2; ep = number_exp s3;
          rest = drop (length ep) s3 in
      if ip = [] then None
      else if fp = [] \<and> ep = [] then Some (PyInt (signed (sg \<noteq> []) (int (read_nat ip))), rest)
      else map_option (\<lambda>x. (PyFlt x, rest)) (float_of_string (sg @ ip @ fp @ ep)))"

text \<open>Later bindings of a key replace earlier ones.\<close>

definition dict_of :: "(string \<times> json) list \<Rightarrow> (string, json) dict" where
  "dict_of kvs = foldl (\<lambda>d (k, v). dict_set k v d) [] kvs"

text \<open>
  Values, the items of a list behind its bracket, the members of an object behind its brace. Each part
  consumes text; the comparisons of lengths say so where the recursion needs it.
\<close>

function read_value :: "string \<Rightarrow> (json \<times> string) option"
  and read_items :: "string \<Rightarrow> (json list \<times> string) option"
  and read_members :: "string \<Rightarrow> ((string \<times> json) list \<times> string) option" where
  "read_value s =
     (case skip_space s of
        [] \<Rightarrow> None
      | c # cs \<Rightarrow>
          if c = CHR 34 then map_option (apfst JStr) (read_text cs)
          else if c = CHR ''['' then
            (case expect (CHR '']'') cs of
               Some r \<Rightarrow> Some (JList [], r)
             | None \<Rightarrow> map_option (apfst JList) (read_items cs))
          else if c = CHR ''{'' then
            (case expect (CHR ''}'') cs of
               Some r \<Rightarrow> Some (JObj [], r)
             | None \<Rightarrow> map_option (apfst (\<lambda>kvs. JObj (dict_of kvs))) (read_members cs))
          else if take 4 (c # cs) = ''null'' then Some (JNull, drop 4 (c # cs))
          else if take 4 (c # cs) = ''true'' then Some (JBool True, drop 4 (c # cs))
          else if take 5 (c # cs) = ''false'' then Some (JBool False, drop 5 (c # cs))
          else map_option (apfst JNum) (read_number (c # cs)))"
| "read_items s =
     (case read_value s of
        None \<Rightarrow> None
      | Some (v, r) \<Rightarrow>
          if length r < length s
          then
            (case expect (CHR '','') r of
               Some r1 \<Rightarrow> map_option (apfst (\<lambda>vs. v # vs)) (read_items r1)
             | None \<Rightarrow> map_option (\<lambda>r1. ([v], r1)) (expect (CHR '']'') r))
          else None)"
| "read_members s =
     (case expect (CHR 34) s of
        None \<Rightarrow> None
      | Some s1 \<Rightarrow>
          (case read_text s1 of
             None \<Rightarrow> None
           | Some (k, s2) \<Rightarrow>
               (case expect (CHR '':'') s2 of
                  None \<Rightarrow> None
                | Some s3 \<Rightarrow>
                    (case read_value s3 of
                       None \<Rightarrow> None
                     | Some (v, r) \<Rightarrow>
                         if length r < length s
                         then
                           (case expect (CHR '','') r of
                              Some r1 \<Rightarrow> map_option (apfst (\<lambda>kvs. (k, v) # kvs)) (read_members r1)
                            | None \<Rightarrow> map_option (\<lambda>r1. ([(k, v)], r1)) (expect (CHR ''}'') r))
                         else None))))"
  by pat_completeness auto
termination
proof (relation "measure (case_sum (\<lambda>s. 2 * length s) (case_sum (\<lambda>s. 2 * length s + 1) (\<lambda>s. 2 * length s + 1)))")
  fix s :: string and c cs
  assume "skip_space s = c # cs"
  then have "length cs < length s" using skip_space_length [of s] by simp
  then show "(Inr (Inl cs), Inl s) \<in> measure (case_sum (\<lambda>s. 2 * length s) (case_sum (\<lambda>s. 2 * length s + 1) (\<lambda>s. 2 * length s + 1)))"
    and "(Inr (Inr cs), Inl s) \<in> measure (case_sum (\<lambda>s. 2 * length s) (case_sum (\<lambda>s. 2 * length s + 1) (\<lambda>s. 2 * length s + 1)))"
    by simp_all
qed (auto dest!: expect_length read_text_length)

declare read_value.simps [simp del] read_items.simps [simp del] read_members.simps [simp del]

definition json_read :: "string \<Rightarrow> json_failure + json" where
  "json_read s =
     (case read_value s of
        None \<Rightarrow> Inl (JSONDecodeError ''Expecting value'')
      | Some (v, r) \<Rightarrow> if skip_space r = [] then Inr v else Inl (JSONDecodeError ''Extra data''))"

subsection \<open>White space and separators\<close>

lemma skip_space_blank: "list_all json_space b \<Longrightarrow> skip_space (b @ s) = skip_space s"
  by (simp add: skip_space_def dropWhile_append3 list_all_iff dropWhile_append)

lemma read_value_blank: "list_all json_space b \<Longrightarrow> read_value (b @ s) = read_value s"
  by (simp add: read_value.simps [of "b @ s"] read_value.simps [of s] skip_space_blank)

lemma expect_blank: "list_all json_space b \<Longrightarrow> expect c (b @ s) = expect c s"
  by (simp add: expect_def skip_space_blank)

lemma punctuation_no_space [simp]:
  "\<not> json_space (CHR '','')" "\<not> json_space (CHR '':'')" "\<not> json_space (CHR 34)"
  "\<not> json_space (CHR ''['')" "\<not> json_space (CHR '']'')" "\<not> json_space (CHR ''{'')" "\<not> json_space (CHR ''}'')"
  by (simp_all add: json_space_def)

lemma expect_hd: "\<not> json_space d \<Longrightarrow> expect c (d # s) = (if d = c then Some s else None)"
  by (simp add: expect_def skip_space_def)

lemma line_break_blank [simp]: "list_all json_space (line_break indent lvl)"
  by (cases indent) (auto simp: line_break_def list_all_iff json_space_def)

lemma item_separator_split:
  obtains b where "item_separator indent lvl = CHR '','' # b" "list_all json_space b"
proof (cases indent)
  case None
  then show thesis by (intro that [of "'' ''"]) (simp_all add: item_separator_def json_space_def)
next
  case (Some k)
  then show thesis
    by (intro that [of "line_break indent lvl"]) (simp_all add: item_separator_def)
qed

subsection \<open>Reading back what the encoder writes\<close>

lemma hex_digit_printable: "d < 16 \<Longrightarrow> 32 \<le> (of_char (hex_digit d) :: nat) \<and> (of_char (hex_digit d) :: nat) \<le> 126"
  by (simp add: hex_digit_def)

text \<open>Whatever the character, its escape is printable ASCII.\<close>

lemma json_escape_printable:
  assumes "x \<in> set (json_escape_char c)"
  shows "32 \<le> (of_char x :: nat) \<and> (of_char x :: nat) \<le> 126"
proof -
  have "(of_char c :: nat) div 16 < 16" using of_char_less_256 [of c] by (simp add: less_mult_imp_div_less)
  with assms show ?thesis
    by (auto simp: json_escape_char_def Let_def hex_digit_printable split: if_splits)
qed

lemma json_escape_nonempty [simp]: "json_escape_char c \<noteq> []"
  by (simp add: json_escape_char_def Let_def)

lemma read_text_body: "read_text (concat (map json_escape_char t) @ CHR 34 # rest) = Some (t, rest)"
proof (induction t)
  case (Cons c t)
  let ?s = "json_escape_char c @ concat (map json_escape_char t) @ CHR 34 # rest"
  obtain d es where esc: "json_escape_char c = d # es" by (cases "json_escape_char c") auto
  define ds where "ds = es @ concat (map json_escape_char t) @ CHR 34 # rest"
  have s: "?s = d # ds" "d \<noteq> CHR 34" "32 \<le> (of_char d :: nat)"
    using esc json_escape_printable [of d c] escape_not_quote [of c "[]" es] by (auto simp: ds_def)
  have "unescape (d # ds) = Some (c, concat (map json_escape_char t) @ CHR 34 # rest)"
    using unescape_escape [of c "concat (map json_escape_char t) @ CHR 34 # rest"] s(1) by metis
  with Cons s show ?case by (simp add: not_less)
qed simp

text \<open>What may follow a number without being read as a part of it.\<close>

definition number_end :: "string \<Rightarrow> bool" where
  "number_end rest \<longleftrightarrow> rest = [] \<or> \<not> is_digit (hd rest) \<and> hd rest \<notin> {CHR ''.'', CHR ''e'', CHR ''E''}"

lemma show_nat_nonempty [simp]: "show_nat n \<noteq> []"
  using show_nat_digits by blast

lemma show_nat_hd: "hd (show_nat n) = CHR ''0'' \<Longrightarrow> n = 0"
proof (induction n rule: show_nat.induct)
  case (1 n)
  show ?case
  proof (cases "n < 10")
    case True
    then have "digit_value (digit_char n) = 0"
      using 1 by (simp add: show_nat.simps [of n] digit_value_def)
    with True show ?thesis by simp
  next
    case False
    with 1 have "n div 10 = 0" by (simp add: show_nat.simps [of n])
    with False show ?thesis by (simp add: div_eq_0_iff)
  qed
qed

lemma number_parts_end: "number_end rest \<Longrightarrow> number_frac rest = []" "number_end rest \<Longrightarrow> number_exp rest = []"
  by (auto simp: number_end_def number_frac_def number_exp_def Let_def split: list.split)

lemma takeWhile_digits: "number_end rest \<Longrightarrow> list_all is_digit ds \<Longrightarrow> takeWhile is_digit (ds @ rest) = ds"
  by (cases rest) (auto simp: number_end_def list_all_iff)

lemma number_int_show: "number_end rest \<Longrightarrow> number_int (show_nat n @ rest) = show_nat n"
proof (cases "n = 0")
  case True
  moreover have "char_of (48 :: nat) = CHR ''0''" by code_simp
  ultimately show ?thesis by (simp add: number_int_def show_nat.simps [of 0] digit_char_def)
next
  case False
  assume stop: "number_end rest"
  obtain d ds where s: "show_nat n = d # ds" by (cases "show_nat n") auto
  with False show_nat_hd [of n] have "d \<noteq> CHR ''0''" by auto
  with s stop takeWhile_digits [OF stop conjunct2 [OF show_nat_digits, of n]] show ?thesis by (simp add: number_int_def)
qed

lemma read_number_show: "number_end rest \<Longrightarrow> read_number (show_int i @ rest) = Some (PyInt i, rest)"
proof (cases "i < 0")
  case True
  assume "number_end rest"
  with True show ?thesis
    by (simp add: read_number_def show_int_def number_int_show number_parts_end Let_def signed_def read_show_nat)
next
  case False
  assume stop: "number_end rest"
  obtain d ds where s: "show_nat (nat i) = d # ds" by (cases "show_nat (nat i)") auto
  with show_nat_digits [of "nat i"] have "d \<noteq> CHR ''-''" by (auto simp: is_digit_def)
  then have "takeWhile (\<lambda>d. d = CHR ''-'') (take 1 (show_nat (nat i) @ rest)) = []" using s by simp
  with False stop show ?thesis
    by (simp add: read_number_def show_int_def number_int_show number_parts_end Let_def signed_def read_show_nat)
qed

lemma takeWhile_stop: "list_all p ds \<Longrightarrow> s = [] \<or> \<not> p (hd s) \<Longrightarrow> takeWhile p (ds @ s) = ds"
  by (cases s) (auto simp: list_all_iff)

lemma number_int_digits:
  assumes "list_all is_digit ip" "ip \<noteq> []" "hd ip = CHR ''0'' \<longrightarrow> ip = ''0''" "s = [] \<or> \<not> is_digit (hd s)"
  shows "number_int (ip @ s) = ip"
proof -
  obtain d t where "ip = d # t" using assms(2) by (cases ip) auto
  with assms takeWhile_stop [OF assms(1,4)] show ?thesis by (simp add: number_int_def)
qed

lemma number_frac_digits:
  assumes "list_all is_digit f" "f \<noteq> []" "s = [] \<or> \<not> is_digit (hd s)"
  shows "number_frac (CHR ''.'' # f @ s) = CHR ''.'' # f"
  using assms takeWhile_stop [OF assms(1,3)] by (simp add: number_frac_def)

lemma number_exp_digits:
  assumes "list_all is_digit e" "s = [] \<or> \<not> is_digit (hd s)" "e \<noteq> []"
  shows "number_exp (CHR ''e'' # CHR ''-'' # e @ s) = CHR ''e'' # CHR ''-'' # e"
    and "number_exp (CHR ''e'' # CHR ''+'' # e @ s) = CHR ''e'' # CHR ''+'' # e"
  using assms takeWhile_stop [OF assms(1,2)] by (simp_all add: number_exp_def)

lemma number_sign:
  assumes "list_all is_digit ip" "ip \<noteq> []"
  shows "takeWhile (\<lambda>d. d = CHR ''-'') (take 1 ((if neg then ''-'' else []) @ ip @ s)) = (if neg then ''-'' else [])"
  using assms by (cases ip) (auto simp: is_digit_def)

lemma read_number_numeral:
  assumes ok: "numeral_ok ip fp ep" and stop: "number_end rest"
  shows "read_number (numeral_text neg ip fp ep @ rest) =
    map_option (\<lambda>x. (PyFlt x, rest)) (float_of_string (numeral_text neg ip fp ep))"
proof -
  define fs where "fs = (case fp of None \<Rightarrow> [] | Some f \<Rightarrow> CHR ''.'' # f)"
  define es where "es = (case ep of None \<Rightarrow> [] | Some (eneg, e) \<Rightarrow> CHR ''e'' # (if eneg then CHR ''-'' else CHR ''+'') # e)"
  have num: "numeral_text neg ip fp ep = (if neg then ''-'' else []) @ ip @ fs @ es"
    by (simp add: numeral_text_def fs_def es_def)
  have ip: "list_all is_digit ip" "ip \<noteq> []" "hd ip = CHR ''0'' \<longrightarrow> ip = ''0''"
    using ok by (simp_all add: numeral_ok_def)
  have rest: "rest = [] \<or> \<not> is_digit (hd rest)" using stop by (auto simp: number_end_def)
  have es: "es @ rest = [] \<or> \<not> is_digit (hd (es @ rest))"
    using rest by (auto simp: es_def is_digit_def split: option.splits)
  have fes: "fs @ es @ rest = [] \<or> \<not> is_digit (hd (fs @ es @ rest))"
    using es by (auto simp: fs_def is_digit_def split: option.splits)
  have "number_frac (fs @ es @ rest) = fs"
    using ok number_frac_digits [OF _ _ es] number_parts_end(1) [OF stop]
    by (auto simp: fs_def es_def numeral_ok_def number_frac_def split: option.splits)
  moreover have "number_exp (es @ rest) = es"
    using ok number_exp_digits [OF _ rest] number_parts_end(2) [OF stop]
    by (auto simp: es_def numeral_ok_def split: option.splits)
  moreover have "fs \<noteq> [] \<or> es \<noteq> []" using ok by (auto simp: fs_def es_def numeral_ok_def split: option.splits)
  ultimately show ?thesis
    using ip number_int_digits [OF ip fes] number_sign [OF ip(1,2), of neg "fs @ es @ rest"]
    by (auto simp: read_number_def num Let_def)
qed

lemma read_number_str:
  assumes "json_wf (JNum n)" "number_end rest"
  shows "read_number (py_str n @ rest) = Some (n, rest)"
proof (cases n)
  case (PyInt i)
  with assms show ?thesis by (simp add: read_number_show)
next
  case (PyFlt x)
  with assms(1) obtain ip fp ep where "py_repr x = numeral_text (x < 0) ip fp ep" "numeral_ok ip fp ep"
    by (auto elim: py_repr_numeral)
  with PyFlt assms float_of_repr [of x] show ?thesis by (simp add: read_number_numeral)
qed

lemma number_end_ends [simp]:
  "number_end []" "number_end (CHR '']'' # s)" "number_end (CHR ''}'' # s)" "number_end (CHR '','' # s)"
  by (simp_all add: number_end_def is_digit_def)

lemma number_end_close:
  assumes "c = CHR '']'' \<or> c = CHR ''}''"
  shows "number_end (line_break indent lvl @ c # s)"
  using assms by (auto simp: line_break_def number_end_def is_digit_def split: option.split)

lemma number_end_separator: "number_end (item_separator indent lvl @ s)"
  by (auto intro: item_separator_split [of indent lvl])

text \<open>The first character of an encoded value is neither white space nor a closing bracket.\<close>

definition value_start :: "string \<Rightarrow> bool" where
  "value_start s \<longleftrightarrow> s \<noteq> [] \<and> \<not> json_space (hd s) \<and> hd s \<notin> {CHR '']'', CHR ''}''}"

lemma value_start_expect: "value_start s \<Longrightarrow> c = CHR '']'' \<or> c = CHR ''}'' \<Longrightarrow> expect c (s @ rest) = None"
  by (cases s) (auto simp: value_start_def expect_hd)

lemma value_start_append: "value_start s \<Longrightarrow> value_start (s @ rest)"
  by (simp add: value_start_def)

lemma value_start_skip: "value_start s \<Longrightarrow> skip_space s = s"
  by (cases s) (simp_all add: value_start_def skip_space_def)

lemma py_str_start:
  assumes "json_wf (JNum n)"
  shows "py_str n \<noteq> []" "hd (py_str n) = CHR ''-'' \<or> is_digit (hd (py_str n))"
proof -
  have "py_str n \<noteq> [] \<and> (hd (py_str n) = CHR ''-'' \<or> is_digit (hd (py_str n)))"
  proof (cases n)
    case (PyInt i)
    then show ?thesis
      using show_nat_digits [of "nat i"] by (cases "show_nat (nat i)") (auto simp: show_int_def)
  next
    case (PyFlt x)
    with assms obtain ip fp ep where "py_repr x = numeral_text (x < 0) ip fp ep" "numeral_ok ip fp ep"
      by (auto elim: py_repr_numeral)
    with PyFlt show ?thesis by (cases ip) (auto simp: numeral_text_def numeral_ok_def)
  qed
  then show "py_str n \<noteq> []" "hd (py_str n) = CHR ''-'' \<or> is_digit (hd (py_str n))" by blast+
qed

lemma iterencode_start: "json_wf v \<Longrightarrow> value_start (iterencode v indent lvl)"
proof (cases v)
  case (JNum n)
  assume "json_wf v"
  with JNum py_str_start [of n] show ?thesis by (auto simp: value_start_def json_space_def is_digit_def)
qed (simp_all add: value_start_def json_space_def json_string_def bracketed_def iterencode_obj)

lemma json_field_start: "value_start (json_field k v)"
  by (simp add: json_field_def json_string_def value_start_def)

lemma join_with_start: "value_start x \<Longrightarrow> value_start (join_with sep (x # xs))"
  by (simp add: join_with_def value_start_append)

text \<open>Items and members, for any encoder of values that the reader inverts.\<close>

lemma read_items_join:
  assumes "xs \<noteq> []" "list_all json_space b"
    and "\<And>x rest. x \<in> set xs \<Longrightarrow> number_end rest \<Longrightarrow> read_value (enc x @ rest) = Some (x, rest)"
    and "\<And>x. x \<in> set xs \<Longrightarrow> enc x \<noteq> []"
  shows "read_items (b @ join_with (item_separator indent lvl) (map enc xs) @ line_break indent k @ CHR '']'' # rest) =
    Some (xs, rest)"
  using assms
proof (induction xs arbitrary: b)
  case (Cons x xs)
  let ?tail = "line_break indent k @ CHR '']'' # rest"
  show ?case
  proof (cases xs)
    case Nil
    have "expect (CHR '','') ?tail = None" "expect (CHR '']'') ?tail = Some rest"
      by (simp_all add: expect_blank expect_hd)
    with Nil Cons.prems show ?thesis
      by (simp add: read_items.simps [of "b @ enc x @ ?tail"] read_value_blank number_end_close)
  next
    case (Cons y ys)
    obtain b1 where b1: "item_separator indent lvl = CHR '','' # b1" "list_all json_space b1"
      by (rule item_separator_split)
    let ?more = "b1 @ join_with (item_separator indent lvl) (map enc xs) @ ?tail"
    have "read_items ?more = Some (xs, rest)"
      using Cons Cons.prems b1(2) by (intro Cons.IH) auto
    then show ?thesis
      using Cons Cons.prems b1
      by (simp add: join_with_Cons2 read_items.simps [of "b @ enc x @ CHR '','' # _"] read_value_blank
          expect_hd)
  qed
qed simp

lemma read_members_join:
  assumes "d \<noteq> []" "list_all json_space b"
    and "\<And>p rest. p \<in> set d \<Longrightarrow> number_end rest \<Longrightarrow> read_value (enc (snd p) @ rest) = Some (snd p, rest)"
    and "\<And>p. p \<in> set d \<Longrightarrow> enc (snd p) \<noteq> []"
  shows "read_members (b @ join_with (item_separator indent lvl) (map (\<lambda>(k, v). json_field k (enc v)) d) @
      line_break indent l @ CHR ''}'' # rest) = Some (d, rest)"
  using assms
proof (induction d arbitrary: b)
  case (Cons p d)
  obtain k v where p: "p = (k, v)" by (cases p)
  let ?tail = "line_break indent l @ CHR ''}'' # rest"
  have member: "read_members (b @ json_field k (enc v) @ s) =
      (case expect (CHR '','') s of
         Some r1 \<Rightarrow> map_option (apfst (\<lambda>kvs. (k, v) # kvs)) (read_members r1)
       | None \<Rightarrow> map_option (\<lambda>r1. ([(k, v)], r1)) (expect (CHR ''}'') s))" if "number_end s" for s
  proof -
    have "read_value (CHR '' '' # enc v @ s) = Some (v, s)"
      using Cons.prems(3) [of p s] that p read_value_blank [of "'' ''" "enc v @ s"] by (simp add: json_space_def)
    then show ?thesis
      using Cons.prems(2) by (simp add: read_members.simps [of "b @ _"] json_field_def json_string_def
          expect_blank expect_hd read_text_body)
  qed
  show ?case
  proof (cases d)
    case Nil
    with p show ?thesis
      by (simp add: member number_end_close expect_blank expect_hd)
  next
    case (Cons q qs)
    obtain b1 where b1: "item_separator indent lvl = CHR '','' # b1" "list_all json_space b1"
      by (rule item_separator_split)
    let ?more = "b1 @ join_with (item_separator indent lvl) (map (\<lambda>(k, v). json_field k (enc v)) d) @ ?tail"
    have "read_members ?more = Some (d, rest)"
      using Cons Cons.prems b1(2) by (intro Cons.IH) auto
    then show ?thesis
      using Cons p b1 by (simp add: join_with_Cons2 member expect_hd)
  qed
qed simp

lemma dict_of_ok: "dict_ok kvs \<Longrightarrow> dict_of kvs = kvs"
proof -
  have "dict_ok (d @ kvs) \<Longrightarrow> foldl (\<lambda>d (k, v). dict_set k v d) d kvs = d @ kvs" for d
    by (induction kvs arbitrary: d) (auto simp: dict_set_fresh)
  from this [of "[]"] show "dict_ok kvs \<Longrightarrow> dict_of kvs = kvs" by (simp add: dict_of_def)
qed

text \<open>The reader inverts the encoder, whatever the layout and whatever follows.\<close>

lemma read_encoded:
  "json_wf v \<Longrightarrow> number_end rest \<Longrightarrow> read_value (iterencode v indent lvl @ rest) = Some (v, rest)"
proof (induction v arbitrary: lvl rest)
  case JNull
  then show ?case by (simp add: read_value.simps skip_space_def json_space_def)
next
  case (JBool b)
  then show ?case by (simp add: read_value.simps skip_space_def json_space_def)
next
  case (JNum n)
  obtain c cs where s: "py_str n @ rest = c # cs" "c = CHR ''-'' \<or> is_digit c"
    using py_str_start [OF JNum(1)] by (cases "py_str n") auto
  then have "\<not> json_space c" "c \<notin> {CHR 34, CHR ''['', CHR ''{'', CHR ''n'', CHR ''t'', CHR ''f''}"
    by (auto simp: json_space_def is_digit_def)
  with s read_number_str [OF JNum] show ?case
    by (simp add: read_value.simps skip_space_def)
next
  case (JStr t)
  then show ?case by (simp add: read_value.simps skip_space_def json_space_def json_string_def read_text_body)
next
  case (JList xs)
  show ?case
  proof (cases xs)
    case Nil
    then show ?thesis by (simp add: read_value.simps skip_space_def json_space_def bracketed_def expect_hd)
  next
    case (Cons x ys)
    let ?items = "join_with (item_separator indent (Suc lvl)) (map (\<lambda>x. iterencode x indent (Suc lvl)) xs)"
    let ?s = "line_break indent (Suc lvl) @ ?items @ line_break indent lvl @ CHR '']'' # rest"
    have start: "value_start (iterencode x indent (Suc lvl))" if "x \<in> set xs" for x
      using that JList(2) iterencode_start by auto
    have "read_items ?s = Some (xs, rest)"
      using JList Cons start by (intro read_items_join) (auto simp: value_start_def)
    moreover have "expect (CHR '']'') ?s = None"
      using start Cons by (simp add: expect_blank value_start_expect join_with_start)
    ultimately show ?thesis
      using Cons by (simp add: read_value.simps [of "CHR ''['' # _"] skip_space_def json_space_def bracketed_def)
  qed
next
  case (JObj d)
  show ?case
  proof (cases d)
    case Nil
    then show ?thesis
      by (simp add: read_value.simps skip_space_def json_space_def iterencode_obj bracketed_def expect_hd)
  next
    case (Cons p ps)
    let ?enc = "\<lambda>v. iterencode v indent (Suc lvl)"
    let ?s = "line_break indent (Suc lvl) @
      join_with (item_separator indent (Suc lvl)) (map (\<lambda>(k, v). json_field k (?enc v)) d) @
      line_break indent lvl @ CHR ''}'' # rest"
    have start: "value_start (?enc (snd p))" if "p \<in> set d" for p
      using that JObj(2) iterencode_start by auto
    have "read_members ?s = Some (d, rest)"
    proof (rule read_members_join)
      fix p rest assume "p \<in> set d" "number_end rest"
      then show "read_value (?enc (snd p) @ rest) = Some (snd p, rest)"
        using JObj(2) JObj(1) [of p "snd p"] by (simp add: snds.simps)
    qed (use Cons start in \<open>auto simp: value_start_def\<close>)
    moreover have "expect (CHR ''}'') ?s = None"
      using Cons by (cases p) (simp add: expect_blank value_start_expect join_with_start json_field_start)
    ultimately show ?thesis
      using Cons JObj(2) by (simp add: read_value.simps [of "CHR ''{'' # _"] skip_space_def json_space_def
          iterencode_obj bracketed_def dict_of_ok)
  qed
qed

lemma json_read_encoded: "json_wf v \<Longrightarrow> json_read (iterencode v indent lvl) = Inr v"
  using read_encoded [of v "[]" indent lvl] by (simp add: json_read_def skip_space_def)


subsection \<open>The interface of a reader\<close>

text \<open>
  What the callers of \<^verbatim>\<open>json.loads\<close> rely on: it reads what \<^verbatim>\<open>json.dumps\<close> and \<^verbatim>\<open>json.dump\<close> write, for values
  with distinct keys. The documentation of the module promises it for such values.
\<close>

definition json_inverse :: "(string \<Rightarrow> json_failure + json) \<Rightarrow> bool" where
  "json_inverse loads \<longleftrightarrow> (\<forall>v indent. json_wf v \<longrightarrow> loads (iterencode v indent 0) = Inr v)"

locale json_reader =
  fixes loads :: "string \<Rightarrow> json_failure + json"
  assumes loads_encoded: "json_wf v \<Longrightarrow> loads (iterencode v indent 0) = Inr v"
begin

lemma loads_dumps: "json_wf v \<Longrightarrow> loads (json_dumps v) = Inr v"
  by (simp add: json_dumps_def loads_encoded)

lemma loads_dump_indent: "json_wf v \<Longrightarrow> loads (json_dump_indent k v) = Inr v"
  by (simp add: json_dump_indent_def loads_encoded)

text \<open>Two values with the same text are the same value.\<close>

lemma dumps_inject: "json_wf v \<Longrightarrow> json_wf w \<Longrightarrow> json_dumps v = json_dumps w \<longleftrightarrow> v = w"
  by (metis loads_dumps sum.inject(2))

end

interpretation ascii: json_reader json_read
  by unfold_locales (rule json_read_encoded)

lemma json_inverse_read: "json_inverse json_read"
  by (simp add: json_inverse_def ascii.loads_encoded)

lemma json_inverse_reader: "json_inverse loads \<Longrightarrow> json_reader loads"
  by unfold_locales (simp add: json_inverse_def)

subsection \<open>The texts the program writes\<close>

lemma bracketed_None: "bracketed None lvl op cl items = op # join_with '', '' items @ [cl]"
  by (simp add: bracketed_def line_break_def item_separator_def join_with_def)

text \<open>Without an indent the level does not matter.\<close>

lemma iterencode_level: "iterencode v None lvl = json_dumps v"
proof -
  have "iterencode v None lvl = iterencode v None l" for l
  proof (induction v arbitrary: lvl l)
    case (JList xs)
    then have "map (\<lambda>x. iterencode x None (lvl + 1)) xs = map (\<lambda>x. iterencode x None (l + 1)) xs" by simp
    then show ?case by (simp only: iterencode.simps bracketed_None)
  next
    case (JObj d)
    then have "map (\<lambda>(k, v). json_field k (iterencode v None (lvl + 1))) d =
        map (\<lambda>(k, v). json_field k (iterencode v None (l + 1))) d"
      by (intro map_cong refl) (auto simp: snds.simps intro!: arg_cong [where f = "json_field _"])
    then show ?case by (simp only: iterencode_obj bracketed_None)
  qed simp_all
  then show ?thesis by (simp add: json_dumps_def)
qed

lemma dumps_list: "json_dumps (JList xs) = ''['' @ join_with '', '' (map json_dumps xs) @ '']''"
  by (simp add: json_dumps_def [of "JList xs"] bracketed_None iterencode_level [of _ "Suc 0"])

lemma dumps_obj: "json_dumps (JObj d) = json_object (map (\<lambda>(k, v). (k, json_dumps v)) d)"
  by (simp add: json_dumps_def [of "JObj d"] iterencode_obj bracketed_None json_object_def comp_def case_prod_beta'
      iterencode_level [of _ "Suc 0"])

lemma dumps_simps:
  "json_dumps JNull = ''null''" "json_dumps (JBool b) = (if b then ''true'' else ''false'')"
  "json_dumps (JNum n) = py_str n" "json_dumps (JStr s) = json_string s"
  by (simp_all add: json_dumps_def)

lemmas dumps_unfold = dumps_simps dumps_list dumps_obj

subsection \<open>One line of printable text\<close>

definition printable :: "char \<Rightarrow> bool" where
  "printable c \<longleftrightarrow> 32 \<le> (of_char c :: nat) \<and> (of_char c :: nat) \<le> 126"

lemma printable_punctuation [simp]:
  "printable (CHR '','')" "printable (CHR '' '')" "printable (CHR '':'')" "printable (CHR ''['')" "printable (CHR '']'')"
  "printable (CHR ''{'')" "printable (CHR ''}'')"
  by (simp_all add: printable_def)

lemma digits_printable: "list_all is_digit ds \<Longrightarrow> list_all printable ds"
  by (auto simp: list_all_iff is_digit_def printable_def)

lemma json_string_printable: "list_all printable (json_string s)"
  using json_escape_printable by (auto simp: json_string_def list_all_iff printable_def)

lemma py_str_printable:
  assumes "json_wf (JNum n)"
  shows "list_all printable (py_str n)"
proof (cases n)
  case (PyInt i)
  then show ?thesis using show_nat_digits by (simp add: show_int_def digits_printable printable_def)
next
  case (PyFlt x)
  with assms obtain ip fp ep where "py_repr x = numeral_text (x < 0) ip fp ep" "numeral_ok ip fp ep"
    by (auto elim: py_repr_numeral)
  with PyFlt show ?thesis
    by (auto simp: numeral_text_def numeral_ok_def digits_printable printable_def split: option.splits)
qed

lemma join_with_printable:
  "list_all printable sep \<Longrightarrow> (\<And>x. x \<in> set xs \<Longrightarrow> list_all printable x) \<Longrightarrow> list_all printable (join_with sep xs)"
  by (cases xs) (auto simp: join_with_def list_all_iff)

text \<open>The compact encoding has no newline and no other control character, whatever the strings contain.\<close>

lemma json_dumps_printable: "json_wf v \<Longrightarrow> list_all printable (json_dumps v)"
proof (induction v)
  case (JList xs)
  then show ?case by (auto simp: dumps_list intro!: join_with_printable)
next
  case (JObj d)
  have "list_all printable (json_field k (json_dumps v))" if "(k, v) \<in> set d" for k v
    using JObj that json_string_printable [of k] by (fastforce simp: json_field_def snds.simps)
  then show ?case
    by (auto simp: dumps_obj json_object_def intro!: join_with_printable)
qed (auto simp: dumps_simps json_string_printable py_str_printable printable_def)

lemma printable_no_newline: "list_all printable s \<Longrightarrow> CHR 10 \<notin> set s"
  by (auto simp: list_all_iff printable_def)

end
