(* ===== verification/Providers.thy ===== *)
theory Providers
  imports PyFloat
begin

text \<open>
  The upstream endpoints: \<^verbatim>\<open>app/mock_inference.py\<close> and \<^verbatim>\<open>app/providers.py\<close>. A call of \<^verbatim>\<open>infer\<close> takes the
  provider's state and returns an exception, or the seconds it sleeps and the text it then returns.
  The pseudo-random generator of the mock is the parameter \<open>rng\<close>, the stream of numbers
  \<^verbatim>\<open>Random.random()\<close> yields.
\<close>

subsection \<open>Exceptions\<close>

datatype exn =
    RateLimitError pyfloat
  | InferenceError string
  | OverflowError string
  | ZeroDivisionError string
  | OtherError string

text \<open>\<^verbatim>\<open>str(exc)\<close>\<close>

fun str_exn :: "exn \<Rightarrow> string" where
  "str_exn (RateLimitError retry_after) = ''429 Too Many Requests''"
| "str_exn (InferenceError msg) = msg"
| "str_exn (OverflowError msg) = msg"
| "str_exn (ZeroDivisionError msg) = msg"
| "str_exn (OtherError msg) = msg"

fun is_rate_limit :: "exn \<Rightarrow> bool" where
  "is_rate_limit (RateLimitError retry_after) = True"
| "is_rate_limit _ = False"

type_synonym 'a result = "exn + 'a"

subsection \<open>MockInferenceClient\<close>

record mock_client =
  mc_rate_limit_every :: int
  mc_min_latency_ms :: int
  mc_max_latency_ms :: int
  mc_counter :: int
  mc_draws :: nat

definition new_mock_client :: "int \<Rightarrow> int \<Rightarrow> int \<Rightarrow> mock_client" where
  "new_mock_client every mn mx =
     \<lparr>mc_rate_limit_every = every, mc_min_latency_ms = mn, mc_max_latency_ms = mx,
      mc_counter = 1, mc_draws = 0\<rparr>"

definition mock_infer ::
  "(nat \<Rightarrow> pyfloat) \<Rightarrow> string \<Rightarrow> mock_client \<Rightarrow> (pyfloat \<times> string) result \<times> mock_client" where
  "mock_infer rng prompt c =
     (let n = mc_counter c; u = rng (mc_draws c);
          c1 = c\<lparr>mc_counter := n + 1, mc_draws := mc_draws c + 1\<rparr> in
      if mc_rate_limit_every c \<noteq> 0 \<and> n mod mc_rate_limit_every c = 0
      then (Inl (RateLimitError (py_uniform (fl (5 / 100)) (fl (2 / 10)) u)), c1)
      else
        (let latency = fl (py_uniform (of_int (mc_min_latency_ms c)) (of_int (mc_max_latency_ms c)) u / 1000) in
         (Inr (latency, ''completion::'' @ prompt), c1)))"

subsection \<open>Providers\<close>

text \<open>\<^verbatim>\<open>MockProvider\<close> delegates to its client.\<close>

definition mock_provider_infer ::
  "(nat \<Rightarrow> pyfloat) \<Rightarrow> string \<Rightarrow> mock_client \<Rightarrow> (pyfloat \<times> string) result \<times> mock_client" where
  "mock_provider_infer rng prompt c = mock_infer rng prompt c"

record slow_provider =
  sp_latency :: pyfloat

definition new_slow_provider :: "int \<Rightarrow> slow_provider" where
  "new_slow_provider latency_ms = \<lparr>sp_latency = fl (of_int latency_ms / 1000)\<rparr>"

definition slow_infer :: "string \<Rightarrow> slow_provider \<Rightarrow> (pyfloat \<times> string) result \<times> slow_provider" where
  "slow_infer prompt p = (Inr (sp_latency p, ''slow-completion::'' @ prompt), p)"

record flaky_provider =
  fp_fail_times :: int
  fp_calls :: int

definition new_flaky_provider :: "int \<Rightarrow> flaky_provider" where
  "new_flaky_provider fail_times = \<lparr>fp_fail_times = fail_times, fp_calls = 0\<rparr>"

definition flaky_infer :: "string \<Rightarrow> flaky_provider \<Rightarrow> (pyfloat \<times> string) result \<times> flaky_provider" where
  "flaky_infer prompt p =
     (let p1 = p\<lparr>fp_calls := fp_calls p + 1\<rparr> in
      if fp_calls p1 \<le> fp_fail_times p1 then (Inl (RateLimitError (fl (1 / 100))), p1)
      else (Inr (0, ''completion::'' @ prompt), p1))"

subsection \<open>The 429 period of the mock\<close>

definition mock_calls :: "(nat \<Rightarrow> pyfloat) \<Rightarrow> string list \<Rightarrow> mock_client \<Rightarrow> (pyfloat \<times> string) result list \<times> mock_client" where
  "mock_calls rng prompts c =
     fold (\<lambda>p (rs, c). case mock_infer rng p c of (r, c') \<Rightarrow> (rs @ [r], c')) prompts ([], c)"

lemma mock_infer_counter [simp]:
  "mc_counter (snd (mock_infer rng p c)) = mc_counter c + 1"
  "mc_rate_limit_every (snd (mock_infer rng p c)) = mc_rate_limit_every c"
  by (simp_all add: mock_infer_def Let_def)

lemma mock_infer_throttles_iff:
  "(\<exists>ra. fst (mock_infer rng p c) = Inl (RateLimitError ra)) \<longleftrightarrow>
     mc_rate_limit_every c \<noteq> 0 \<and> mc_rate_limit_every c dvd mc_counter c"
  by (simp add: mock_infer_def Let_def dvd_eq_mod_eq_0)

lemma mock_calls_snoc:
  "mock_calls rng (ps @ [p]) c =
     (case mock_calls rng ps c of (rs, c') \<Rightarrow>
        case mock_infer rng p c' of (r, c'') \<Rightarrow> (rs @ [r], c''))"
  by (simp add: mock_calls_def)

lemma mock_calls_nth:
  assumes "mock_calls rng ps c = (rs, c')"
  shows "length rs = length ps \<and> mc_counter c' = mc_counter c + int (length ps) \<and>
    mc_rate_limit_every c' = mc_rate_limit_every c \<and>
    (\<forall>i < length ps. (\<exists>ra. rs ! i = Inl (RateLimitError ra)) \<longleftrightarrow>
       mc_rate_limit_every c \<noteq> 0 \<and> mc_rate_limit_every c dvd mc_counter c + int i)"
  using assms
proof (induction ps arbitrary: rs c' rule: rev_induct)
  case (snoc p ps)
  obtain rs0 c0 where c0: "mock_calls rng ps c = (rs0, c0)" by fastforce
  obtain r where r: "mock_infer rng p c0 = (r, c')" "rs = rs0 @ [r]"
    using snoc.prems by (auto simp: mock_calls_snoc c0 split: prod.splits)
  note IH = snoc.IH [OF c0]
  have "(\<exists>ra. r = Inl (RateLimitError ra)) \<longleftrightarrow>
      mc_rate_limit_every c \<noteq> 0 \<and> mc_rate_limit_every c dvd mc_counter c + int (length ps)"
    using mock_infer_throttles_iff [of rng p c0] r(1) IH by simp
  moreover have "mc_counter c' = mc_counter c0 + 1" "mc_rate_limit_every c' = mc_rate_limit_every c0"
    using mock_infer_counter [of rng p c0] r(1) by simp_all
  ultimately show ?case
    using IH r(2) by (auto simp: nth_append less_Suc_eq)
qed (simp add: mock_calls_def)

text \<open>
  The mock endpoint's 429s are periodic: among calls made from a fresh client, the \<open>i\<close>th one (from 0)
  is throttled exactly when \<^verbatim>\<open>rate_limit_every\<close> is non-zero and divides \<open>i + 1\<close>, whatever the prompts and the
  random numbers are.
\<close>

lemma mock_throttle_period:
  assumes "mock_calls rng prompts (new_mock_client every mn mx) = (rs, c)" "i < length prompts"
  shows "(\<exists>ra. rs ! i = Inl (RateLimitError ra)) \<longleftrightarrow> every \<noteq> 0 \<and> every dvd int i + 1"
  using mock_calls_nth [OF assms(1)] assms(2) by (simp add: new_mock_client_def add.commute)

end
