(* ===== verification/Retry.thy ===== *)
theory Retry
  imports Providers Config
begin

text \<open>
  Retries with backoff (\<^verbatim>\<open>compute_backoff\<close> and \<^verbatim>\<open>infer_with_retry\<close> of \<^verbatim>\<open>app/engine.py\<close>). The body
  of the \<^verbatim>\<open>while True\<close> loop after the awaited call is \<^verbatim>\<open>retry_turn\<close>, which the engine's worker steps
  share; the loop itself is a total function, because an attempt beyond the retry budget re-raises.
  The callbacks are recorded: the list of \<open>(attempt, delay)\<close> pairs passed to \<^verbatim>\<open>on_retry\<close>, each
  followed by a sleep of that delay.
\<close>

subsection \<open>Backoff\<close>

text \<open>
  \<open>u\<close> is the number \<^verbatim>\<open>rng.random()\<close> returns. From attempt 1025 on the integer power no longer
  converts to a float.
\<close>

definition compute_backoff :: "int \<Rightarrow> settings \<Rightarrow> pyfloat \<Rightarrow> pyfloat result" where
  "compute_backoff attempt s u =
     (if 1024 \<le> attempt - 1 then Inl (OverflowError ''int too large to convert to float'')
      else
        (let raw = fl (backoff_base_seconds s * fl (2 powi (attempt - 1)));
             capped = min raw (backoff_max_seconds s);
             jitter = py_uniform 0 (backoff_jitter s) u in
         Inr (fl (capped + jitter))))"

subsection \<open>The retry loop\<close>

datatype retry_decision =
    Return string int
  | Raise exn
  | BackOff int pyfloat

definition retry_turn :: "settings \<Rightarrow> pyfloat \<Rightarrow> int \<Rightarrow> string result \<Rightarrow> retry_decision" where
  "retry_turn s u attempt reply =
     (case reply of
        Inr output \<Rightarrow> Return output attempt
      | Inl exc \<Rightarrow>
          (case exc of
             RateLimitError retry_after \<Rightarrow>
               (if max_retries s < attempt then Raise exc
                else
                  (case compute_backoff attempt s u of
                     Inl e \<Rightarrow> Raise e
                   | Inr b \<Rightarrow> BackOff attempt (max b retry_after)))
           | _ \<Rightarrow> Raise exc))"

lemma retry_turn_BackOffD:
  "retry_turn s u attempt reply = BackOff n d \<Longrightarrow>
     n = attempt \<and> attempt \<le> max_retries s \<and> (\<exists>ra. reply = Inl (RateLimitError ra) \<and> ra \<le> d)"
  by (auto simp: retry_turn_def split: sum.splits exn.splits if_splits)

text \<open>
  The loop, from the number of attempts already made. \<open>rng n\<close> is the draw made at attempt \<open>n\<close>.
\<close>

function retry_loop ::
  "(string \<Rightarrow> 'p \<Rightarrow> string result \<times> 'p) \<Rightarrow> settings \<Rightarrow> (int \<Rightarrow> pyfloat) \<Rightarrow> string \<Rightarrow> int \<Rightarrow> 'p \<Rightarrow>
     (string \<times> int) result \<times> (int \<times> pyfloat) list \<times> 'p" where
  "retry_loop infer s rng prompt made p =
     (let attempt = made + 1; (reply, p1) = infer prompt p in
      case retry_turn s (rng attempt) attempt reply of
        Return output n \<Rightarrow> (Inr (output, n), [], p1)
      | Raise e \<Rightarrow> (Inl e, [], p1)
      | BackOff n delay \<Rightarrow>
          (let (r, calls, p2) = retry_loop infer s rng prompt attempt p1 in (r, (n, delay) # calls, p2)))"
  by auto
termination
  by (relation "measure (\<lambda>(infer, s, rng, prompt, made, p). nat (max_retries s - made))")
    (auto dest!: retry_turn_BackOffD)

declare retry_loop.simps [simp del]

lemma retry_loop_call:
  assumes "infer prompt p = (reply, p1)"
  shows "retry_loop infer s rng prompt made p =
    (case retry_turn s (rng (made + 1)) (made + 1) reply of
       Return output n \<Rightarrow> (Inr (output, n), [], p1)
     | Raise e \<Rightarrow> (Inl e, [], p1)
     | BackOff n delay \<Rightarrow>
         (let (r, calls, p2) = retry_loop infer s rng prompt (made + 1) p1 in (r, (n, delay) # calls, p2)))"
  by (simp add: retry_loop.simps [of infer s rng prompt made p] assms Let_def)

definition infer_with_retry ::
  "(string \<Rightarrow> 'p \<Rightarrow> string result \<times> 'p) \<Rightarrow> string \<Rightarrow> settings \<Rightarrow> (int \<Rightarrow> pyfloat) \<Rightarrow> 'p \<Rightarrow>
     (string \<times> int) result \<times> (int \<times> pyfloat) list \<times> 'p" where
  "infer_with_retry infer prompt s rng p = retry_loop infer s rng prompt 0 p"

text \<open>The text a provider call gives once its sleep is over.\<close>

definition completed_call ::
  "(string \<Rightarrow> 'p \<Rightarrow> (pyfloat \<times> string) result \<times> 'p) \<Rightarrow> string \<Rightarrow> 'p \<Rightarrow> string result \<times> 'p" where
  "completed_call infer prompt p = apfst (map_sum id snd) (infer prompt p)"

subsection \<open>Bounds on the delay\<close>

lemma fl_pow2: "- 1074 \<le> k \<Longrightarrow> fl (2 powi k) = 2 powi k"
  using fl_representable [of 1 k] by simp

lemma compute_backoff_Inr:
  assumes "attempt \<le> 1024"
  shows "\<exists>d. compute_backoff attempt s u = Inr d"
  using assms by (simp add: compute_backoff_def Let_def)

lemma compute_backoff_bounds:
  assumes "compute_backoff attempt s u = Inr d" "0 \<le> u" "u \<le> 1"
    "0 \<le> backoff_jitter s" "fl (backoff_jitter s) = backoff_jitter s"
    "fl (backoff_max_seconds s) = backoff_max_seconds s"
  shows "min (fl (backoff_base_seconds s * fl (2 powi (attempt - 1)))) (backoff_max_seconds s) \<le> d"
    and "d \<le> fl (backoff_max_seconds s + backoff_jitter s)"
proof -
  let ?j = "py_uniform 0 (backoff_jitter s) u"
  let ?c = "min (fl (backoff_base_seconds s * fl (2 powi (attempt - 1)))) (backoff_max_seconds s)"
  have d: "d = fl (?c + ?j)"
    using assms(1) by (simp add: compute_backoff_def Let_def split: if_splits)
  have j: "0 \<le> ?j" "?j \<le> backoff_jitter s"
    using py_uniform_zero_bounds [of "backoff_jitter s" u] assms by auto
  have "fl ?c = ?c" using assms(6) by (simp add: min_def fl_idem)
  then show "?c \<le> d" unfolding d using j(1) by (intro binary64.rnd_ge) auto
  show "d \<le> fl (backoff_max_seconds s + backoff_jitter s)"
    unfolding d using j(2) by (intro fl_mono add_mono) auto
qed

subsection \<open>The loop\<close>

text \<open>
  One more call per backoff: the attempts made are counted by the retries, whichever way the
  loop ends.
\<close>

lemma retry_loop_spec:
  assumes "retry_loop infer s rng prompt made p = (r, calls, p')"
  shows "map fst calls = map (\<lambda>i. made + 1 + int i) [0..<length calls] \<and>
    (calls \<noteq> [] \<longrightarrow> made + int (length calls) \<le> max_retries s) \<and>
    (\<forall>out n. r = Inr (out, n) \<longrightarrow> n = made + int (length calls) + 1) \<and>
    (\<forall>ra. r = Inl (RateLimitError ra) \<longrightarrow> max_retries s \<le> made + int (length calls))"
  using assms
proof (induction infer s rng prompt made p arbitrary: r calls p' rule: retry_loop.induct)
  case (1 infer s rng prompt made p)
  obtain reply p1 where call: "infer prompt p = (reply, p1)" by fastforce
  note unfold = 1(2) [unfolded retry_loop_call [of infer prompt p, OF call]]
  show ?case
  proof (cases "retry_turn s (rng (made + 1)) (made + 1) reply")
    case (Return out n)
    then show ?thesis
      using unfold by (auto simp: retry_turn_def split: sum.splits exn.splits if_splits)
  next
    case (Raise e)
    then have "\<forall>ra. e = RateLimitError ra \<longrightarrow> max_retries s < made + 1"
      by (auto simp: retry_turn_def compute_backoff_def Let_def split: sum.splits exn.splits if_splits)
    with Raise show ?thesis using unfold by auto
  next
    case (BackOff n d)
    then have n: "n = made + 1" "made + 1 \<le> max_retries s" by (auto dest: retry_turn_BackOffD)
    obtain calls' where rec: "retry_loop infer s rng prompt (made + 1) p1 = (r, calls', p')"
      and calls: "calls = (n, d) # calls'"
      using unfold BackOff by (auto simp: Let_def split: prod.splits)
    note IH = 1(1) [OF refl refl call [symmetric] BackOff rec]
    have "map fst calls = map (\<lambda>i. made + 1 + int i) [0..<length calls]"
      using IH n(1) by (simp add: calls map_upt_Suc del: upt_Suc)
    with IH n calls show ?thesis by auto
  qed
qed

lemma retry_loop_delays:
  assumes "retry_loop infer s rng prompt made p = (r, calls, p')"
    "(n, d) \<in> set calls"
  shows "\<exists>b. compute_backoff n s (rng n) = Inr b \<and> b \<le> d"
  using assms
proof (induction infer s rng prompt made p arbitrary: r calls p' rule: retry_loop.induct)
  case (1 infer s rng prompt made p)
  obtain reply p1 where call: "infer prompt p = (reply, p1)" by fastforce
  note unfold = 1(2) [unfolded retry_loop_call [of infer prompt p, OF call]]
  obtain m d' calls' where turn: "retry_turn s (rng (made + 1)) (made + 1) reply = BackOff m d'"
    and rec: "retry_loop infer s rng prompt (made + 1) p1 = (r, calls', p')"
    and calls: "calls = (m, d') # calls'"
    using unfold 1(3) by (auto simp: Let_def split: retry_decision.splits prod.splits)
  have "\<exists>b. compute_backoff m s (rng m) = Inr b \<and> b \<le> d'"
    using turn by (auto simp: retry_turn_def split: sum.splits exn.splits if_splits)
  with 1(1) [OF refl refl call [symmetric] turn rec] 1(3) show ?case by (auto simp: calls)
qed

text \<open>An error other than a 429 is raised after exactly one call.\<close>

lemma retry_loop_other_error:
  assumes "infer prompt p = (Inl e, p1)" "\<not> is_rate_limit e"
  shows "retry_loop infer s rng prompt made p = (Inl e, [], p1)"
  using assms by (cases e) (simp_all add: retry_loop_call [of infer prompt p, OF assms(1)] retry_turn_def)

subsection \<open>The contract of a throttling provider\<close>

text \<open>
  \<open>burst p\<close> is the number of consecutive 429 replies the provider gives from state \<open>p\<close>: while it
  is positive a call is throttled and the next state has one fewer; at zero a call succeeds.
\<close>

locale throttling_provider =
  fixes infer :: "string \<Rightarrow> 'p \<Rightarrow> string result \<times> 'p"
    and ok :: "'p \<Rightarrow> bool"
    and burst :: "'p \<Rightarrow> nat"
    and answer :: "string \<Rightarrow> string"
  assumes ok_call: "ok p \<Longrightarrow> ok (snd (infer prompt p))"
    and throttled: "ok p \<Longrightarrow> burst p = Suc k \<Longrightarrow>
      (\<exists>ra. fst (infer prompt p) = Inl (RateLimitError ra)) \<and> burst (snd (infer prompt p)) = k"
    and answered: "ok p \<Longrightarrow> burst p = 0 \<Longrightarrow> fst (infer prompt p) = Inr (answer prompt)"
begin

lemma retry_recovers_from:
  assumes "ok p" "0 \<le> made" "made + int (burst p) \<le> max_retries s" "made + int (burst p) \<le> 1024"
  shows "\<exists>calls p'. retry_loop infer s rng prompt made p =
    (Inr (answer prompt, made + int (burst p) + 1), calls, p') \<and> length calls = burst p \<and> ok p'"
  using assms
proof (induction "burst p" arbitrary: p made)
  case 0
  obtain p1 where call: "infer prompt p = (Inr (answer prompt), p1)"
    using answered [of p prompt] 0 by (cases "infer prompt p") auto
  with 0 ok_call [of p prompt] show ?case by (simp add: retry_loop_call [of infer prompt p, OF call] retry_turn_def)
next
  case (Suc k)
  obtain ra p1 where call: "infer prompt p = (Inl (RateLimitError ra), p1)" and k: "burst p1 = k"
    using throttled [OF Suc.prems(1) Suc.hyps(2) [symmetric], of prompt] by (cases "infer prompt p") auto
  have ok1: "ok p1" using ok_call [OF Suc.prems(1), of prompt] by (simp add: call)
  have le: "made + 1 \<le> max_retries s" "made + 1 \<le> 1024" using Suc.prems Suc.hyps(2) by linarith+
  then obtain b where "compute_backoff (made + 1) s (rng (made + 1)) = Inr b"
    using compute_backoff_Inr by blast
  then obtain d where turn:
    "retry_turn s (rng (made + 1)) (made + 1) (Inl (RateLimitError ra)) = BackOff (made + 1) d"
    using le(1) by (simp add: retry_turn_def)
  have "\<exists>calls p'. retry_loop infer s rng prompt (made + 1) p1 =
      (Inr (answer prompt, made + 1 + int (burst p1) + 1), calls, p') \<and> length calls = burst p1 \<and> ok p'"
    using Suc.hyps(2) Suc.prems k ok1 by (intro Suc.hyps(1)) auto
  then show ?case
    using turn k Suc.hyps(2) by (auto simp: retry_loop_call [of infer prompt p, OF call])
qed

lemma retry_recovers:
  assumes "ok p" "int (burst p) \<le> max_retries s" "int (burst p) \<le> 1024"
  shows "\<exists>calls p'. infer_with_retry infer prompt s rng p =
    (Inr (answer prompt, int (burst p) + 1), calls, p') \<and> length calls = burst p \<and> ok p'"
  using retry_recovers_from [of p 0 s rng prompt] assms by (simp add: infer_with_retry_def)

text \<open>A longer burst exhausts the budget: \<open>max_retries + 1\<close> calls, then the 429 is re-raised.\<close>

lemma retry_exhausts_from:
  assumes "ok p" "0 \<le> made" "made \<le> max_retries s" "max_retries s < made + int (burst p)" "max_retries s \<le> 1024"
  shows "\<exists>ra calls p'. retry_loop infer s rng prompt made p = (Inl (RateLimitError ra), calls, p') \<and>
    made + int (length calls) = max_retries s"
  using assms
proof (induction "nat (max_retries s - made)" arbitrary: p made)
  case (0 made p)
  then have made: "made = max_retries s" by simp
  with 0 obtain k where "burst p = Suc k" by (cases "burst p") auto
  then obtain ra p1 where call: "infer prompt p = (Inl (RateLimitError ra), p1)"
    using throttled [OF 0(2), of k prompt] by (cases "infer prompt p") auto
  show ?case using made by (simp add: retry_loop_call [of infer prompt p, OF call] retry_turn_def)
next
  case (Suc m made p)
  obtain k where k: "burst p = Suc k" using Suc.prems by (cases "burst p") auto
  then obtain ra p1 where call: "infer prompt p = (Inl (RateLimitError ra), p1)" and k1: "burst p1 = k"
    using throttled [OF Suc.prems(1) k, of prompt] by (cases "infer prompt p") auto
  have ok1: "ok p1" using ok_call [OF Suc.prems(1), of prompt] by (simp add: call)
  have le: "made + 1 \<le> max_retries s" "made + 1 \<le> 1024" using Suc.prems Suc.hyps(2) by linarith+
  then obtain b where "compute_backoff (made + 1) s (rng (made + 1)) = Inr b"
    using compute_backoff_Inr by blast
  then obtain d where turn:
    "retry_turn s (rng (made + 1)) (made + 1) (Inl (RateLimitError ra)) = BackOff (made + 1) d"
    using le(1) by (simp add: retry_turn_def)
  have "\<exists>ra calls p'. retry_loop infer s rng prompt (made + 1) p1 = (Inl (RateLimitError ra), calls, p') \<and>
      made + 1 + int (length calls) = max_retries s"
    using Suc.hyps(2) Suc.prems k k1 ok1 le by (intro Suc.hyps(1)) auto
  then show ?case
    using turn by (fastforce simp: retry_loop_call [of infer prompt p, OF call])
qed

lemma retry_exhausts:
  assumes "ok p" "0 \<le> max_retries s" "max_retries s < int (burst p)" "max_retries s \<le> 1024"
  shows "\<exists>ra calls p'. infer_with_retry infer prompt s rng p = (Inl (RateLimitError ra), calls, p') \<and>
    int (length calls) = max_retries s"
  using retry_exhausts_from [of p 0 s rng prompt] assms by (simp add: infer_with_retry_def)

end

subsection \<open>The providers of the repository\<close>

definition mock_burst :: "mock_client \<Rightarrow> nat" where
  "mock_burst c = (if mc_rate_limit_every c \<noteq> 0 \<and> mc_rate_limit_every c dvd mc_counter c then 1 else 0)"

definition mock_ok :: "mock_client \<Rightarrow> bool" where
  "mock_ok c \<longleftrightarrow> \<bar>mc_rate_limit_every c\<bar> \<noteq> 1"

lemma not_dvd_succ:
  fixes a b :: int
  assumes "a dvd b" "\<bar>a\<bar> \<noteq> 1"
  shows "\<not> a dvd b + 1"
proof
  assume "a dvd b + 1"
  then have "a dvd b + 1 - b" using assms(1) by (rule dvd_diff)
  then show False using assms(2) by simp
qed

interpretation mock: throttling_provider "completed_call (mock_infer rng)" mock_ok mock_burst
  "\<lambda>prompt. ''completion::'' @ prompt"
  by unfold_locales
    (auto simp: completed_call_def mock_infer_def mock_ok_def mock_burst_def Let_def
      dvd_eq_mod_eq_0 [symmetric] not_dvd_succ split: if_splits)

interpretation flaky: throttling_provider "completed_call flaky_infer" "\<lambda>_. True"
  "\<lambda>p. nat (fp_fail_times p - fp_calls p)" "\<lambda>prompt. ''completion::'' @ prompt"
  by unfold_locales (auto simp: completed_call_def flaky_infer_def Let_def)

interpretation slow: throttling_provider "completed_call slow_infer" "\<lambda>_. True" "\<lambda>_. 0"
  "\<lambda>prompt. ''slow-completion::'' @ prompt"
  by unfold_locales (auto simp: completed_call_def slow_infer_def)

subsection \<open>Properties of the retry loop\<close>

definition patient_settings :: settings where
  "patient_settings = default_settings\<lparr>max_retries := 3, backoff_jitter := 1 / 8, backoff_max_seconds := 8\<rparr>"

text \<open>
  C39. The attempt count of \<^verbatim>\<open>infer_with_retry\<close> is exact and bounded for every provider: \<^verbatim>\<open>on_retry\<close> is
  called with attempts \<open>1, 2, ...\<close> in order, at most \<^verbatim>\<open>max_retries\<close> times; a result carries one more
  attempt than there were retries; and a 429 is re-raised only once the budget is used up.
\<close>

theorem retry_attempts_exact:
  assumes "0 \<le> max_retries s" "infer_with_retry infer prompt s rng p = (r, calls, p')"
  shows "map fst calls = map (\<lambda>i. 1 + int i) [0..<length calls] \<and> int (length calls) \<le> max_retries s \<and>
    (r = Inr (out, n) \<longrightarrow> n = int (length calls) + 1) \<and>
    (r = Inl (RateLimitError ra) \<longrightarrow> int (length calls) = max_retries s)"
proof -
  note spec = retry_loop_spec [OF assms(2) [unfolded infer_with_retry_def]]
  have "int (length calls) \<le> max_retries s" using spec assms(1) by (cases calls) auto
  with spec show ?thesis by simp
qed

theorem retry_attempts_exact_witness:
  "\<exists>r calls p'. infer_with_retry (completed_call flaky_infer) ''x'' patient_settings (\<lambda>_. 0) (new_flaky_provider 9) =
     (r, calls, p') \<and> int (length calls) \<le> 3"
proof -
  obtain r calls p' where
    run: "infer_with_retry (completed_call flaky_infer) ''x'' patient_settings (\<lambda>_. 0) (new_flaky_provider 9) = (r, calls, p')"
    by (metis prod_cases3)
  have "0 \<le> max_retries patient_settings" by (simp add: patient_settings_def)
  from retry_attempts_exact [OF this run] run show ?thesis by (auto simp: patient_settings_def)
qed

text \<open>
  Against the repository's mock endpoint (every \<open>n\<close>th call is a 429, \<open>n \<noteq> 1\<close>) one retry is always
  enough: with \<^verbatim>\<open>max_retries >= 1\<close> every prompt gets its completion, after at most two attempts, whatever
  the state of the shared call counter and the random numbers are.
\<close>

lemma mock_prompt_always_succeeds:
  assumes "mock_ok c" "1 \<le> max_retries s"
  shows "\<exists>calls c'. infer_with_retry (completed_call (mock_infer rng)) prompt s rng' c =
    (Inr (''completion::'' @ prompt, int (mock_burst c) + 1), calls, c') \<and> mock_burst c \<le> 1 \<and> mock_ok c'"
proof -
  have b: "mock_burst c \<le> 1" by (simp add: mock_burst_def)
  then have "int (mock_burst c) \<le> max_retries s" "int (mock_burst c) \<le> 1024" using assms(2) by linarith+
  from mock.retry_recovers [OF assms(1) this] b show ?thesis by blast
qed

text \<open>
  A provider that throttles its first \<open>k\<close> calls is outlasted exactly when \<open>k\<close> is within the retry
  budget: then the call returns at attempt \<open>k + 1\<close>, otherwise the 429 is re-raised after
  \<^verbatim>\<open>max_retries\<close> retries.
\<close>

lemma flaky_recovers_iff_within_budget:
  assumes "0 \<le> k" "0 \<le> max_retries s" "max_retries s \<le> 1024"
  shows "\<exists>r calls p'. infer_with_retry (completed_call flaky_infer) prompt s rng (new_flaky_provider k) = (r, calls, p') \<and>
    (if k \<le> max_retries s then r = Inr (''completion::'' @ prompt, k + 1) \<and> int (length calls) = k
     else (\<exists>ra. r = Inl (RateLimitError ra)) \<and> int (length calls) = max_retries s)"
proof -
  have b: "int (nat (fp_fail_times (new_flaky_provider k) - fp_calls (new_flaky_provider k))) = k"
    using assms(1) by (simp add: new_flaky_provider_def)
  show ?thesis
  proof (cases "k \<le> max_retries s")
    case True
    then show ?thesis
      using flaky.retry_recovers [of "new_flaky_provider k" s prompt rng] b assms by fastforce
  next
    case False
    then show ?thesis
      using flaky.retry_exhausts [of s "new_flaky_provider k" prompt rng] b assms by fastforce
  qed
qed

text \<open>
  Backoff bounds: every delay passed to \<^verbatim>\<open>on_retry\<close> and slept is at least the exponential backoff of
  its attempt, capped at \<^verbatim>\<open>backoff_max_seconds\<close>; and the backoff itself never exceeds the cap plus the
  jitter (rounded).
\<close>

lemma retry_delay_bounds:
  assumes "infer_with_retry infer prompt s rng p = (r, calls, p')" "(n, d) \<in> set calls"
    "0 \<le> rng n" "rng n \<le> 1" "0 \<le> backoff_jitter s" "fl (backoff_jitter s) = backoff_jitter s"
    "fl (backoff_max_seconds s) = backoff_max_seconds s"
  shows "\<exists>b. compute_backoff n s (rng n) = Inr b \<and> b \<le> d \<and>
    min (fl (backoff_base_seconds s * fl (2 powi (n - 1)))) (backoff_max_seconds s) \<le> d \<and>
    b \<le> fl (backoff_max_seconds s + backoff_jitter s)"
proof -
  obtain b where b: "compute_backoff n s (rng n) = Inr b" "b \<le> d"
    using retry_loop_delays [OF assms(1) [unfolded infer_with_retry_def] assms(2)] by blast
  note bounds = compute_backoff_bounds [OF b(1) assms(3-7)]
  show ?thesis using b bounds by (intro exI [of _ b]) (auto intro: order_trans)
qed

text \<open>
  Non-retryable failures: an exception that is not a 429 leaves the loop after exactly one call, with
  no retry recorded, and is raised unchanged.
\<close>

lemma non_retryable_raises_at_once:
  assumes "infer prompt p = (Inl e, p')" "\<not> is_rate_limit e"
  shows "infer_with_retry infer prompt s rng p = (Inl e, [], p')"
  unfolding infer_with_retry_def using assms by (rule retry_loop_other_error)

end
