(* ===== verification/Engine.thy ===== *)
theory Engine
  imports Scheduler Ratelimit Store Metrics Json Retry
begin

text \<open>
  \<^verbatim>\<open>BatchEngine\<close> of \<^verbatim>\<open>app/engine.py\<close>. The object is the record \<^verbatim>\<open>engine\<close>; the module-level metrics
  registry is one of its fields. \<^verbatim>\<open>asyncio\<close> runs one coroutine at a time and switches only at an
  \<^verbatim>\<open>await\<close> that suspends, so a coroutine is modelled by the atomic pieces between its suspension
  points: the API coroutines are single pieces, a worker is a task with a phase that says what it
  awaits. Results of awaited calls (the provider's reply, the end of a sleep), clock readings, random
  draws and \<^verbatim>\<open>uuid4\<close> values are inputs of the pieces, so every theorem holds for all of them.
  A worker's piece ends at the head of its \<^verbatim>\<open>while True\<close> loop: where the coroutine would go on with
  the next \<^verbatim>\<open>acquire\<close> at once, the model also allows other tasks to run in between, so every
  schedule of the event loop is a schedule of the model. The logging calls are in \<^verbatim>\<open>Logging\<close>.
\<close>

subsection \<open>State\<close>

text \<open>
  What a live worker task is at: about to test the limiter (new, woken, or at the loop head),
  parked in the limiter's condition, or holding a permit for an item of a job (with the attempt number
  and the start time of \<^verbatim>\<open>_process\<close>) and awaiting a token, the provider, or the end of a backoff.
\<close>

datatype worker_phase =
    Ready
  | Parked
  | AwaitToken string work_item int pyfloat
  | AwaitReply string work_item int pyfloat
  | AwaitBackoff string work_item int pyfloat

record engine =
  eng_settings :: settings
  eng_store :: job_store
  eng_scheduler :: fair_scheduler
  eng_limiter :: limiter
  eng_bucket :: token_bucket
  eng_active :: "string list"
  eng_workers :: "(nat, worker_phase) dict"
  eng_next_worker :: nat
  eng_accepting :: bool
  eng_metrics :: metric_registry

text \<open>
  Successive readings of \<^verbatim>\<open>time.time()\<close>, of \<^verbatim>\<open>time.perf_counter()\<close> and of the loop's clock; the loop that ends a
  shutdown reads \<^verbatim>\<open>time.time()\<close> once for every job it finalizes (\<^verbatim>\<open>clk_wall_each\<close>, by job id).
\<close>

record clock =
  clk_wall :: pyfloat
  clk_wall_next :: pyfloat
  clk_perf :: pyfloat
  clk_loop :: pyfloat
  clk_wall_each :: "string \<Rightarrow> pyfloat"

datatype submit_error =
    OverloadedError int string
  | IdempotencyConflictError string

abbreviation tally :: "(metric_registry \<Rightarrow> metric_registry) \<Rightarrow> engine \<Rightarrow> engine" where
  "tally \<equiv> eng_metrics_update"

abbreviation with_job :: "string \<Rightarrow> (job \<Rightarrow> job) \<Rightarrow> engine \<Rightarrow> engine" where
  "with_job jid f \<equiv> eng_store_update (store_mutate jid f)"

definition new_engine :: "settings \<Rightarrow> metric_registry \<Rightarrow> engine" where
  "new_engine s m =
     (let gate = new_limiter (global_max_concurrency s) (adaptive_min_concurrency s)
                  (Some (global_max_concurrency s)) (adaptive_decrease_factor s) (adaptive_increase_after s) in
      \<lparr>eng_settings = s, eng_store = empty_store, eng_scheduler = empty_scheduler, eng_limiter = gate,
       eng_bucket = new_token_bucket (provider_max_rps s)
         (Some (if provider_burst s \<noteq> 0 then provider_burst s else provider_max_rps s)),
       eng_active = [], eng_workers = [], eng_next_worker = 0, eng_accepting = True,
       eng_metrics = m_concurrency_limit_update (gau_set (PyInt (lim_limit gate))) m\<rparr>)"

definition active_jobs :: "engine \<Rightarrow> int" where
  "active_jobs e = int (length (eng_active e))"

definition get_job :: "engine \<Rightarrow> string \<Rightarrow> job option" where
  "get_job e jid = store_get (eng_store e) jid"

definition engine_job_pending :: "engine \<Rightarrow> string \<Rightarrow> nat" where
  "engine_job_pending e jid = job_pending jid (eng_scheduler e)"

subsection \<open>Request fingerprint\<close>

text \<open>
  \<^verbatim>\<open>json.dumps\<close> of the submission with sorted keys and the default separators; non-ASCII
  characters are escaped. \<open>sha256\<close> is \<^verbatim>\<open>hashlib.sha256(...).hexdigest()\<close>.
\<close>

definition json_of_opt :: "string option \<Rightarrow> json" where
  "json_of_opt x = (case x of None \<Rightarrow> JNull | Some s \<Rightarrow> JStr s)"

definition fingerprint_payload :: "prompt_item list \<Rightarrow> priority \<Rightarrow> string" where
  "fingerprint_payload prompts prio =
     json_dumps
       (JObj [(''items'', JList (map (\<lambda>p. JList [json_of_opt (prompt_id p), JStr (prompt_text p)]) prompts)),
         (''p'', JStr (priority_value prio))])"

definition fingerprint :: "(string \<Rightarrow> string) \<Rightarrow> prompt_item list \<Rightarrow> priority \<Rightarrow> string" where
  "fingerprint sha256 prompts prio = sha256 (fingerprint_payload prompts prio)"

subsection \<open>Gauges, finalization, worker pool\<close>

definition refresh_gauges :: "engine \<Rightarrow> engine" where
  "refresh_gauges e =
     tally (\<lambda>m. m\<lparr>
        m_queue_depth := gau_set (PyInt (pending (eng_scheduler e))) (m_queue_depth m),
        m_active_jobs := gau_set (PyInt (int (sched_active_jobs (eng_scheduler e)))) (m_active_jobs m),
        m_concurrency_limit := gau_set (PyInt (lim_limit (eng_limiter e))) (m_concurrency_limit m)\<rparr>) e"

text \<open>The assignments \<^verbatim>\<open>_finalize\<close> makes to the job object.\<close>

definition finish_job :: "job_state \<Rightarrow> pyfloat \<Rightarrow> job \<Rightarrow> job" where
  "finish_job st now j =
     j\<lparr>state := st, finished_at := (case finished_at j of None \<Rightarrow> Some now | Some t \<Rightarrow> Some t)\<rparr>"

definition finalize :: "string \<Rightarrow> job_state \<Rightarrow> clock \<Rightarrow> engine \<Rightarrow> engine" where
  "finalize jid st clk e =
     (let e1 = with_job jid (finish_job st (clk_wall clk)) e;
          e2 = e1\<lparr>eng_active := removeAll jid (eng_active e1)\<rparr> in
      if st = COMPLETED
      then
        (let e3 = tally (m_jobs_completed_update ctr_inc1) e2 in
         case get_job e3 jid of
           None \<Rightarrow> e3
         | Some j \<Rightarrow>
             (case (started_at j, finished_at j) of
                (Some t0, Some t1) \<Rightarrow> tally (m_job_duration_update (his_observe (fl (t1 - t0)))) e3
              | _ \<Rightarrow> e3))
      else e2)"

text \<open>\<^verbatim>\<open>_ensure_workers\<close>; finished tasks have already left \<^verbatim>\<open>eng_workers\<close>.\<close>

definition ensure_workers :: "engine \<Rightarrow> engine" where
  "ensure_workers e =
     (let target = min (worker_pool_size (eng_settings e)) (max 1 (pending (eng_scheduler e)));
          n = nat (max 0 (target - int (length (eng_workers e))));
          w0 = eng_next_worker e in
      e\<lparr>eng_workers := eng_workers e @ map (\<lambda>w. (w, Ready)) [w0..<w0 + n], eng_next_worker := w0 + n\<rparr>)"

subsection \<open>Submission\<close>

text \<open>\<^verbatim>\<open>p.id or f"prompt-{i + 1}"\<close>\<close>

definition work_item_of :: "nat \<times> prompt_item \<Rightarrow> work_item" where
  "work_item_of ip =
     \<lparr>item_seq = fst ip,
      item_id = (case prompt_id (snd ip) of
                   None \<Rightarrow> ''prompt-'' @ show_nat (fst ip + 1)
                 | Some t \<Rightarrow> if t = [] then ''prompt-'' @ show_nat (fst ip + 1) else t),
      item_prompt = prompt_text (snd ip)\<rparr>"

definition work_items :: "prompt_item list \<Rightarrow> work_item list" where
  "work_items prompts = map work_item_of (enumerate 0 prompts)"

text \<open>The \<^verbatim>\<open>Job(...)\<close> of an accepted submission; the keyword arguments are evaluated before the defaults.\<close>

definition submitted_job ::
  "clock \<Rightarrow> string \<Rightarrow> prompt_item list \<Rightarrow> priority \<Rightarrow> string option \<Rightarrow> string \<Rightarrow> job" where
  "submitted_job clk uid prompts prio key fp =
     (new_job uid (clk_wall_next clk))
       \<lparr>total := int (length prompts), job_priority := prio, idempotency_key := key,
        request_fingerprint := Some fp, state := RUNNING, started_at := Some (clk_wall clk)\<rparr>"

definition register_job ::
  "clock \<Rightarrow> string \<Rightarrow> prompt_item list \<Rightarrow> priority \<Rightarrow> string option \<Rightarrow> string \<Rightarrow> engine \<Rightarrow> engine" where
  "register_job clk uid prompts prio key fp e =
     (let e1 = tally (m_jobs_submitted_update ctr_inc1) e;
          e2 = e1\<lparr>eng_store := store_create (submitted_job clk uid prompts prio key fp) (eng_store e1),
                  eng_active := List.insert uid (eng_active e1),
                  eng_scheduler := add_job uid (work_items prompts) prio (eng_scheduler e1)\<rparr> in
      ensure_workers (refresh_gauges e2))"

definition admit ::
  "clock \<Rightarrow> string \<Rightarrow> prompt_item list \<Rightarrow> priority \<Rightarrow> string option \<Rightarrow> string \<Rightarrow> engine \<Rightarrow>
     (submit_error + string \<times> bool) \<times> engine" where
  "admit clk uid prompts prio key fp e =
     (let s = eng_settings e; reject = tally (m_jobs_rejected_update ctr_inc1) e in
      if max_active_jobs s \<le> active_jobs e
      then (Inl (OverloadedError (overload_retry_after_seconds s) ''Service overloaded''), reject)
      else if max_queue_size s < pending (eng_scheduler e) + int (length prompts)
      then (Inl (OverloadedError (overload_retry_after_seconds s) ''Scheduler queue is at capacity''), reject)
      else (Inr (uid, False), register_job clk uid prompts prio key fp e))"

text \<open>The outcome is the id of the job and whether it is an idempotent reuse.\<close>

definition submit_with_idempotency ::
  "(string \<Rightarrow> string) \<Rightarrow> clock \<Rightarrow> string \<Rightarrow> prompt_item list \<Rightarrow> priority \<Rightarrow> string option \<Rightarrow> engine \<Rightarrow>
     (submit_error + string \<times> bool) \<times> engine" where
  "submit_with_idempotency sha256 clk uid prompts prio key e =
     (if \<not> eng_accepting e
      then (Inl (OverloadedError (overload_retry_after_seconds (eng_settings e)) ''Service is shutting down''), e)
      else
        (let fp = fingerprint sha256 prompts prio;
             existing = (case key of
                           None \<Rightarrow> None
                         | Some k \<Rightarrow> if k = [] then None else find_by_idempotency_key (eng_store e) k) in
         case existing of
           Some j \<Rightarrow>
             (if request_fingerprint j \<noteq> Some fp
              then (Inl (IdempotencyConflictError (''Idempotency-Key '' @ [CHR 39] @ the key @ [CHR 39] @
                      '' was already used with a different payload.'')), e)
              else (Inr (job_id j, True), tally (m_idempotent_reuse_update ctr_inc1) e))
         | None \<Rightarrow> admit clk uid prompts prio key fp e))"

definition submit ::
  "(string \<Rightarrow> string) \<Rightarrow> clock \<Rightarrow> string \<Rightarrow> prompt_item list \<Rightarrow> priority \<Rightarrow> string option \<Rightarrow> engine \<Rightarrow>
     (submit_error + string) \<times> engine" where
  "submit sha256 clk uid prompts prio key e =
     apfst (map_sum id fst) (submit_with_idempotency sha256 clk uid prompts prio key e)"

subsection \<open>Cancellation and replay\<close>

definition terminal :: "job_state \<Rightarrow> bool" where
  "terminal st \<longleftrightarrow> st \<in> {COMPLETED, FAILED, CANCELLED}"

definition cancel :: "clock \<Rightarrow> string \<Rightarrow> engine \<Rightarrow> bool option \<times> engine" where
  "cancel clk jid e =
     (case get_job e jid of
        None \<Rightarrow> (None, e)
      | Some j \<Rightarrow>
          if terminal (state j) then (Some False, e)
          else
            (let e1 = e\<lparr>eng_scheduler := snd (remove_job jid (eng_scheduler e))\<rparr>;
                 e2 = finalize jid CANCELLED clk e1;
                 e3 = tally (m_jobs_cancelled_update ctr_inc1) e2 in
             (Some True, refresh_gauges e3)))"

definition replay_prompts :: "job \<Rightarrow> prompt_item list" where
  "replay_prompts j = map (\<lambda>r. \<lparr>prompt_id = Some (res_id r), prompt_text = res_prompt r\<rparr>) (dead_letter j)"

text \<open>The outer \<^term>\<open>None\<close> of the outcome is the code's \<^verbatim>\<open>None\<close>: no such job, or nothing failed.\<close>

definition replay_failed ::
  "(string \<Rightarrow> string) \<Rightarrow> clock \<Rightarrow> string \<Rightarrow> string \<Rightarrow> priority option \<Rightarrow> engine \<Rightarrow>
     (submit_error + string) option \<times> engine" where
  "replay_failed sha256 clk uid jid prio e =
     (case get_job e jid of
        None \<Rightarrow> (None, e)
      | Some j \<Rightarrow>
          if dead_letter j = [] then (None, e)
          else
            apfst Some
              (submit sha256 clk uid (replay_prompts j)
                (case prio of Some p \<Rightarrow> p | None \<Rightarrow> job_priority j) None e))"

subsection \<open>Workers\<close>

definition set_phase :: "nat \<Rightarrow> worker_phase \<Rightarrow> engine \<Rightarrow> engine" where
  "set_phase w ph e = e\<lparr>eng_workers := dict_mutate w (\<lambda>_. ph) (eng_workers e)\<rparr>"

text \<open>The \<^verbatim>\<open>finally\<close> block: give the permit back, wake the first parked worker, set the gauge.\<close>

definition worker_release :: "engine \<Rightarrow> engine" where
  "worker_release e =
     (let (woken, gate) = lim_release (eng_limiter e);
          e1 = e\<lparr>eng_limiter := gate\<rparr>;
          e2 = (case woken of None \<Rightarrow> e1 | Some v \<Rightarrow> set_phase v Ready e1) in
      tally (m_inflight_update (gau_set (PyInt (lim_in_use gate)))) e2)"

text \<open>
  \<^verbatim>\<open>_gated_infer\<close> up to its first suspension: one pass of the token bucket, then the provider call.
\<close>

definition start_call :: "nat \<Rightarrow> string \<Rightarrow> work_item \<Rightarrow> int \<Rightarrow> pyfloat \<Rightarrow> clock \<Rightarrow> engine \<Rightarrow> engine" where
  "start_call w jid item attempt start clk e =
     (case tb_pass 1 (clk_loop clk) (eng_bucket e) of
        (None, b) \<Rightarrow> set_phase w (AwaitReply jid item attempt start) (e\<lparr>eng_bucket := b\<rparr>)
      | (Some wait, b) \<Rightarrow> set_phase w (AwaitToken jid item attempt start) (e\<lparr>eng_bucket := b\<rparr>))"

text \<open>\<^verbatim>\<open>_process\<close> up to its first suspension.\<close>

definition process_start :: "nat \<Rightarrow> string \<Rightarrow> work_item \<Rightarrow> clock \<Rightarrow> engine \<Rightarrow> engine" where
  "process_start w jid item clk e =
     (case get_job e jid of
        None \<Rightarrow> worker_release e
      | Some j \<Rightarrow>
          if state j = CANCELLED then worker_release e
          else start_call w jid item 1 (clk_perf clk) clk e)"

definition worker_run :: "nat \<Rightarrow> clock \<Rightarrow> engine \<Rightarrow> engine" where
  "worker_run w clk e =
     (case lim_acquire w (eng_limiter e) of
        (False, gate) \<Rightarrow> set_phase w Parked (e\<lparr>eng_limiter := gate\<rparr>)
      | (True, gate) \<Rightarrow>
          (case pop (eng_scheduler e) of
             (None, sched) \<Rightarrow>
               (let e1 = worker_release (e\<lparr>eng_limiter := gate, eng_scheduler := sched\<rparr>) in
                e1\<lparr>eng_workers := dict_del w (eng_workers e1)\<rparr>)
           | (Some (jid, item), sched) \<Rightarrow>
               process_start w jid item clk
                 (tally (\<lambda>m. m\<lparr>m_queue_depth := gau_set (PyInt (pending sched)) (m_queue_depth m),
                               m_inflight := gau_set (PyInt (lim_in_use gate)) (m_inflight m)\<rparr>)
                   (e\<lparr>eng_limiter := gate, eng_scheduler := sched\<rparr>))))"

subsection \<open>Settling an item\<close>

definition estimate_tokens :: "settings \<Rightarrow> string \<Rightarrow> int result" where
  "estimate_tokens s txt =
     (if chars_per_token s = 0 then Inl (ZeroDivisionError ''float division by zero'')
      else Inr (max 1 \<lceil>fl (fl (of_nat (length txt)) / chars_per_token s)\<rceil>))"

definition token_cost :: "settings \<Rightarrow> int \<Rightarrow> int \<Rightarrow> pyfloat" where
  "token_cost s in_tokens out_tokens =
     fl (fl (fl (of_int in_tokens / 1000) * cost_per_1k_input_tokens s) +
         fl (fl (of_int out_tokens / 1000) * cost_per_1k_output_tokens s))"

text \<open>\<^verbatim>\<open>_on_retry\<close>\<close>

definition on_retry :: "string \<Rightarrow> engine \<Rightarrow> engine" where
  "on_retry jid e =
     (let e1 = with_job jid (\<lambda>j. j\<lparr>retries := retries j + 1\<rparr>) e;
          e2 = tally (m_inference_rate_limited_update ctr_inc1 \<circ> m_inference_retries_update ctr_inc1) e1;
          e3 = e2\<lparr>eng_limiter := record_throttle (eng_limiter e2)\<rparr> in
      tally (m_concurrency_limit_update (gau_set (PyInt (lim_limit (eng_limiter e3))))) e3)"

text \<open>The \<^verbatim>\<open>except Exception\<close> branch.\<close>

definition item_failed :: "string \<Rightarrow> work_item \<Rightarrow> exn \<Rightarrow> engine \<Rightarrow> inference_result \<times> engine" where
  "item_failed jid item exc e =
     (let e1 = (if is_rate_limit exc then tally (m_retries_exhausted_update ctr_inc1) e else e);
          r = \<lparr>res_id = item_id item, res_prompt = item_prompt item, res_success = False,
               res_output = None, res_error = Some (str_exn exc), res_attempts = 0,
               res_input_tokens = 0, res_output_tokens = 0, res_cost_usd = 0\<rparr> in
      (r, tally (m_prompts_failed_update ctr_inc1) (with_job jid (\<lambda>j. j\<lparr>failed := failed j + 1\<rparr>) e1)))"

text \<open>The four assignments to the job of a prompt that succeeded.\<close>

definition credit_success :: "int \<Rightarrow> int \<Rightarrow> pyfloat \<Rightarrow> job \<Rightarrow> job" where
  "credit_success in_tokens out_tokens cost j =
     j\<lparr>succeeded := succeeded j + 1, input_tokens := input_tokens j + in_tokens,
       output_tokens := output_tokens j + out_tokens, cost_usd := fl (cost_usd j + cost)\<rparr>"

text \<open>The \<^verbatim>\<open>try\<close> block after the awaited call, with the exceptions it may raise itself.\<close>

definition item_returned :: "string \<Rightarrow> work_item \<Rightarrow> string \<Rightarrow> int \<Rightarrow> engine \<Rightarrow> inference_result \<times> engine" where
  "item_returned jid item output attempts e =
     (let s = eng_settings e; e1 = e\<lparr>eng_limiter := record_success (eng_limiter e)\<rparr> in
      case estimate_tokens s (item_prompt item) of
        Inl exc \<Rightarrow> item_failed jid item exc e1
      | Inr in_tokens \<Rightarrow>
          (case estimate_tokens s output of
             Inl exc \<Rightarrow> item_failed jid item exc e1
           | Inr out_tokens \<Rightarrow>
               (let cost = token_cost s in_tokens out_tokens;
                    r = \<lparr>res_id = item_id item, res_prompt = item_prompt item, res_success = True,
                         res_output = Some output, res_error = None, res_attempts = attempts,
                         res_input_tokens = in_tokens, res_output_tokens = out_tokens,
                         res_cost_usd = py_round cost 8\<rparr>;
                    e2 = with_job jid (credit_success in_tokens out_tokens cost) e1 in
                (r, tally (m_cost_usd_update (ctr_inc (PyFlt cost)) \<circ>
                           m_tokens_update (ctr_inc (PyInt (in_tokens + out_tokens))) \<circ>
                           m_prompts_succeeded_update ctr_inc1) e2))))"

text \<open>The code after the \<^verbatim>\<open>try\<close> statement of \<^verbatim>\<open>_process\<close>.\<close>

definition complete_item ::
  "string \<Rightarrow> work_item \<Rightarrow> pyfloat \<Rightarrow> clock \<Rightarrow> inference_result \<times> engine \<Rightarrow> engine" where
  "complete_item jid item start clk re =
     (let (r, e) = re;
          e1 = with_job jid (\<lambda>j. j\<lparr>completed := completed j + 1\<rparr>) e;
          e2 = tally (m_inference_latency_update (his_observe (fl (clk_perf clk - start))) \<circ>
                      m_prompts_completed_update ctr_inc1) e1;
          e3 = with_job jid (\<lambda>j. j\<lparr>results := dict_set (item_seq item) r (results j)\<rparr>) e2 in
      case get_job e3 jid of
        None \<Rightarrow> e3
      | Some j \<Rightarrow>
          if total j \<le> completed j \<and> state j = RUNNING
          then refresh_gauges (finalize jid COMPLETED clk e3)
          else e3)"

text \<open>
  The rest of the worker's turn once \<^verbatim>\<open>infer_with_retry\<close> returned or raised: settle the item, then
  the worker's \<^verbatim>\<open>finally\<close>, then the loop head.
\<close>

definition settle :: "nat \<Rightarrow> string \<Rightarrow> work_item \<Rightarrow> pyfloat \<Rightarrow> clock \<Rightarrow> inference_result \<times> engine \<Rightarrow> engine" where
  "settle w jid item start clk re =
     set_phase w Ready (worker_release (complete_item jid item start clk re))"

text \<open>
  A reply is a value or one of the exceptions the providers raise; \<^verbatim>\<open>CancelledError\<close> reaches a worker only at a shutdown
  (\<^verbatim>\<open>cancel_worker\<close>), never as a reply.
\<close>

definition worker_reply ::
  "nat \<Rightarrow> string \<Rightarrow> work_item \<Rightarrow> int \<Rightarrow> pyfloat \<Rightarrow> string result \<Rightarrow> pyfloat \<Rightarrow> clock \<Rightarrow> engine \<Rightarrow> engine" where
  "worker_reply w jid item attempt start reply u clk e =
     (case retry_turn (eng_settings e) u attempt reply of
        Return output n \<Rightarrow> settle w jid item start clk (item_returned jid item output n e)
      | Raise exc \<Rightarrow> settle w jid item start clk (item_failed jid item exc e)
      | BackOff n delay \<Rightarrow> set_phase w (AwaitBackoff jid item n start) (on_retry jid e))"

subsection \<open>Shutdown\<close>

definition shutdown_begin :: "engine \<Rightarrow> engine" where
  "shutdown_begin e = e\<lparr>eng_accepting := False\<rparr>"

text \<open>
  \<^verbatim>\<open>CancelledError\<close> delivered to a worker: one that holds a permit gives it back in its \<^verbatim>\<open>finally\<close>
  block, a parked one leaves the condition's queue, one that has not run yet just ends.
\<close>

definition cancel_worker :: "nat \<Rightarrow> worker_phase \<Rightarrow> engine \<Rightarrow> engine" where
  "cancel_worker w ph e =
     (let e1 = (case ph of
                  Ready \<Rightarrow> e
                | Parked \<Rightarrow> e\<lparr>eng_limiter := lim_forget w (eng_limiter e)\<rparr>
                | _ \<Rightarrow> worker_release e) in
      e1\<lparr>eng_workers := dict_del w (eng_workers e1)\<rparr>)"

text \<open>
  The workers are cancelled in creation order. A parked worker woken by the \<^verbatim>\<open>release\<close> of an earlier
  one is ready by the time its turn comes, so its phase is read again; either way it ends without
  taking a permit.
\<close>

definition cancel_task :: "nat \<Rightarrow> engine \<Rightarrow> engine" where
  "cancel_task w e =
     (case dict_get (eng_workers e) w of None \<Rightarrow> e | Some ph \<Rightarrow> cancel_worker w ph e)"

definition cancel_workers :: "engine \<Rightarrow> engine" where
  "cancel_workers e = fold cancel_task (dict_keys (eng_workers e)) e"

text \<open>The loop over \<^verbatim>\<open>self.store.all()\<close> that ends \<^verbatim>\<open>shutdown\<close>.\<close>

definition interrupt_job :: "clock \<Rightarrow> job \<Rightarrow> engine \<Rightarrow> engine" where
  "interrupt_job clk j e =
     (if state j \<in> {PENDING, RUNNING}
      then finalize (job_id j) CANCELLED (clk\<lparr>clk_wall := clk_wall_each clk (job_id j)\<rparr>) e
      else e)"

definition interrupt_jobs :: "clock \<Rightarrow> engine \<Rightarrow> engine" where
  "interrupt_jobs clk e = fold (interrupt_job clk) (store_all (eng_store e)) e"

text \<open>The whole coroutine when the grace period ends before the workers do.\<close>

definition shutdown :: "clock \<Rightarrow> engine \<Rightarrow> engine" where
  "shutdown clk e = interrupt_jobs clk (cancel_workers (shutdown_begin e))"

subsection \<open>The event loop\<close>

datatype engine_event =
    Submit string "prompt_item list" priority "string option"
  | Replay string string "priority option"
  | Cancel string
  | RunWorker nat
  | TokenDue nat
  | ProviderReply nat "string result" pyfloat
  | BackoffOver nat
  | ShutdownBegin
  | CancelWorkers
  | InterruptJobs

definition fresh_id :: "string \<Rightarrow> engine \<Rightarrow> bool" where
  "fresh_id uid e \<longleftrightarrow> uid \<noteq> [] \<and> get_job e uid = None"

text \<open>
  The next state, or \<^term>\<open>None\<close> when the event cannot occur: \<^verbatim>\<open>uuid4\<close> does not repeat an id, and a
  worker resumes only from what it awaits. The graceful shutdown coroutine is three events, with
  whatever the workers do during the grace period between the first two.
\<close>

fun engine_step :: "(string \<Rightarrow> string) \<Rightarrow> clock \<Rightarrow> engine_event \<Rightarrow> engine \<Rightarrow> engine option" where
  "engine_step sha256 clk (Submit uid prompts prio key) e =
     (if fresh_id uid e then Some (snd (submit_with_idempotency sha256 clk uid prompts prio key e)) else None)"
| "engine_step sha256 clk (Replay uid jid prio) e =
     (if fresh_id uid e then Some (snd (replay_failed sha256 clk uid jid prio e)) else None)"
| "engine_step sha256 clk (Cancel jid) e = Some (snd (cancel clk jid e))"
| "engine_step sha256 clk (RunWorker w) e =
     (case dict_get (eng_workers e) w of Some Ready \<Rightarrow> Some (worker_run w clk e) | _ \<Rightarrow> None)"
| "engine_step sha256 clk (TokenDue w) e =
     (case dict_get (eng_workers e) w of
        Some (AwaitToken jid item n start) \<Rightarrow> Some (start_call w jid item n start clk e)
      | _ \<Rightarrow> None)"
| "engine_step sha256 clk (ProviderReply w reply u) e =
     (case dict_get (eng_workers e) w of
        Some (AwaitReply jid item n start) \<Rightarrow> Some (worker_reply w jid item n start reply u clk e)
      | _ \<Rightarrow> None)"
| "engine_step sha256 clk (BackoffOver w) e =
     (case dict_get (eng_workers e) w of
        Some (AwaitBackoff jid item n start) \<Rightarrow> Some (start_call w jid item (n + 1) start clk e)
      | _ \<Rightarrow> None)"
| "engine_step sha256 clk ShutdownBegin e = Some (shutdown_begin e)"
| "engine_step sha256 clk CancelWorkers e = (if eng_accepting e then None else Some (cancel_workers e))"
| "engine_step sha256 clk InterruptJobs e =
     (if eng_accepting e \<or> eng_workers e \<noteq> [] then None else Some (interrupt_jobs clk e))"

text \<open>A worker's event in relational form: what the worker awaits, and what it does next.\<close>

lemma engine_step_worker [simp]:
  "engine_step sha256 clk (RunWorker w) e = Some e' \<longleftrightarrow>
     dict_get (eng_workers e) w = Some Ready \<and> e' = worker_run w clk e"
  "engine_step sha256 clk (TokenDue w) e = Some e' \<longleftrightarrow>
     (\<exists>jid item n start. dict_get (eng_workers e) w = Some (AwaitToken jid item n start) \<and>
        e' = start_call w jid item n start clk e)"
  "engine_step sha256 clk (ProviderReply w reply u) e = Some e' \<longleftrightarrow>
     (\<exists>jid item n start. dict_get (eng_workers e) w = Some (AwaitReply jid item n start) \<and>
        e' = worker_reply w jid item n start reply u clk e)"
  "engine_step sha256 clk (BackoffOver w) e = Some e' \<longleftrightarrow>
     (\<exists>jid item n start. dict_get (eng_workers e) w = Some (AwaitBackoff jid item n start) \<and>
        e' = start_call w jid item (n + 1) start clk e)"
  by (auto split: option.splits worker_phase.splits)

declare engine_step.simps(4-7) [simp del]

text \<open>
  The ledger is a history variable: the work items each id was requested for. The jobs do not keep
  their prompts, so it is what the results are compared with.
\<close>

type_synonym ledger = "string \<Rightarrow> work_item list option"

fun ledger_step :: "engine_event \<Rightarrow> engine \<Rightarrow> ledger \<Rightarrow> ledger" where
  "ledger_step (Submit uid prompts prio key) e G = G(uid \<mapsto> work_items prompts)"
| "ledger_step (Replay uid jid prio) e G =
     (case get_job e jid of None \<Rightarrow> G | Some j \<Rightarrow> G(uid \<mapsto> work_items (replay_prompts j)))"
| "ledger_step _ e G = G"

inductive reachable :: "(string \<Rightarrow> string) \<Rightarrow> settings \<Rightarrow> engine \<Rightarrow> ledger \<Rightarrow> bool"
  for sha256 :: "string \<Rightarrow> string" and s :: settings where
  start: "reachable sha256 s (new_engine s m) (\<lambda>_. None)"
| step: "reachable sha256 s e G \<Longrightarrow> engine_step sha256 clk ev e = Some e' \<Longrightarrow>
    reachable sha256 s e' (ledger_step ev e G)"

inductive_cases reachable_stepE: "reachable sha256 s e G"

text \<open>A run of given events; \<^term>\<open>None\<close> when one of them cannot occur.\<close>

fun run_events ::
  "(string \<Rightarrow> string) \<Rightarrow> (clock \<times> engine_event) list \<Rightarrow> engine \<times> ledger \<Rightarrow> (engine \<times> ledger) option" where
  "run_events sha256 [] eG = Some eG"
| "run_events sha256 ((clk, ev) # evs) (e, G) =
     (case engine_step sha256 clk ev e of
        None \<Rightarrow> None
      | Some e' \<Rightarrow> run_events sha256 evs (e', ledger_step ev e G))"

lemma run_events_reachable:
  assumes "run_events sha256 evs (e, G) = Some (e', G')" "reachable sha256 s e G"
  shows "reachable sha256 s e' G'"
  using assms
proof (induction evs arbitrary: e G)
  case (Cons ce evs)
  obtain clk ev e1 where "ce = (clk, ev)" "engine_step sha256 clk ev e = Some e1"
    "run_events sha256 evs (e1, ledger_step ev e G) = Some (e', G')"
    using Cons.prems(1) by (cases ce) (auto split: option.splits)
  with Cons.IH reachable.step [OF Cons.prems(2)] show ?case by blast
qed simp

end
