(* ===== verification/Engine_Pool.thy ===== *)
theory Engine_Pool
  imports Engine
begin

text \<open>
  The worker pool and the concurrency gate together: permits in use are exactly the permits held
  by workers that process an item, the condition's queue is exactly the set of parked workers, and the
  pool never exceeds its configured size. \<^verbatim>\<open>pool_ok s k\<close> allows \<open>k\<close> permits to be held by the
  code between two assignments, so that the pieces of a turn compose.
\<close>

subsection \<open>Counting over the pool\<close>

fun holds :: "worker_phase \<Rightarrow> nat" where
  "holds Ready = 0"
| "holds Parked = 0"
| "holds (AwaitToken jid item n start) = 1"
| "holds (AwaitReply jid item n start) = 1"
| "holds (AwaitBackoff jid item n start) = 1"

definition permits_held :: "(nat, worker_phase) dict \<Rightarrow> nat" where
  "permits_held ws = (\<Sum>x\<leftarrow>ws. holds (snd x))"

definition wake :: "nat option \<Rightarrow> (nat, worker_phase) dict \<Rightarrow> (nat, worker_phase) dict" where
  "wake woken ws = (case woken of None \<Rightarrow> ws | Some v \<Rightarrow> dict_mutate v (\<lambda>_. Ready) ws)"

definition pool_ok :: "settings \<Rightarrow> int \<Rightarrow> limiter \<Rightarrow> (nat, worker_phase) dict \<Rightarrow> nat \<Rightarrow> bool" where
  "pool_ok s k l ws n \<longleftrightarrow>
     limiter_ok l \<and> lim_max l = global_max_concurrency s \<and>
     lim_min l = min (adaptive_min_concurrency s) (global_max_concurrency s) \<and>
     dict_ok ws \<and> (\<forall>w \<in> set (dict_keys ws). w < n) \<and>
     lim_in_use l = int (permits_held ws) + k \<and> lim_in_use l \<le> lim_max l \<and>
     distinct (lim_waiters l) \<and> (\<forall>w. w \<in> set (lim_waiters l) \<longleftrightarrow> dict_get ws w = Some Parked) \<and>
     int (length ws) \<le> max 0 (worker_pool_size s)"

lemma permits_held_mutate:
  "dict_ok ws \<Longrightarrow> dict_get ws w = Some ph \<Longrightarrow>
     permits_held (dict_mutate w (\<lambda>_. ph') ws) + holds ph = permits_held ws + holds ph'"
  using dict_sum_mutate [of ws w ph holds "\<lambda>_. ph'"] by (simp add: permits_held_def)

lemma permits_held_del:
  "dict_ok ws \<Longrightarrow> dict_get ws w = Some ph \<Longrightarrow> permits_held (dict_del w ws) + holds ph = permits_held ws"
  using dict_sum_del [of ws w ph holds] by (simp add: permits_held_def)

lemma length_dict_mutate [simp]: "length (dict_mutate k f d) = length d"
  by (metis dict_mutate_keys length_map)

lemma length_dict_del: "length (dict_del k d) \<le> length d"
  by (simp add: AList.delete_eq)

lemma pool_ok_acquire:
  assumes "pool_ok s k l ws n" "lim_acquire w l = (True, l')"
  shows "pool_ok s (k + 1) l' ws n"
  using assms by (auto simp: pool_ok_def lim_acquire_def limiter_ok_def split: if_splits)

lemma pool_ok_park:
  assumes "pool_ok s k l ws n" "lim_acquire w l = (False, l')" "dict_get ws w = Some Ready"
  shows "pool_ok s k l' (dict_mutate w (\<lambda>_. Parked) ws) n"
proof -
  have "permits_held (dict_mutate w (\<lambda>_. Parked) ws) = permits_held ws"
    using permits_held_mutate [of ws w Ready Parked] assms by (simp add: pool_ok_def)
  then show ?thesis
    using assms by (auto simp: pool_ok_def lim_acquire_def limiter_ok_def dict_simps split: if_splits)
qed

lemma pool_ok_release:
  assumes ok: "pool_ok s k l ws n" and rel: "lim_release l = (woken, l')"
  shows "pool_ok s (k - 1) l' (wake woken ws) n"
proof (cases "lim_waiters l")
  case Nil
  then show ?thesis
    using assms by (auto simp: pool_ok_def lim_release_def limiter_ok_def wake_def Let_def)
next
  case (Cons v vs)
  then have w: "woken = Some v" "lim_waiters l' = vs" "dict_get ws v = Some Parked"
    using assms by (auto simp: lim_release_def Let_def pool_ok_def)
  have "permits_held (wake woken ws) = permits_held ws"
    using permits_held_mutate [of ws v Parked Ready] ok w by (simp add: wake_def pool_ok_def)
  then show ?thesis
    using assms w Cons
    by (auto simp: pool_ok_def lim_release_def limiter_ok_def Let_def wake_def dict_simps)
qed

lemma pool_ok_phase:
  assumes ok: "pool_ok s k l ws n" and ph: "dict_get ws w = Some ph" "ph \<noteq> Parked" "ph' \<noteq> Parked"
  shows "pool_ok s (k + int (holds ph) - int (holds ph')) l (dict_mutate w (\<lambda>_. ph') ws) n"
proof -
  have "permits_held (dict_mutate w (\<lambda>_. ph') ws) + holds ph = permits_held ws + holds ph'"
    using permits_held_mutate [of ws w ph ph'] ok ph by (simp add: pool_ok_def)
  then show ?thesis using ok ph by (auto simp: pool_ok_def dict_simps)
qed

lemma pool_ok_exit:
  assumes ok: "pool_ok s k l ws n" and ph: "dict_get ws w = Some ph" "ph \<noteq> Parked"
  shows "pool_ok s (k + int (holds ph)) l (dict_del w ws) n"
proof -
  have "permits_held (dict_del w ws) + holds ph = permits_held ws"
    using permits_held_del [of ws w ph] ok ph by (simp add: pool_ok_def)
  then show ?thesis
    using ok ph length_dict_del [of w ws]
    by (auto simp: pool_ok_def dict_simps AList.delete_keys distinct_removeAll)
qed

lemma pool_ok_forget:
  assumes ok: "pool_ok s k l ws n" and ph: "dict_get ws w = Some Parked"
  shows "pool_ok s k (lim_forget w l) (dict_del w ws) n"
proof -
  have "permits_held (dict_del w ws) = permits_held ws"
    using permits_held_del [of ws w Parked] ok ph by (simp add: pool_ok_def)
  then show ?thesis
    using ok ph length_dict_del [of w ws]
    by (auto simp: pool_ok_def dict_simps AList.delete_keys lim_forget_def limiter_ok_def distinct_removeAll)
qed

lemma pool_ok_adjust:
  assumes "pool_ok s k l ws n"
  shows "pool_ok s k (record_throttle l) ws n" "pool_ok s k (record_success l) ws n"
  using assms record_throttle_ok [of l] record_success_ok [of l] by (auto simp: pool_ok_def)

lemma pool_ok_spawn:
  assumes ok: "pool_ok s k l ws n" and len: "int (length ws) + int m \<le> max 0 (worker_pool_size s)"
  shows "pool_ok s k l (ws @ map (\<lambda>w. (w, Ready)) [n..<n + m]) (n + m)"
proof -
  have fresh: "\<And>w. n \<le> w \<Longrightarrow> w \<notin> set (dict_keys ws)" using ok by (auto simp: pool_ok_def)
  have keys: "dict_keys (map (\<lambda>w. (w, Ready)) [n..<n + m]) = [n..<n + m]" by (simp add: comp_def)
  have "permits_held (ws @ map (\<lambda>w. (w, Ready)) [n..<n + m]) = permits_held ws"
    by (simp add: permits_held_def comp_def)
  moreover have "dict_get (map (\<lambda>w. (w, Ready)) [n..<n + m]) w \<noteq> Some Parked" for w
    by (auto dest!: dict_get_mem)
  then have "dict_get (ws @ map (\<lambda>w. (w, Ready)) [n..<n + m]) w = Some Parked \<longleftrightarrow>
      dict_get ws w = Some Parked" for w
    using fresh by (auto simp: map_of_append map_add_Some_iff dest!: dict_get_mem)
  ultimately show ?thesis
    using ok len fresh unfolding pool_ok_def
    by (auto simp: keys simp del: map_map)
qed

lemma woken_parked:
  assumes "pool_ok s k l ws n" "lim_release l = (Some v, l')"
  shows "dict_get ws v = Some Parked"
  using assms by (auto simp: lim_release_def Let_def pool_ok_def split: list.splits)

lemma wake_get:
  assumes "pool_ok s k l ws n" "lim_release l = (woken, l')"
  shows "dict_get (wake woken ws) w = (if Some w = woken then Some Ready else dict_get ws w)"
  using woken_parked [of s k l ws n] assms by (cases woken) (auto simp: wake_def dict_simps)

lemma wake_keeps:
  assumes "pool_ok s k l ws n" "lim_release l = (woken, l')" "dict_get ws w = Some ph" "ph \<noteq> Parked"
  shows "dict_get (wake woken ws) w = Some ph"
  using wake_get [OF assms(1,2), of w] woken_parked [OF assms(1), of w l'] assms(2-) by auto

subsection \<open>Every piece of engine code keeps the pool consistent\<close>

abbreviation pool_inv :: "engine \<Rightarrow> bool" where
  "pool_inv e \<equiv> pool_ok (eng_settings e) 0 (eng_limiter e) (eng_workers e) (eng_next_worker e)"

abbreviation pool_inv_plus :: "int \<Rightarrow> engine \<Rightarrow> bool" where
  "pool_inv_plus k e \<equiv> pool_ok (eng_settings e) k (eng_limiter e) (eng_workers e) (eng_next_worker e)"

named_theorems frame \<open>fields that a piece of engine code leaves alone\<close>

lemma refresh_gauges_frame [frame]:
  "eng_settings (refresh_gauges e) = eng_settings e" "eng_store (refresh_gauges e) = eng_store e"
  "eng_scheduler (refresh_gauges e) = eng_scheduler e" "eng_limiter (refresh_gauges e) = eng_limiter e"
  "eng_bucket (refresh_gauges e) = eng_bucket e" "eng_active (refresh_gauges e) = eng_active e"
  "eng_workers (refresh_gauges e) = eng_workers e" "eng_next_worker (refresh_gauges e) = eng_next_worker e"
  "eng_accepting (refresh_gauges e) = eng_accepting e"
  by (simp_all add: refresh_gauges_def)

lemma finalize_frame [frame]:
  "eng_settings (finalize jid st clk e) = eng_settings e"
  "eng_store (finalize jid st clk e) = store_mutate jid (finish_job st (clk_wall clk)) (eng_store e)"
  "eng_scheduler (finalize jid st clk e) = eng_scheduler e"
  "eng_limiter (finalize jid st clk e) = eng_limiter e"
  "eng_bucket (finalize jid st clk e) = eng_bucket e"
  "eng_active (finalize jid st clk e) = removeAll jid (eng_active e)"
  "eng_workers (finalize jid st clk e) = eng_workers e"
  "eng_next_worker (finalize jid st clk e) = eng_next_worker e"
  "eng_accepting (finalize jid st clk e) = eng_accepting e"
  by (simp_all add: finalize_def Let_def split: option.split)

lemma set_phase_frame [frame]:
  "eng_settings (set_phase w ph e) = eng_settings e" "eng_store (set_phase w ph e) = eng_store e"
  "eng_scheduler (set_phase w ph e) = eng_scheduler e" "eng_limiter (set_phase w ph e) = eng_limiter e"
  "eng_bucket (set_phase w ph e) = eng_bucket e" "eng_active (set_phase w ph e) = eng_active e"
  "eng_workers (set_phase w ph e) = dict_mutate w (\<lambda>_. ph) (eng_workers e)"
  "eng_next_worker (set_phase w ph e) = eng_next_worker e"
  "eng_accepting (set_phase w ph e) = eng_accepting e"
  by (simp_all add: set_phase_def)

lemma worker_release_frame [frame]:
  "eng_settings (worker_release e) = eng_settings e" "eng_store (worker_release e) = eng_store e"
  "eng_scheduler (worker_release e) = eng_scheduler e"
  "eng_limiter (worker_release e) = snd (lim_release (eng_limiter e))"
  "eng_bucket (worker_release e) = eng_bucket e" "eng_active (worker_release e) = eng_active e"
  "eng_workers (worker_release e) = wake (fst (lim_release (eng_limiter e))) (eng_workers e)"
  "eng_next_worker (worker_release e) = eng_next_worker e"
  "eng_accepting (worker_release e) = eng_accepting e"
  by (simp_all add: worker_release_def wake_def frame Let_def split: prod.split option.split)

lemma on_retry_frame [frame]:
  "eng_settings (on_retry jid e) = eng_settings e"
  "eng_store (on_retry jid e) = store_mutate jid (\<lambda>j. j\<lparr>retries := retries j + 1\<rparr>) (eng_store e)"
  "eng_scheduler (on_retry jid e) = eng_scheduler e"
  "eng_limiter (on_retry jid e) = record_throttle (eng_limiter e)"
  "eng_bucket (on_retry jid e) = eng_bucket e" "eng_active (on_retry jid e) = eng_active e"
  "eng_workers (on_retry jid e) = eng_workers e" "eng_next_worker (on_retry jid e) = eng_next_worker e"
  "eng_accepting (on_retry jid e) = eng_accepting e"
  by (simp_all add: on_retry_def Let_def)

lemma item_failed_frame [frame]:
  "eng_settings (snd (item_failed jid it exc e)) = eng_settings e"
  "eng_store (snd (item_failed jid it exc e)) = store_mutate jid (\<lambda>j. j\<lparr>failed := failed j + 1\<rparr>) (eng_store e)"
  "eng_scheduler (snd (item_failed jid it exc e)) = eng_scheduler e"
  "eng_limiter (snd (item_failed jid it exc e)) = eng_limiter e"
  "eng_bucket (snd (item_failed jid it exc e)) = eng_bucket e"
  "eng_active (snd (item_failed jid it exc e)) = eng_active e"
  "eng_workers (snd (item_failed jid it exc e)) = eng_workers e"
  "eng_next_worker (snd (item_failed jid it exc e)) = eng_next_worker e"
  "eng_accepting (snd (item_failed jid it exc e)) = eng_accepting e"
  by (simp_all add: item_failed_def Let_def)

lemma item_returned_frame [frame]:
  "eng_settings (snd (item_returned jid it out n e)) = eng_settings e"
  "eng_scheduler (snd (item_returned jid it out n e)) = eng_scheduler e"
  "eng_limiter (snd (item_returned jid it out n e)) = record_success (eng_limiter e)"
  "eng_bucket (snd (item_returned jid it out n e)) = eng_bucket e"
  "eng_active (snd (item_returned jid it out n e)) = eng_active e"
  "eng_workers (snd (item_returned jid it out n e)) = eng_workers e"
  "eng_next_worker (snd (item_returned jid it out n e)) = eng_next_worker e"
  "eng_accepting (snd (item_returned jid it out n e)) = eng_accepting e"
  by (simp_all add: item_returned_def frame Let_def split: sum.split)

lemma complete_item_frame [frame]:
  "eng_settings (complete_item jid it start clk re) = eng_settings (snd re)"
  "eng_scheduler (complete_item jid it start clk re) = eng_scheduler (snd re)"
  "eng_limiter (complete_item jid it start clk re) = eng_limiter (snd re)"
  "eng_bucket (complete_item jid it start clk re) = eng_bucket (snd re)"
  "eng_workers (complete_item jid it start clk re) = eng_workers (snd re)"
  "eng_next_worker (complete_item jid it start clk re) = eng_next_worker (snd re)"
  "eng_accepting (complete_item jid it start clk re) = eng_accepting (snd re)"
  by (simp_all add: complete_item_def frame Let_def case_prod_beta split: option.split)

lemma ensure_workers_frame [frame]:
  "eng_settings (ensure_workers e) = eng_settings e" "eng_store (ensure_workers e) = eng_store e"
  "eng_scheduler (ensure_workers e) = eng_scheduler e" "eng_limiter (ensure_workers e) = eng_limiter e"
  "eng_bucket (ensure_workers e) = eng_bucket e" "eng_active (ensure_workers e) = eng_active e"
  "eng_accepting (ensure_workers e) = eng_accepting e"
  by (simp_all add: ensure_workers_def Let_def)

lemma start_call_cases:
  obtains b where "start_call w jid it n start clk e =
      set_phase w (AwaitReply jid it n start) (e\<lparr>eng_bucket := b\<rparr>)" "tb_pass 1 (clk_loop clk) (eng_bucket e) = (None, b)"
  | t b where "start_call w jid it n start clk e =
      set_phase w (AwaitToken jid it n start) (e\<lparr>eng_bucket := b\<rparr>)" "tb_pass 1 (clk_loop clk) (eng_bucket e) = (Some t, b)"
  by (cases "tb_pass 1 (clk_loop clk) (eng_bucket e)" rule: prod.exhaust; cases "fst (tb_pass 1 (clk_loop clk) (eng_bucket e))")
    (auto simp: start_call_def)

lemma start_call_frame [frame]:
  "eng_settings (start_call w jid it n start clk e) = eng_settings e"
  "eng_store (start_call w jid it n start clk e) = eng_store e"
  "eng_scheduler (start_call w jid it n start clk e) = eng_scheduler e"
  "eng_limiter (start_call w jid it n start clk e) = eng_limiter e"
  "eng_active (start_call w jid it n start clk e) = eng_active e"
  "eng_next_worker (start_call w jid it n start clk e) = eng_next_worker e"
  "eng_accepting (start_call w jid it n start clk e) = eng_accepting e"
  by (rule start_call_cases [of w jid it n start clk e]; simp add: frame)+

lemma start_call_pool:
  assumes "pool_inv_plus k e" "dict_get (eng_workers e) w = Some ph" "ph \<noteq> Parked"
  shows "pool_inv_plus (k + int (holds ph) - 1) (start_call w jid it n start clk e)"
  by (rule start_call_cases [of w jid it n start clk e])
    (use pool_ok_phase [OF assms, of "AwaitReply jid it n start"]
      pool_ok_phase [OF assms, of "AwaitToken jid it n start"] in \<open>simp_all add: frame\<close>)

lemma worker_release_pool: "pool_inv_plus k e \<Longrightarrow> pool_inv_plus (k - 1) (worker_release e)"
  using pool_ok_release [of "eng_settings e" k "eng_limiter e" "eng_workers e" "eng_next_worker e"]
  by (simp add: frame)

lemma worker_release_keeps:
  assumes "pool_inv_plus k e" "dict_get (eng_workers e) w = Some ph" "ph \<noteq> Parked"
  shows "dict_get (eng_workers (worker_release e)) w = Some ph"
  using wake_keeps [OF assms(1) prod.collapse [symmetric] assms(2,3)] by (simp add: frame)

lemma worker_run_pool:
  assumes ok: "pool_inv e" and w: "dict_get (eng_workers e) w = Some Ready"
  shows "pool_inv (worker_run w clk e)"
proof -
  obtain b l where acq: "lim_acquire w (eng_limiter e) = (b, l)" by fastforce
  obtain got sc where pop: "pop (eng_scheduler e) = (got, sc)" by fastforce
  show ?thesis
  proof (cases b)
    case False
    then show ?thesis
      using pool_ok_park [OF ok _ w] acq by (simp add: worker_run_def frame)
  next
    case True
    have plus: "pool_inv_plus 1 (tally f (e\<lparr>eng_limiter := l, eng_scheduler := sc\<rparr>))" for f
      using pool_ok_acquire [OF ok] acq True by simp
    show ?thesis
    proof (cases got)
      case None
      let ?e = "worker_release (e\<lparr>eng_limiter := l, eng_scheduler := sc\<rparr>)"
      have plus0: "pool_inv_plus 1 (e\<lparr>eng_limiter := l, eng_scheduler := sc\<rparr>)"
        using pool_ok_acquire [OF ok] acq True by simp
      have "pool_inv ?e" using worker_release_pool [OF plus0] by simp
      moreover have "dict_get (eng_workers ?e) w = Some Ready"
        using worker_release_keeps [OF plus0, of w Ready] w by simp
      ultimately show ?thesis
        using pool_ok_exit [of "eng_settings ?e" 0 "eng_limiter ?e" "eng_workers ?e" "eng_next_worker ?e" w Ready]
        by (simp add: worker_run_def acq True pop None Let_def)
    next
      case (Some ji)
      then show ?thesis
        using worker_release_pool [OF plus] start_call_pool [OF plus, where w = w and ph = Ready] w
        by (cases ji) (auto simp: worker_run_def acq True pop process_start_def split: option.split)
    qed
  qed
qed

lemma settle_pool:
  assumes ok: "pool_inv (snd re)" and w: "dict_get (eng_workers (snd re)) w = Some ph" "holds ph = 1"
  shows "pool_inv (settle w jid it start clk re)"
proof -
  let ?e = "complete_item jid it start clk re"
  have np: "ph \<noteq> Parked" using w(2) by auto
  have c: "pool_inv_plus 0 ?e" using ok by (simp add: frame)
  have "pool_inv_plus (- 1) (worker_release ?e)" using worker_release_pool [OF c] by simp
  moreover have "dict_get (eng_workers (worker_release ?e)) w = Some ph"
    using worker_release_keeps [OF c _ np] w(1) by (simp add: frame)
  ultimately show ?thesis
    using pool_ok_phase [of "eng_settings (worker_release ?e)" "- 1" "eng_limiter (worker_release ?e)"
        "eng_workers (worker_release ?e)" "eng_next_worker (worker_release ?e)" w ph Ready] np w(2)
    by (simp add: settle_def set_phase_frame)
qed

lemma worker_reply_pool:
  assumes ok: "pool_inv e" and w: "dict_get (eng_workers e) w = Some (AwaitReply jid it n start)"
  shows "pool_inv (worker_reply w jid it n start reply u clk e)"
proof (cases "retry_turn (eng_settings e) u n reply")
  case (Return out m)
  have "pool_inv (snd (item_returned jid it out m e))" using pool_ok_adjust [OF ok] by (simp add: frame)
  with Return w show ?thesis by (auto simp: worker_reply_def frame intro: settle_pool)
next
  case (Raise exc)
  have "pool_inv (snd (item_failed jid it exc e))" using ok by (simp add: frame)
  with Raise w show ?thesis by (auto simp: worker_reply_def frame intro: settle_pool)
next
  case (BackOff m d)
  then show ?thesis
    using pool_ok_phase [OF pool_ok_adjust(1) [OF ok] w, of "AwaitBackoff jid it m start"]
    by (simp add: worker_reply_def frame)
qed

lemma ensure_workers_pool:
  assumes "pool_inv_plus k e"
  shows "pool_inv_plus k (ensure_workers e)"
proof -
  have "int (length (eng_workers e)) \<le> max 0 (worker_pool_size (eng_settings e))"
    using assms by (simp add: pool_ok_def)
  then show ?thesis
    using pool_ok_spawn [OF assms] by (auto simp: ensure_workers_def Let_def)
qed

lemma cancel_worker_pool:
  assumes ok: "pool_inv e" and w: "dict_get (eng_workers e) w = Some ph"
  shows "pool_inv (cancel_worker w ph e)"
proof (cases "ph = Ready \<or> ph = Parked")
  case True
  then show ?thesis
    using pool_ok_exit [OF ok w] pool_ok_forget [OF ok] w by (auto simp: cancel_worker_def)
next
  case False
  let ?e = "worker_release e"
  have holds: "holds ph = 1" using False by (cases ph) auto
  have "pool_inv_plus (- 1) ?e" using worker_release_pool [OF ok] by simp
  moreover have "dict_get (eng_workers ?e) w = Some ph"
    using worker_release_keeps [OF ok w] False by simp
  ultimately have "pool_inv (?e\<lparr>eng_workers := dict_del w (eng_workers ?e)\<rparr>)"
    using pool_ok_exit [of "eng_settings ?e" "- 1" "eng_limiter ?e" "eng_workers ?e" "eng_next_worker ?e" w ph]
      False holds by simp
  with False show ?thesis by (cases ph) (auto simp: cancel_worker_def Let_def)
qed

subsection \<open>Submissions, by their effect\<close>

lemma register_job_frame [frame]:
  "eng_settings (register_job clk uid ps prio key fp e) = eng_settings e"
  "eng_store (register_job clk uid ps prio key fp e) =
     store_create (submitted_job clk uid ps prio key fp) (eng_store e)"
  "eng_scheduler (register_job clk uid ps prio key fp e) =
     add_job uid (work_items ps) prio (eng_scheduler e)"
  "eng_limiter (register_job clk uid ps prio key fp e) = eng_limiter e"
  "eng_bucket (register_job clk uid ps prio key fp e) = eng_bucket e"
  "eng_active (register_job clk uid ps prio key fp e) = List.insert uid (eng_active e)"
  "eng_accepting (register_job clk uid ps prio key fp e) = eng_accepting e"
  by (simp_all add: register_job_def frame Let_def)

text \<open>
  A submission registers a new job, under the conditions the code checks, or changes nothing but
  a counter.
\<close>

lemma submit_effect:
  obtains f where "snd (submit_with_idempotency sha256 clk uid ps prio key e) = tally f e"
  | fp where "snd (submit_with_idempotency sha256 clk uid ps prio key e) = register_job clk uid ps prio key fp e"
    "eng_accepting e" "active_jobs e < max_active_jobs (eng_settings e)"
    "pending (eng_scheduler e) + int (length ps) \<le> max_queue_size (eng_settings e)"
    "fp = fingerprint sha256 ps prio"
    "\<And>k. key = Some k \<Longrightarrow> k \<noteq> [] \<Longrightarrow> find_by_idempotency_key (eng_store e) k = None"
proof -
  let ?fp = "fingerprint sha256 ps prio"
  consider "\<not> eng_accepting e"
    | k j where "eng_accepting e" "key = Some k" "k \<noteq> []" "find_by_idempotency_key (eng_store e) k = Some j"
    | "eng_accepting e" "\<And>k. key = Some k \<Longrightarrow> k \<noteq> [] \<Longrightarrow> find_by_idempotency_key (eng_store e) k = None"
    by (metis option.exhaust)
  then show thesis
  proof cases
    case 1
    then have "snd (submit_with_idempotency sha256 clk uid ps prio key e) = tally id e"
      by (simp add: submit_with_idempotency_def)
    then show thesis by (rule that(1))
  next
    case 2
    then have "snd (submit_with_idempotency sha256 clk uid ps prio key e) =
        tally (if request_fingerprint j \<noteq> Some ?fp then id else m_idempotent_reuse_update ctr_inc1) e"
      by (simp add: submit_with_idempotency_def Let_def)
    then show thesis by (rule that(1))
  next
    case 3
    then have "submit_with_idempotency sha256 clk uid ps prio key e = admit clk uid ps prio key ?fp e"
      by (cases key) (simp_all add: submit_with_idempotency_def Let_def)
    then have step: "snd (submit_with_idempotency sha256 clk uid ps prio key e) =
        (if max_active_jobs (eng_settings e) \<le> active_jobs e \<or>
            max_queue_size (eng_settings e) < pending (eng_scheduler e) + int (length ps)
         then tally (m_jobs_rejected_update ctr_inc1) e else register_job clk uid ps prio key ?fp e)"
      by (simp add: admit_def Let_def)
    show thesis
    proof (cases "max_active_jobs (eng_settings e) \<le> active_jobs e \<or>
        max_queue_size (eng_settings e) < pending (eng_scheduler e) + int (length ps)")
      case True
      with step show thesis by (intro that(1)) simp
    next
      case False
      with step 3 show thesis by (intro that(2) [of ?fp]) auto
    qed
  qed
qed

lemma replay_effect:
  "snd (replay_failed sha256 clk uid jid prio e) = e \<or>
   (\<exists>j p. get_job e jid = Some j \<and> snd (replay_failed sha256 clk uid jid prio e) =
      snd (submit_with_idempotency sha256 clk uid (replay_prompts j) p None e))"
  by (auto simp: replay_failed_def submit_def split: option.split)

lemma cancel_effect:
  "snd (cancel clk jid e) = e \<or>
   (\<exists>j f. get_job e jid = Some j \<and> \<not> terminal (state j) \<and>
      snd (cancel clk jid e) = tally f (finalize jid CANCELLED clk
        (e\<lparr>eng_scheduler := snd (remove_job jid (eng_scheduler e))\<rparr>)))"
  by (auto simp: cancel_def refresh_gauges_def Let_def comp_def split: option.split)

lemma submit_pool:
  assumes "pool_inv e"
  shows "pool_inv (snd (submit_with_idempotency sha256 clk uid ps prio key e))"
proof -
  have "pool_inv (register_job clk uid ps prio key fp e)" for fp
    unfolding register_job_def Let_def
    by (intro ensure_workers_pool) (use assms in \<open>simp add: frame\<close>)
  then show ?thesis
    by (rule_tac submit_effect [of sha256 clk uid ps prio key e]) (use assms in auto)
qed

subsection \<open>Cancelling the whole pool\<close>

lemma cancel_worker_workers:
  assumes "pool_inv e" "dict_get (eng_workers e) w = Some ph"
  shows "dict_keys (eng_workers (cancel_worker w ph e)) = removeAll w (dict_keys (eng_workers e))"
proof -
  have "dict_keys (wake woken ws) = dict_keys ws" for woken ws
    by (simp add: wake_def split: option.split)
  then show ?thesis
    by (cases ph) (simp_all add: cancel_worker_def frame AList.delete_keys Let_def)
qed

lemma cancel_tasks_pool:
  assumes "pool_inv e" "set (dict_keys (eng_workers e)) \<subseteq> set us"
  shows "pool_inv (fold cancel_task us e) \<and> eng_workers (fold cancel_task us e) = []"
  using assms
proof (induction us arbitrary: e)
  case (Cons w us)
  have "pool_inv (cancel_task w e) \<and> set (dict_keys (eng_workers (cancel_task w e))) \<subseteq> set us"
  proof (cases "dict_get (eng_workers e) w")
    case None
    then have "w \<notin> set (dict_keys (eng_workers e))" by (simp only: dict_get_None_keys not_False_eq_True)
    with None show ?thesis using Cons.prems by (auto simp: cancel_task_def)
  next
    case (Some ph)
    then show ?thesis
      using Cons.prems cancel_worker_workers [OF _ Some]
      by (auto simp del: set_map simp: cancel_task_def cancel_worker_pool)
  qed
  with Cons.IH [of "cancel_task w e"] show ?case unfolding fold_simps by blast
qed simp

lemma cancel_workers_pool:
  assumes "pool_inv e"
  shows "pool_inv (cancel_workers e)" "eng_workers (cancel_workers e) = []"
  using cancel_tasks_pool [OF assms order_refl] unfolding cancel_workers_def by blast+

lemma cancel_worker_frame [frame]:
  "eng_settings (cancel_worker w ph e) = eng_settings e"
  "eng_store (cancel_worker w ph e) = eng_store e"
  "eng_scheduler (cancel_worker w ph e) = eng_scheduler e"
  "eng_active (cancel_worker w ph e) = eng_active e"
  "eng_accepting (cancel_worker w ph e) = eng_accepting e"
  by (cases ph; simp add: cancel_worker_def frame Let_def)+

lemma cancel_task_frame [frame]:
  "eng_settings (cancel_task w e) = eng_settings e"
  "eng_store (cancel_task w e) = eng_store e"
  "eng_scheduler (cancel_task w e) = eng_scheduler e"
  "eng_active (cancel_task w e) = eng_active e"
  "eng_accepting (cancel_task w e) = eng_accepting e"
  by (simp_all add: cancel_task_def frame split: option.split)

lemma fold_keeps: "(\<And>x s. g (f x s) = g s) \<Longrightarrow> g (fold f xs s) = g s"
  by (induction xs arbitrary: s) auto

lemma cancel_workers_frame [frame]:
  "eng_settings (cancel_workers e) = eng_settings e"
  "eng_store (cancel_workers e) = eng_store e"
  "eng_scheduler (cancel_workers e) = eng_scheduler e"
  "eng_active (cancel_workers e) = eng_active e"
  "eng_accepting (cancel_workers e) = eng_accepting e"
  unfolding cancel_workers_def by (rule fold_keeps, simp add: frame)+

lemma interrupt_job_frame [frame]:
  "eng_settings (interrupt_job clk j e) = eng_settings e"
  "eng_scheduler (interrupt_job clk j e) = eng_scheduler e"
  "eng_limiter (interrupt_job clk j e) = eng_limiter e"
  "eng_bucket (interrupt_job clk j e) = eng_bucket e"
  "eng_workers (interrupt_job clk j e) = eng_workers e"
  "eng_next_worker (interrupt_job clk j e) = eng_next_worker e"
  "eng_accepting (interrupt_job clk j e) = eng_accepting e"
  by (simp_all add: interrupt_job_def frame)

lemma interrupt_jobs_frame [frame]:
  "eng_settings (interrupt_jobs clk e) = eng_settings e"
  "eng_scheduler (interrupt_jobs clk e) = eng_scheduler e"
  "eng_limiter (interrupt_jobs clk e) = eng_limiter e"
  "eng_bucket (interrupt_jobs clk e) = eng_bucket e"
  "eng_workers (interrupt_jobs clk e) = eng_workers e"
  "eng_next_worker (interrupt_jobs clk e) = eng_next_worker e"
  "eng_accepting (interrupt_jobs clk e) = eng_accepting e"
  unfolding interrupt_jobs_def by (rule fold_keeps, simp add: frame)+

subsection \<open>Every reachable state\<close>

definition gate_settings_ok :: "settings \<Rightarrow> bool" where
  "gate_settings_ok s \<longleftrightarrow> 0 \<le> adaptive_min_concurrency s \<and> 0 \<le> global_max_concurrency s \<and>
     global_max_concurrency s \<le> 2 ^ 53 \<and> adaptive_decrease_factor s \<le> 1"

lemma new_engine_pool: "gate_settings_ok s \<Longrightarrow> pool_inv (new_engine s m)"
  using new_limiter_ok [of "adaptive_min_concurrency s" "global_max_concurrency s"
      "adaptive_decrease_factor s" "global_max_concurrency s" "adaptive_increase_after s"]
  by (simp add: new_engine_def pool_ok_def permits_held_def gate_settings_ok_def Let_def)
    (simp add: new_limiter_def Let_def)

lemma engine_step_pool:
  assumes ok: "pool_inv e" and st: "engine_step sha256 clk ev e = Some e'"
  shows "pool_inv e'"
proof (cases ev)
  case (Submit uid ps prio key)
  then show ?thesis using st submit_pool [OF ok] by (auto split: if_splits)
next
  case (Replay uid jid prio)
  then show ?thesis
    using st ok submit_pool [OF ok] replay_effect [of sha256 clk uid jid prio e] by (auto split: if_splits)
next
  case (Cancel jid)
  then show ?thesis using st ok cancel_effect [of clk jid e] by (auto simp: frame)
next
  case (RunWorker w)
  then show ?thesis
    using st worker_run_pool [OF ok] by auto
next
  case (TokenDue w)
  then show ?thesis
    using st start_call_pool [OF ok] by fastforce
next
  case (ProviderReply w reply u)
  then show ?thesis
    using st worker_reply_pool [OF ok] by auto
next
  case (BackoffOver w)
  then show ?thesis
    using st start_call_pool [OF ok] by fastforce
next
  case ShutdownBegin
  then show ?thesis using st ok by (auto simp: shutdown_begin_def)
next
  case CancelWorkers
  then show ?thesis using st cancel_workers_pool [OF ok] by (auto split: if_splits)
next
  case InterruptJobs
  then show ?thesis using st ok by (auto simp: frame split: if_splits)
qed

lemma engine_step_settings:
  assumes "engine_step sha256 clk ev e = Some e'"
  shows "eng_settings e' = eng_settings e"
proof -
  have sub: "eng_settings (snd (submit_with_idempotency sha256 clk uid ps prio key e)) = eng_settings e"
    for uid ps prio key
    by (rule submit_effect [of sha256 clk uid ps prio key e]) (simp_all add: frame)
  have reply: "eng_settings (worker_reply w jid it n start r u clk e) = eng_settings e" for w jid it n start r u
    by (simp add: worker_reply_def settle_def frame split: retry_decision.split)
  have run: "eng_settings (worker_run w clk e) = eng_settings e" for w
    by (simp add: worker_run_def process_start_def frame Let_def split: option.split prod.split bool.split)
  show ?thesis
  proof (cases ev)
    case (Replay uid jid prio)
    then show ?thesis
      using assms sub replay_effect [of sha256 clk uid jid prio e] by (auto split: if_splits)
  next
    case (Cancel jid)
    then show ?thesis using assms cancel_effect [of clk jid e] by (auto simp: frame)
  qed (use assms sub in \<open>auto simp: frame run reply shutdown_begin_def split: if_splits\<close>)
qed

lemma reachable_settings: "reachable sha256 s e G \<Longrightarrow> eng_settings e = s"
  by (induction rule: reachable.induct) (auto simp: new_engine_def engine_step_settings Let_def)

lemma reachable_pool: "reachable sha256 s e G \<Longrightarrow> gate_settings_ok s \<Longrightarrow> pool_inv e"
  by (induction rule: reachable.induct) (auto intro: new_engine_pool engine_step_pool)

end
