(* ===== verification/Engine_Book.thy ===== *)
theory Engine_Book
  imports Engine_Pool
begin

text \<open>
  The accounting of prompts. Every item of an accepted job is in exactly one of three places: queued
  in the scheduler, held by a worker, or settled in the job's results; the counters of the job are the
  sizes of those sets, and the result filed under a sequence number is the result of the prompt
  submitted at that position. \<^verbatim>\<open>book_ok\<close> states this for a ledger of submissions; the lemmas show
  that each kind of change the engine makes keeps it.
\<close>

subsection \<open>The invariant\<close>

fun phase_item :: "worker_phase \<Rightarrow> (string \<times> work_item) option" where
  "phase_item (AwaitToken jid it n start) = Some (jid, it)"
| "phase_item (AwaitReply jid it n start) = Some (jid, it)"
| "phase_item (AwaitBackoff jid it n start) = Some (jid, it)"
| "phase_item Ready = None"
| "phase_item Parked = None"

definition seqs_for :: "string \<Rightarrow> worker_phase \<Rightarrow> nat multiset" where
  "seqs_for jid ph =
     (case phase_item ph of Some (j, it) \<Rightarrow> if j = jid then {#item_seq it#} else {#} | None \<Rightarrow> {#})"

definition flying :: "string \<Rightarrow> (nat, worker_phase) dict \<Rightarrow> nat multiset" where
  "flying jid ws = (\<Sum>x\<leftarrow>ws. seqs_for jid (snd x))"

definition queued_seqs :: "string \<Rightarrow> fair_scheduler \<Rightarrow> nat multiset" where
  "queued_seqs jid sc = image_mset item_seq (mset (items_of sc jid))"

definition valid_item :: "ledger \<Rightarrow> string \<Rightarrow> work_item \<Rightarrow> bool" where
  "valid_item G jid it \<longleftrightarrow> (\<exists>its. G jid = Some its \<and> item_seq it < length its \<and> its ! item_seq it = it)"

definition count_success :: "bool \<Rightarrow> job \<Rightarrow> int" where
  "count_success b j = int (length (filter (\<lambda>x. res_success (snd x) = b) (results j)))"

definition job_inv :: "work_item list \<Rightarrow> job \<Rightarrow> bool" where
  "job_inv its j \<longleftrightarrow>
     total j = int (length its) \<and> dict_ok (results j) \<and>
     (\<forall>k r. (k, r) \<in> set (results j) \<longrightarrow>
        k < length its \<and> res_id r = item_id (its ! k) \<and> res_prompt r = item_prompt (its ! k)) \<and>
     completed j = int (length (results j)) \<and>
     succeeded j = count_success True j \<and> failed j = count_success False j \<and>
     state j \<in> {RUNNING, COMPLETED, CANCELLED} \<and>
     (state j = COMPLETED \<longrightarrow> completed j = total j) \<and>
     (state j = RUNNING \<longrightarrow> completed j < total j \<or> total j = 0) \<and>
     (finished_at j = None \<longleftrightarrow> state j = RUNNING) \<and> started_at j \<noteq> None"

definition job_book :: "bool \<Rightarrow> work_item list \<Rightarrow> nat multiset \<Rightarrow> job \<Rightarrow> bool" where
  "job_book live its opn j \<longleftrightarrow>
     job_inv its j \<and> opn + mset (dict_keys (results j)) \<subseteq># mset [0..<length its] \<and>
     (live \<and> state j = RUNNING \<longrightarrow> opn + mset (dict_keys (results j)) = mset [0..<length its])"

definition book_ok ::
  "bool \<Rightarrow> ledger \<Rightarrow> job_store \<Rightarrow> fair_scheduler \<Rightarrow> (nat, worker_phase) dict \<Rightarrow> bool" where
  "book_ok live G st sc ws \<longleftrightarrow>
     store_ok st \<and> scheduler_ok sc \<and>
     (\<forall>jid \<in> set (dict_keys (queues sc)). store_get st jid \<noteq> None) \<and>
     (\<forall>jid. \<forall>it \<in> set (items_of sc jid). valid_item G jid it) \<and>
     (\<forall>w ph jid it. dict_get ws w = Some ph \<and> phase_item ph = Some (jid, it) \<longrightarrow>
        valid_item G jid it \<and> store_get st jid \<noteq> None) \<and>
     (\<forall>jid j. store_get st jid = Some j \<longrightarrow>
        (\<exists>its. G jid = Some its \<and> job_book live its (queued_seqs jid sc + flying jid ws) j))"

subsection \<open>Changes that keep a job's books\<close>

lemma job_book_shrink:
  assumes "job_book live its opn j" "opn' \<subseteq># opn" "live' \<longrightarrow> live" "state j = RUNNING \<longrightarrow> \<not> live' \<or> opn' = opn"
  shows "job_book live' its opn' j"
  using assms by (auto simp: job_book_def intro: subset_mset.order_trans subset_mset.add_right_mono)

lemma finish_job_simps [simp]:
  "job_id (finish_job st now j) = job_id j" "total (finish_job st now j) = total j"
  "completed (finish_job st now j) = completed j" "succeeded (finish_job st now j) = succeeded j"
  "failed (finish_job st now j) = failed j" "results (finish_job st now j) = results j"
  "started_at (finish_job st now j) = started_at j" "state (finish_job st now j) = st"
  "idempotency_key (finish_job st now j) = idempotency_key j"
  "request_fingerprint (finish_job st now j) = request_fingerprint j"
  "finished_at (finish_job st now j) \<noteq> None"
  "count_success b (finish_job st now j) = count_success b j"
  by (simp_all add: finish_job_def count_success_def split: option.split)

lemma finish_job_identity: "keeps_identity (finish_job st now)"
  by (simp add: keeps_identity_def)

lemma job_book_cancel:
  "job_book live its opn j \<Longrightarrow> job_book live its opn (finish_job CANCELLED now j)"
  by (auto simp: job_book_def job_inv_def)

lemma job_book_retries: "job_book live its opn (j\<lparr>retries := n\<rparr>) = job_book live its opn j"
  by (simp add: job_book_def job_inv_def count_success_def)

text \<open>What settling an item does to its job.\<close>

definition books_result :: "work_item \<Rightarrow> inference_result \<Rightarrow> (job \<Rightarrow> job) \<Rightarrow> bool" where
  "books_result it r f \<longleftrightarrow>
     res_id r = item_id it \<and> res_prompt r = item_prompt it \<and> keeps_identity f \<and>
     (\<forall>j. let j' = f j; is_last = (state j = RUNNING \<and> total j \<le> completed j + 1) in
        total j' = total j \<and> completed j' = completed j + 1 \<and>
        succeeded j' = succeeded j + (if res_success r then 1 else 0) \<and>
        failed j' = failed j + (if res_success r then 0 else 1) \<and>
        results j' = dict_set (item_seq it) r (results j) \<and>
        state j' = (if is_last then COMPLETED else state j) \<and>
        (finished_at j' = None \<longleftrightarrow> \<not> is_last \<and> finished_at j = None) \<and>
        started_at j' = started_at j)"

lemma job_book_settle:
  assumes book: "job_book live its (opn + {#item_seq it#}) j" and it: "its ! item_seq it = it"
    and f: "books_result it r f"
  shows "job_book live its opn (f j)"
proof -
  let ?k = "item_seq it" and ?ks = "dict_keys (results j)" and ?n = "length its"
  have inv: "job_inv its j" and sub: "opn + {#?k#} + mset ?ks \<subseteq># mset [0..<?n]"
    and eq: "live \<and> state j = RUNNING \<longrightarrow> opn + {#?k#} + mset ?ks = mset [0..<?n]"
    using book by (auto simp: job_book_def)
  have "count (opn + {#?k#} + mset ?ks) ?k \<le> count (mset [0..<?n]) ?k"
    using sub by (rule mset_subset_eq_count)
  moreover have "count (mset [0..<?n]) ?k \<le> 1" by (simp add: count_mset_set')
  ultimately have "count (mset ?ks) ?k = 0" by simp
  then have fresh: "?k \<notin> set ?ks" by (metis count_mset_0_iff)
  then have res: "results (f j) = results j @ [(?k, r)]"
    using f dict_set_fresh [OF fresh, of r] by (simp add: books_result_def Let_def)
  have "?k \<in># mset [0..<?n]" using sub by (meson mset_subset_eqD union_iff union_single_eq_member)
  then have k: "?k < ?n" by simp
  have room: "length (results j) + 1 \<le> ?n" using size_mset_mono [OF sub] by simp
  have keys: "opn + mset (dict_keys (results (f j))) = opn + {#?k#} + mset ?ks" by (simp add: res)
  have cnt: "count_success b (f j) = count_success b j + (if res_success r = b then 1 else 0)" for b
    by (simp add: count_success_def res)
  have "state j \<noteq> COMPLETED" using inv room by (auto simp: job_inv_def)
  have fields: "total (f j) = total j" "completed (f j) = completed j + 1" "started_at (f j) = started_at j"
    "succeeded (f j) = succeeded j + (if res_success r then 1 else 0)"
    "failed (f j) = failed j + (if res_success r then 0 else 1)"
    "state (f j) = (if state j = RUNNING \<and> total j \<le> completed j + 1 then COMPLETED else state j)"
    "finished_at (f j) = None \<longleftrightarrow> \<not> (state j = RUNNING \<and> total j \<le> completed j + 1) \<and> finished_at j = None"
    "res_id r = item_id it" "res_prompt r = item_prompt it"
    using f by (simp_all add: books_result_def Let_def)
  have entries: "\<forall>i q. (i, q) \<in> set (results (f j)) \<longrightarrow>
      i < ?n \<and> res_id q = item_id (its ! i) \<and> res_prompt q = item_prompt (its ! i)"
    using inv k it fields(8,9) by (auto simp: job_inv_def res)
  have "dict_ok (results (f j))" using inv fresh by (simp add: job_inv_def res)
  moreover have "completed (f j) = int (length (results (f j)))" "total (f j) = int ?n"
    "succeeded (f j) = count_success True (f j)" "failed (f j) = count_success False (f j)"
    using inv by (simp_all add: job_inv_def res fields cnt)
  moreover have "state (f j) = COMPLETED \<Longrightarrow> completed (f j) = total (f j)"
    using inv room \<open>state j \<noteq> COMPLETED\<close> by (auto simp: job_inv_def fields split: if_splits)
  moreover have "state (f j) \<in> {RUNNING, COMPLETED, CANCELLED}" "started_at (f j) \<noteq> None"
    "finished_at (f j) = None \<longleftrightarrow> state (f j) = RUNNING"
    using inv by (auto simp: job_inv_def fields)
  moreover have "state (f j) = RUNNING \<Longrightarrow> completed (f j) < total (f j)"
    by (auto simp: fields split: if_splits)
  ultimately have "job_inv its (f j)" using entries by (auto simp: job_inv_def)
  moreover have "state (f j) = RUNNING \<Longrightarrow> state j = RUNNING"
    by (simp add: fields split: if_splits)
  ultimately show ?thesis using sub eq unfolding job_book_def keys by blast
qed

subsection \<open>Moving an item between the three places\<close>

lemma flying_mutate:
  "dict_ok ws \<Longrightarrow> dict_get ws w = Some ph \<Longrightarrow>
     flying jid (dict_mutate w (\<lambda>_. ph') ws) + seqs_for jid ph = flying jid ws + seqs_for jid ph'"
  using dict_sum_mutate [of ws w ph "seqs_for jid" "\<lambda>_. ph'"] by (simp add: flying_def)

lemma flying_del:
  "dict_ok ws \<Longrightarrow> dict_get ws w = Some ph \<Longrightarrow> flying jid (dict_del w ws) + seqs_for jid ph = flying jid ws"
  using dict_sum_del [of ws w ph "seqs_for jid"] by (simp add: flying_def)

lemma book_okI:
  assumes "store_ok st" "scheduler_ok sc"
    and "\<And>jid. jid \<in> set (dict_keys (queues sc)) \<Longrightarrow> store_get st jid \<noteq> None"
    and "\<And>jid it. it \<in> set (items_of sc jid) \<Longrightarrow> valid_item G jid it"
    and "\<And>w ph jid it. dict_get ws w = Some ph \<Longrightarrow> phase_item ph = Some (jid, it) \<Longrightarrow>
           valid_item G jid it \<and> store_get st jid \<noteq> None"
    and "\<And>jid j. store_get st jid = Some j \<Longrightarrow>
           \<exists>its. G jid = Some its \<and> job_book live its (queued_seqs jid sc + flying jid ws) j"
  shows "book_ok live G st sc ws"
  using assms by (auto simp: book_ok_def)

lemma book_okD:
  assumes "book_ok live G st sc ws"
  shows "store_ok st" "scheduler_ok sc"
    and "jid \<in> set (dict_keys (queues sc)) \<Longrightarrow> store_get st jid \<noteq> None"
    and "it \<in> set (items_of sc jid) \<Longrightarrow> valid_item G jid it"
    and "dict_get ws w = Some ph \<Longrightarrow> phase_item ph = Some (jid, it) \<Longrightarrow>
           valid_item G jid it \<and> store_get st jid \<noteq> None"
    and "store_get st jid = Some j \<Longrightarrow>
           \<exists>its. G jid = Some its \<and> job_book live its (queued_seqs jid sc + flying jid ws) j"
  using assms unfolding book_ok_def by (blast+)

lemma book_ok_weaken: "book_ok live G st sc ws \<Longrightarrow> (live' \<longrightarrow> live) \<Longrightarrow> book_ok live' G st sc ws"
  unfolding book_ok_def by (blast intro: job_book_shrink subset_mset.order_refl)

text \<open>A change of the jobs that keeps their identity and books.\<close>

lemma book_ok_mutate:
  assumes ok: "book_ok live G st sc ws" and f: "keeps_identity f"
    and step: "\<And>its opn j. job_book live its opn j \<Longrightarrow> job_book live its opn (f j)"
  shows "book_ok live G (store_mutate jid f st) sc ws"
proof (rule book_okI)
  fix k j assume "store_get (store_mutate jid f st) k = Some j"
  then obtain i where i: "store_get st k = Some i" "j = i \<or> j = f i"
    by (auto simp: dict_simps split: if_splits)
  with book_okD(6) [OF ok i(1)] step
  show "\<exists>its. G k = Some its \<and> job_book live its (queued_seqs k sc + flying k ws) j" by auto
qed (use book_okD [OF ok] store_mutate_ok [OF _ f] in \<open>auto simp: dict_simps\<close>)

text \<open>A change of phases that keeps the items the workers hold.\<close>

lemma book_ok_workers:
  assumes ok: "book_ok live G st sc ws" and eq: "\<And>jid. flying jid ws' = flying jid ws"
    and from_old: "\<And>w ph x. dict_get ws' w = Some ph \<Longrightarrow> phase_item ph = Some x \<Longrightarrow>
      \<exists>v ph'. dict_get ws v = Some ph' \<and> phase_item ph' = Some x"
  shows "book_ok live G st sc ws'"
proof (rule book_okI)
  fix w ph jid it assume "dict_get ws' w = Some ph" "phase_item ph = Some (jid, it)"
  with from_old obtain v ph' where "dict_get ws v = Some ph'" "phase_item ph' = Some (jid, it)" by blast
  with book_okD(5) [OF ok] show "valid_item G jid it \<and> store_get st jid \<noteq> None" by blast
qed (use book_okD [OF ok] in \<open>auto simp: eq\<close>)

lemma book_ok_phase:
  assumes ok: "book_ok live G st sc ws" and ws: "dict_ok ws" "dict_get ws w = Some ph"
    and same: "phase_item ph' = phase_item ph"
  shows "book_ok live G st sc (dict_mutate w (\<lambda>_. ph') ws)"
proof (rule book_ok_workers [OF ok])
  fix jid
  have "seqs_for jid ph' = seqs_for jid ph" by (simp add: seqs_for_def same)
  then show "flying jid (dict_mutate w (\<lambda>_. ph') ws) = flying jid ws"
    using flying_mutate [OF ws, of jid ph'] by simp
qed (use ws same in \<open>auto simp: dict_simps split: if_splits\<close>)

lemma book_ok_wake:
  assumes ok: "book_ok live G st sc ws" and pool: "pool_ok s k l ws n" and rel: "lim_release l = (woken, l')"
  shows "book_ok live G st sc (wake woken ws)"
proof (cases woken)
  case None
  then show ?thesis using ok by (simp add: wake_def)
next
  case (Some v)
  then have "dict_get ws v = Some Parked" using woken_parked [OF pool] rel by simp
  with Some ok pool show ?thesis
    by (auto simp: wake_def pool_ok_def intro!: book_ok_phase [where ph = Parked])
qed

lemma book_ok_exit:
  assumes ok: "book_ok live G st sc ws" and ws: "dict_ok ws" "dict_get ws w = Some Ready"
  shows "book_ok live G st sc (dict_del w ws)"
proof (rule book_ok_workers [OF ok])
  fix jid
  show "flying jid (dict_del w ws) = flying jid ws"
    using flying_del [OF ws, of jid] by (simp add: seqs_for_def)
qed (auto simp: dict_simps split: if_splits)

lemma book_ok_spawn:
  assumes ok: "book_ok live G st sc ws" and fresh: "\<forall>w \<in> set (dict_keys ws). w < n"
  shows "book_ok live G st sc (ws @ map (\<lambda>w. (w, Ready)) [n..<n + m])"
proof (rule book_ok_workers [OF ok])
  fix jid
  show "flying jid (ws @ map (\<lambda>w. (w, Ready)) [n..<n + m]) = flying jid ws"
    by (simp add: flying_def seqs_for_def comp_def)
next
  fix w ph x
  assume "dict_get (ws @ map (\<lambda>w. (w, Ready)) [n..<n + m]) w = Some ph" "phase_item ph = Some x"
  then have "dict_get ws w = Some ph"
    by (auto simp: map_add_Some_iff dest!: dict_get_mem)
  with \<open>phase_item ph = Some x\<close> show "\<exists>v ph'. dict_get ws v = Some ph' \<and> phase_item ph' = Some x" by blast
qed

lemma pop_keys:
  assumes "scheduler_ok s" "pop s = (got, s')"
  shows "set (dict_keys (queues s')) \<subseteq> set (dict_keys (queues s))"
proof -
  have keys: "dict_keys qs' = dict_keys qs" if "served_from ok qs g qs'" for ok qs g qs'
    using that by (auto simp: served_from_def)
  have "set (dict_keys (round_queues (queues s))) \<subseteq> set (dict_keys (queues s))"
    unfolding round_queues_keys drop_drained_def by auto
  then show ?thesis
    using assms by (auto simp: pop_eq scheduler_ok_def dest!: serve_first_SomeD split: option.splits)
      (metis keys fst_conv image_eqI set_map subsetD)
qed

text \<open>A worker takes the next item.\<close>

lemma book_ok_take:
  assumes ok: "book_ok live G st sc ws" and pop: "pop sc = (Some (jid, it), sc')"
    and ws: "dict_ok ws" "dict_get ws w = Some Ready" and ph: "phase_item ph = Some (jid, it)"
  shows "book_ok live G st sc' (dict_mutate w (\<lambda>_. ph) ws)"
proof (rule book_okI)
  note old = book_okD [OF ok] and popped = pop_SomeD [OF old(2) pop]
  show "store_ok st" "scheduler_ok sc'" using old popped by auto
  show "store_get st k \<noteq> None" if "k \<in> set (dict_keys (queues sc'))" for k
    using old(3) pop_keys [OF old(2) pop] that by blast
  have sub: "set (items_of sc' k) \<subseteq> set (items_of sc k)" for k
    using popped(1) popped(2) [of k] by (cases "k = jid") auto
  then show "valid_item G k i" if "i \<in> set (items_of sc' k)" for i k using old(4) that by blast
  have mem: "it \<in> set (items_of sc jid)" using popped(1) by simp
  moreover have "jid \<in> set (dict_keys (queues sc))"
    using mem fair.items_outside [of jid sc] by (metis empty_iff list.set(1))
  ultimately show "valid_item G k i \<and> store_get st k \<noteq> None"
    if "dict_get (dict_mutate w (\<lambda>_. ph) ws) v = Some ph'" "phase_item ph' = Some (k, i)" for v ph' k i
    using that old(3) [of jid] old(4) [of it jid] old(5) [of v ph' k i] ws ph
    by (auto simp: dict_simps split: if_splits)
  show "\<exists>its. G k = Some its \<and> job_book live its (queued_seqs k sc' + flying k (dict_mutate w (\<lambda>_. ph) ws)) j"
    if "store_get st k = Some j" for k j
  proof -
    have "queued_seqs k sc' + flying k (dict_mutate w (\<lambda>_. ph) ws) = queued_seqs k sc + flying k ws"
      using flying_mutate [OF ws, of k ph] popped(1) popped(2) [of k] ph
      by (cases "k = jid") (simp_all add: queued_seqs_def seqs_for_def)
    with old(6) [OF that] show ?thesis by simp
  qed
qed

text \<open>An item of a cancelled job is dropped.\<close>

lemma book_ok_drop:
  assumes ok: "book_ok live G st sc ws" and pop: "pop sc = (Some (jid, it), sc')"
    and j: "\<And>j. store_get st jid = Some j \<Longrightarrow> state j \<noteq> RUNNING"
  shows "book_ok live G st sc' ws"
proof (rule book_okI)
  note old = book_okD [OF ok] and popped = pop_SomeD [OF old(2) pop]
  show "store_ok st" "scheduler_ok sc'" using old popped by auto
  show "store_get st k \<noteq> None" if "k \<in> set (dict_keys (queues sc'))" for k
    using old(3) pop_keys [OF old(2) pop] that by blast
  have sub: "set (items_of sc' k) \<subseteq> set (items_of sc k)" for k
    using popped(1) popped(2) [of k] by (cases "k = jid") auto
  then show "valid_item G k i" if "i \<in> set (items_of sc' k)" for i k using old(4) that by blast
  show "valid_item G k i \<and> store_get st k \<noteq> None"
    if "dict_get ws v = Some ph'" "phase_item ph' = Some (k, i)" for v ph' k i using old(5) that by blast
  show "\<exists>its. G k = Some its \<and> job_book live its (queued_seqs k sc' + flying k ws) i"
    if i: "store_get st k = Some i" for k i
  proof (cases "k = jid")
    case True
    then have "queued_seqs k sc' \<subseteq># queued_seqs k sc" using popped(1) by (simp add: queued_seqs_def)
    then have "queued_seqs k sc' + flying k ws \<subseteq># queued_seqs k sc + flying k ws" by simp
    with old(6) [OF i] j i True show ?thesis by (blast intro: job_book_shrink)
  next
    case False
    with popped(2) [of k] old(6) [OF i] show ?thesis by (simp add: queued_seqs_def)
  qed
qed

text \<open>A worker settles its item.\<close>

lemma book_ok_settle:
  assumes ok: "book_ok live G st sc ws" and ws: "dict_ok ws" "dict_get ws w = Some ph"
    and ph: "phase_item ph = Some (jid, it)" and f: "books_result it r f"
  shows "book_ok live G (store_mutate jid f st) sc (dict_mutate w (\<lambda>_. Ready) ws)"
proof (rule book_okI)
  note old = book_okD [OF ok]
  let ?ws = "dict_mutate w (\<lambda>_. Ready) ws"
  have kf: "keeps_identity f" using f by (simp add: books_result_def)
  show "store_ok (store_mutate jid f st)" using old(1) kf by (rule store_mutate_ok)
  show "scheduler_ok sc" by fact
  show "store_get (store_mutate jid f st) k \<noteq> None" if "k \<in> set (dict_keys (queues sc))" for k
    using old(3) [OF that] by (auto simp: dict_simps)
  show "valid_item G k i" if "i \<in> set (items_of sc k)" for i k using old(4) that by blast
  show "valid_item G k i \<and> store_get (store_mutate jid f st) k \<noteq> None"
    if "dict_get ?ws v = Some ph'" "phase_item ph' = Some (k, i)" for v ph' k i
    using that old(5) [of v ph' k i] ws by (auto simp: dict_simps split: if_splits)
  have fly: "flying k ?ws + (if jid = k then {#item_seq it#} else {#}) = flying k ws" for k
    using flying_mutate [OF ws, of k Ready] ph by (simp add: seqs_for_def)
  show "\<exists>its. G k = Some its \<and> job_book live its (queued_seqs k sc + flying k ?ws) i"
    if i: "store_get (store_mutate jid f st) k = Some i" for k i
  proof (cases "k = jid")
    case True
    with i obtain j where j: "store_get st jid = Some j" "i = f j" by (auto simp: dict_simps)
    obtain its where its: "G jid = Some its" "job_book live its (queued_seqs jid sc + flying jid ws) j"
      using old(6) [OF j(1)] by blast
    have "its ! item_seq it = it" using old(5) [OF ws(2) ph] its(1) by (auto simp: valid_item_def)
    moreover have "queued_seqs jid sc + flying jid ws = queued_seqs jid sc + flying jid ?ws + {#item_seq it#}"
      using fly [of jid] by (simp add: add.assoc)
    ultimately show ?thesis using job_book_settle [OF _ _ f] its j(2) True by auto
  next
    case False
    with i fly [of k] old(6) [of k i] show ?thesis by (simp add: dict_simps)
  qed
qed

subsection \<open>The engine's pieces\<close>

definition live :: "engine \<Rightarrow> bool" where
  "live e \<longleftrightarrow> eng_accepting e \<or> eng_workers e \<noteq> []"

abbreviation book_at :: "bool \<Rightarrow> ledger \<Rightarrow> engine \<Rightarrow> bool" where
  "book_at b G e \<equiv> book_ok b G (eng_store e) (eng_scheduler e) (eng_workers e)"

abbreviation book_inv :: "ledger \<Rightarrow> engine \<Rightarrow> bool" where
  "book_inv G e \<equiv> book_at (live e) G e"

text \<open>The assignments to the job after the \<^verbatim>\<open>try\<close> statement of \<^verbatim>\<open>_process\<close>, as one function.\<close>

definition file_result :: "work_item \<Rightarrow> inference_result \<Rightarrow> pyfloat \<Rightarrow> job \<Rightarrow> job" where
  "file_result it r now j =
     (let j1 = j\<lparr>completed := completed j + 1, results := dict_set (item_seq it) r (results j)\<rparr> in
      if total j1 \<le> completed j1 \<and> state j1 = RUNNING then finish_job COMPLETED now j1 else j1)"

lemma store_mutate_twice: "store_mutate jid f (store_mutate jid g st) = store_mutate jid (\<lambda>j. f (g j)) st"
proof -
  have "dict_mutate jid f (dict_mutate jid g d) = dict_mutate jid (\<lambda>j. f (g j)) d" for d :: "(string, job) dict"
    by (induction d) auto
  then show ?thesis by (simp add: store_mutate_def)
qed

lemma store_mutate_cong:
  assumes "store_get st jid = Some j" "f j = g j"
  shows "store_mutate jid f st = store_mutate jid g st"
proof -
  have "dict_get d jid = Some j \<Longrightarrow> dict_mutate jid f d = dict_mutate jid g d" for d
    using assms(2) by (induction d) auto
  with assms(1) show ?thesis by (simp add: store_mutate_def store_get_def)
qed

lemma complete_item_effect:
  assumes "get_job (snd re) jid = Some j"
  defines "is_last \<equiv> total j \<le> completed j + 1 \<and> state j = RUNNING"
  shows "eng_store (complete_item jid it start clk re) =
      store_mutate jid (file_result it (fst re) (clk_wall clk)) (eng_store (snd re))"
    and "eng_active (complete_item jid it start clk re) =
      (if is_last then removeAll jid (eng_active (snd re)) else eng_active (snd re))"
proof -
  let ?g = "\<lambda>j. j\<lparr>completed := completed j + 1, results := dict_set (item_seq it) (fst re) (results j)\<rparr>"
  have get: "store_get (store_mutate jid ?g (eng_store (snd re))) jid = Some (?g j)"
    using assms(1) by (simp add: get_job_def dict_simps)
  have "file_result it (fst re) (clk_wall clk) j =
      (if is_last then finish_job COMPLETED (clk_wall clk) (?g j) else ?g j)"
    by (simp add: file_result_def is_last_def Let_def)
  then have "store_mutate jid (file_result it (fst re) (clk_wall clk)) (eng_store (snd re)) =
      store_mutate jid (\<lambda>j. if is_last then finish_job COMPLETED (clk_wall clk) (?g j) else ?g j) (eng_store (snd re))"
    using assms(1) by (intro store_mutate_cong) (auto simp: get_job_def)
  then show "eng_store (complete_item jid it start clk re) =
      store_mutate jid (file_result it (fst re) (clk_wall clk)) (eng_store (snd re))"
    using get by (auto simp: complete_item_def frame get_job_def store_mutate_twice is_last_def Let_def case_prod_beta)
  show "eng_active (complete_item jid it start clk re) =
      (if is_last then removeAll jid (eng_active (snd re)) else eng_active (snd re))"
    using get by (auto simp: complete_item_def frame get_job_def store_mutate_twice is_last_def Let_def case_prod_beta)
qed

lemma settle_store:
  assumes "get_job e jid = Some j" "eng_store (snd re) = store_mutate jid g (eng_store e)"
  shows "eng_store (settle w jid it start clk re) =
    store_mutate jid (\<lambda>j. file_result it (fst re) (clk_wall clk) (g j)) (eng_store e)"
proof -
  have "get_job (snd re) jid = Some (g j)" using assms(1) by (simp add: get_job_def assms(2) dict_simps)
  from complete_item_effect(1) [OF this, of it start clk] show ?thesis
    by (simp add: settle_def frame assms(2) store_mutate_twice)
qed

lemma file_result_failed:
  assumes "r = fst (item_failed jid it exc e)"
  shows "books_result it r (\<lambda>j. file_result it r now (j\<lparr>failed := failed j + 1\<rparr>))"
  using assms
  by (simp add: books_result_def keeps_identity_def file_result_def item_failed_def Let_def)

lemma item_returned_books:
  "\<exists>g. eng_store (snd (item_returned jid it out n e)) = store_mutate jid g (eng_store e) \<and>
     (\<forall>now. books_result it (fst (item_returned jid it out n e))
       (\<lambda>j. file_result it (fst (item_returned jid it out n e)) now (g j))) \<and>
     (\<forall>j. total (g j) = total j \<and> completed (g j) = completed j \<and> state (g j) = state j)"
proof (cases "chars_per_token (eng_settings e) = 0")
  case True
  then show ?thesis
    using file_result_failed [OF refl, of it jid "ZeroDivisionError ''float division by zero''"
        "e\<lparr>eng_limiter := record_success (eng_limiter e)\<rparr>"]
    by (intro exI [of _ "\<lambda>j. j\<lparr>failed := failed j + 1\<rparr>"])
      (simp add: item_returned_def estimate_tokens_def frame Let_def)
next
  case False
  let ?s = "eng_settings e"
  obtain a b where ab: "estimate_tokens ?s (item_prompt it) = Inr a" "estimate_tokens ?s out = Inr b"
    using False by (simp add: estimate_tokens_def)
  show ?thesis
    by (intro exI [of _ "credit_success a b (token_cost ?s a b)"])
      (simp add: item_returned_def ab books_result_def keeps_identity_def file_result_def credit_success_def Let_def)
qed

lemma pool_dict_ok: "pool_ok s k l ws n \<Longrightarrow> dict_ok ws"
  by (simp add: pool_ok_def)

lemma settle_book:
  assumes pool: "pool_inv e" and ok: "book_at b G e" and w: "dict_get (eng_workers e) w = Some ph"
    and ph: "phase_item ph = Some (jid, it)"
    and re: "eng_workers (snd re) = eng_workers e" "eng_scheduler (snd re) = eng_scheduler e"
      "eng_store (snd re) = store_mutate jid g (eng_store e)"
      "eng_limiter (snd re) = eng_limiter e \<or> eng_limiter (snd re) = record_success (eng_limiter e)"
      "eng_settings (snd re) = eng_settings e" "eng_next_worker (snd re) = eng_next_worker e"
    and books: "books_result it (fst re) (\<lambda>j. file_result it (fst re) (clk_wall clk) (g j))"
  shows "book_at b G (settle w jid it start clk re)"
proof -
  let ?e = "complete_item jid it start clk re" and ?f = "\<lambda>j. file_result it (fst re) (clk_wall clk) (g j)"
  obtain j where "get_job e jid = Some j"
    using book_okD(5) [OF ok w ph] by (auto simp: get_job_def)
  then have "get_job (snd re) jid = Some (g j)" by (simp add: get_job_def re dict_simps)
  then have st: "eng_store ?e = store_mutate jid ?f (eng_store e)"
    by (simp add: complete_item_effect(1) re(3) store_mutate_twice)
  have pool1: "pool_ok (eng_settings ?e) 0 (eng_limiter ?e) (eng_workers ?e) (eng_next_worker ?e)"
    using pool pool_ok_adjust(2) [OF pool] re by (auto simp: frame)
  have np: "ph \<noteq> Parked" using ph by auto
  let ?ws = "wake (fst (lim_release (eng_limiter ?e))) (eng_workers e)"
  have woken: "book_ok b G (eng_store e) (eng_scheduler e) ?ws"
    using book_ok_wake [OF ok] pool1 re(1) by (simp add: frame) (metis prod.collapse)
  have get: "dict_get ?ws w = Some ph"
    using worker_release_keeps [OF pool1 _ np] w re(1) by (simp add: frame)
  have "dict_ok ?ws"
    using pool_dict_ok [OF worker_release_pool [OF pool1]] re(1) by (simp add: frame)
  from book_ok_settle [OF woken this get ph books] show ?thesis
    by (simp add: settle_def frame re st)
qed

lemma worker_reply_book:
  assumes pool: "pool_inv e" and ok: "book_at b G e"
    and w: "dict_get (eng_workers e) w = Some (AwaitReply jid it n start)"
  shows "book_at b G (worker_reply w jid it n start reply u clk e)"
proof (cases "retry_turn (eng_settings e) u n reply")
  case (Return out m)
  obtain g where "eng_store (snd (item_returned jid it out m e)) = store_mutate jid g (eng_store e)"
    "books_result it (fst (item_returned jid it out m e))
       (\<lambda>j. file_result it (fst (item_returned jid it out m e)) (clk_wall clk) (g j))"
    using item_returned_books [of jid it out m e] by blast
  then show ?thesis
    unfolding worker_reply_def Return retry_decision.case
    by (intro settle_book [OF pool ok w]) (simp_all add: frame)
next
  case (Raise exc)
  then show ?thesis
    unfolding worker_reply_def Raise retry_decision.case
    by (intro settle_book [OF pool ok w, where g = "\<lambda>j. j\<lparr>failed := failed j + 1\<rparr>"] file_result_failed)
      (simp_all add: frame)
next
  case (BackOff m d)
  have "book_ok b G (store_mutate jid (\<lambda>j. j\<lparr>retries := retries j + 1\<rparr>) (eng_store e)) (eng_scheduler e) (eng_workers e)"
    by (rule book_ok_mutate [OF ok])
      (simp_all add: keeps_identity_def job_book_retries)
  from book_ok_phase [OF this pool_dict_ok [OF pool] w, of "AwaitBackoff jid it m start"] BackOff
  show ?thesis by (simp add: worker_reply_def frame)
qed

lemma start_call_book:
  assumes "pool_inv e" "book_at b G e" "dict_get (eng_workers e) w = Some ph" "phase_item ph = Some (jid, it)"
  shows "book_at b G (start_call w jid it n start clk e)"
  by (rule start_call_cases [of w jid it n start clk e])
    (use book_ok_phase [OF assms(2) pool_dict_ok [OF assms(1)] assms(3)] assms(4) in \<open>simp_all add: frame\<close>)

text \<open>A worker that finds no item gives its permit back and ends.\<close>

lemma worker_exit_book:
  assumes pool: "pool_inv e" and ok: "book_at b G e" and w: "dict_get (eng_workers e) w = Some Ready"
    and acq: "lim_acquire w (eng_limiter e) = (True, l)" and pop: "pop (eng_scheduler e) = (None, sc)"
  shows "book_at b G (worker_run w clk e)"
proof -
  let ?ws = "wake (fst (lim_release l)) (eng_workers e)"
  have plus: "pool_ok (eng_settings e) 1 l (eng_workers e) (eng_next_worker e)"
    using pool_ok_acquire [OF pool] acq by simp
  have rel: "lim_release l = (fst (lim_release l), snd (lim_release l))" by simp
  have items: "items_of sc k = items_of (eng_scheduler e) k" for k
    using pop_NoneD(1,2) [OF book_okD(2) [OF ok], of sc k] pop by simp
  have "book_ok b G (eng_store e) sc (eng_workers e)"
    using ok pop_NoneD(3,5) [OF book_okD(2) [OF ok], of sc] pop
    by (simp add: book_ok_def items queued_seqs_def)
  then have "book_ok b G (eng_store e) sc ?ws" using plus rel by (blast intro: book_ok_wake)
  moreover have "dict_get ?ws w = Some Ready" using wake_keeps [OF plus rel w] by simp
  moreover have "dict_ok ?ws" using pool_dict_ok [OF pool_ok_release [OF plus rel]] by simp
  ultimately have "book_ok b G (eng_store e) sc (dict_del w ?ws)" by (blast intro: book_ok_exit)
  then show ?thesis by (simp add: worker_run_def acq pop frame Let_def)
qed

text \<open>One that gets an item holds it, or drops it when the job has been cancelled.\<close>

lemma worker_take_book:
  assumes pool: "pool_inv e" and ok: "book_at b G e" and w: "dict_get (eng_workers e) w = Some Ready"
    and acq: "lim_acquire w (eng_limiter e) = (True, l)" and pop: "pop (eng_scheduler e) = (Some (jid, it), sc)"
  shows "book_at b G (worker_run w clk e)"
proof -
  let ?e = "tally (\<lambda>m. m\<lparr>m_queue_depth := gau_set (PyInt (pending sc)) (m_queue_depth m),
    m_inflight := gau_set (PyInt (lim_in_use l)) (m_inflight m)\<rparr>)
    (e\<lparr>eng_limiter := l, eng_scheduler := sc\<rparr>)"
  note ws = pool_dict_ok [OF pool] w
  have plus: "pool_ok (eng_settings e) 1 l (eng_workers e) (eng_next_worker e)"
    using pool_ok_acquire [OF pool] acq by simp
  have rel: "lim_release l = (fst (lim_release l), snd (lim_release l))" by simp
  have run: "worker_run w clk e = process_start w jid it clk ?e" by (simp add: worker_run_def acq pop)
  show ?thesis
  proof (cases "\<exists>j. get_job e jid = Some j \<and> state j \<noteq> CANCELLED")
    case True
    then have "worker_run w clk e = start_call w jid it 1 (clk_perf clk) clk ?e"
      by (auto simp: run process_start_def get_job_def)
    then show ?thesis
      using book_ok_take [OF ok pop ws, of "AwaitReply jid it 1 (clk_perf clk)"]
        book_ok_take [OF ok pop ws, of "AwaitToken jid it 1 (clk_perf clk)"]
      by (cases rule: start_call_cases [of w jid it 1 "clk_perf clk" clk ?e]) (simp_all add: frame)
  next
    case False
    then have "worker_run w clk e = worker_release ?e"
      by (auto simp: run process_start_def get_job_def split: option.split)
    moreover have "book_ok b G (eng_store e) sc (eng_workers e)"
      using False by (intro book_ok_drop [OF ok pop]) (auto simp: get_job_def)
    ultimately show ?thesis using book_ok_wake [OF _ plus rel] by (simp add: frame)
  qed
qed

lemma worker_run_book:
  assumes pool: "pool_inv e" and ok: "book_at b G e" and w: "dict_get (eng_workers e) w = Some Ready"
  shows "book_at b G (worker_run w clk e)"
proof -
  obtain taken l where acq: "lim_acquire w (eng_limiter e) = (taken, l)" by fastforce
  obtain got sc where pop: "pop (eng_scheduler e) = (got, sc)" by fastforce
  consider "\<not> taken" | "taken" "got = None" | jid it where "taken" "got = Some (jid, it)" by (cases got) auto
  then show ?thesis
  proof cases
    case 1
    then show ?thesis
      using book_ok_phase [OF ok pool_dict_ok [OF pool] w, of Parked] by (simp add: worker_run_def acq frame)
  next
    case 2
    then show ?thesis using worker_exit_book [OF assms] acq pop by simp
  next
    case 3
    then show ?thesis using worker_take_book [OF assms] acq pop by simp
  qed
qed

subsection \<open>Submission, cancellation, shutdown\<close>

lemma work_items_simps [simp]:
  "length (work_items ps) = length ps" "map item_seq (work_items ps) = [0..<length ps]"
  "i < length ps \<Longrightarrow> work_items ps ! i = work_item_of (i, ps ! i)"
  by (simp_all add: work_items_def work_item_of_def enumerate_eq_zip comp_def nth_enumerate_eq)

lemma work_items_valid: "G uid = Some (work_items ps) \<Longrightarrow> it \<in> set (work_items ps) \<Longrightarrow> valid_item G uid it"
  by (auto simp: valid_item_def in_set_conv_nth work_item_of_def)

lemma flying_none:
  assumes "dict_ok ws" "\<And>w ph it. dict_get ws w = Some ph \<Longrightarrow> phase_item ph \<noteq> Some (jid, it)"
  shows "flying jid ws = {#}"
proof -
  have "seqs_for jid ph = {#}" if "(w, ph) \<in> set ws" for w ph
    using dict_mem_get [OF assms(1) that] assms(2) by (auto simp: seqs_for_def split: option.split)
  then have "\<forall>x \<in> set ws. seqs_for jid (snd x) = {#}" by auto
  then show ?thesis unfolding flying_def by (induction ws) auto
qed

text \<open>An id no job has yet is free to be entered in the ledger.\<close>

lemma book_fresh:
  assumes ok: "book_ok b G st sc ws" and fresh: "store_get st uid = None"
  shows "items_of sc uid = []" "uid \<notin> set (dict_keys (queues sc))"
    "dict_get ws w = Some ph \<Longrightarrow> phase_item ph \<noteq> Some (uid, it)"
proof -
  show "uid \<notin> set (dict_keys (queues sc))" using book_okD(3) [OF ok] fresh by blast
  then show "items_of sc uid = []" by (rule fair.items_outside)
  show "dict_get ws w = Some ph \<Longrightarrow> phase_item ph \<noteq> Some (uid, it)"
    using book_okD(5) [OF ok, of w ph uid it] fresh by blast
qed

lemma book_ok_ledger:
  assumes ok: "book_ok b G st sc ws" and fresh: "store_get st uid = None"
  shows "book_ok b (G(uid \<mapsto> its)) st sc ws"
proof (rule book_okI)
  note old = book_okD [OF ok] and new = book_fresh [OF ok fresh]
  have keep: "k \<noteq> uid \<Longrightarrow> valid_item (G(uid \<mapsto> its)) k i = valid_item G k i" for k i
    by (simp add: valid_item_def)
  show "valid_item (G(uid \<mapsto> its)) k i" if "i \<in> set (items_of sc k)" for k i
    using old(4) [OF that] new(1) that keep by (cases "k = uid") auto
  show "valid_item (G(uid \<mapsto> its)) k i \<and> store_get st k \<noteq> None"
    if "dict_get ws w = Some ph" "phase_item ph = Some (k, i)" for w ph k i
    using old(5) [OF that] fresh keep by (cases "k = uid") auto
  show "\<exists>its'. (G(uid \<mapsto> its)) k = Some its' \<and> job_book b its' (queued_seqs k sc + flying k ws) j"
    if "store_get st k = Some j" for k j
    using old(6) [OF that] fresh that by (cases "k = uid") auto
qed (use book_okD [OF ok] in auto)

lemma submitted_job_book:
  "job_book b (work_items ps) (mset [0..<length ps]) (submitted_job clk uid ps prio key fp)"
  by (simp add: job_book_def job_inv_def submitted_job_def new_job_def count_success_def)

lemma book_ok_register:
  fixes clk ps prio key fp
  assumes ok: "book_ok b G st sc ws" and ws: "dict_ok ws" and fresh: "store_get st uid = None" "uid \<noteq> []"
  defines "j \<equiv> submitted_job clk uid ps prio key fp"
  shows "book_ok b (G(uid \<mapsto> work_items ps)) (store_create j st) (add_job uid (work_items ps) prio sc) ws"
proof (rule book_okI)
  let ?G = "G(uid \<mapsto> work_items ps)" and ?sc = "add_job uid (work_items ps) prio sc"
  note old = book_okD [OF book_ok_ledger [OF ok fresh(1), of "work_items ps"]] and new = book_fresh [OF ok fresh(1)]
  have id: "job_id j = uid" by (simp add: j_def submitted_job_def new_job_def)
  show "store_ok (store_create j st)" using old(1) fresh id by (intro store_create_ok) auto
  show "scheduler_ok ?sc" using old(2) new(2) by (rule add_job_ok)
  show "store_get (store_create j st) k \<noteq> None" if "k \<in> set (dict_keys (queues ?sc))" for k
    using that old(3) [of k] id
    by (auto simp: dict_simps add_job_def Let_def dict_set_keys simp del: set_map split: if_splits)
  show "valid_item ?G k i" if "i \<in> set (items_of ?sc k)" for i k
    using that old(4) [of i k] work_items_valid [of ?G uid ps i] by (auto simp: items_of_add_job split: if_splits)
  show "valid_item ?G k i \<and> store_get (store_create j st) k \<noteq> None"
    if "dict_get ws w = Some ph" "phase_item ph = Some (k, i)" for w ph k i
    using old(5) [OF that] by (auto simp: dict_simps)
  show "\<exists>its. ?G k = Some its \<and> job_book b its (queued_seqs k ?sc + flying k ws) i"
    if i: "store_get (store_create j st) k = Some i" for k i
  proof (cases "k = uid")
    case True
    have "flying uid ws = {#}" using ws new(3) by (rule flying_none)
    moreover have "queued_seqs uid ?sc = mset [0..<length ps]"
      by (simp add: queued_seqs_def items_of_add_job flip: mset_map)
    moreover have "i = j" using i True id by (simp add: dict_simps)
    ultimately show ?thesis using True by (simp add: j_def submitted_job_book del: mset_upt)
  next
    case False
    then show ?thesis
      using i old(6) [of k i] id by (auto simp: dict_simps queued_seqs_def items_of_add_job)
  qed
qed

lemma submit_book:
  assumes pool: "pool_inv e" and ok: "book_at b G e" and fresh: "fresh_id uid e"
  shows "book_at b (G(uid \<mapsto> work_items ps)) (snd (submit_with_idempotency sha256 clk uid ps prio key e))"
proof -
  have f: "store_get (eng_store e) uid = None" "uid \<noteq> []" using fresh by (auto simp: fresh_id_def get_job_def)
  have "book_at b (G(uid \<mapsto> work_items ps)) (register_job clk uid ps prio key fp e)" for fp
  proof -
    have "book_ok b (G(uid \<mapsto> work_items ps)) (store_create (submitted_job clk uid ps prio key fp) (eng_store e))
        (add_job uid (work_items ps) prio (eng_scheduler e)) (eng_workers e)"
      using book_ok_register [OF ok pool_dict_ok [OF pool] f] .
    moreover have "\<forall>w \<in> set (dict_keys (eng_workers e)). w < eng_next_worker e"
      using pool by (simp add: pool_ok_def)
    ultimately show ?thesis
      by (auto simp: register_job_def ensure_workers_def refresh_gauges_def Let_def intro!: book_ok_spawn)
  qed
  then show ?thesis
    by (rule_tac submit_effect [of sha256 clk uid ps prio key e])
      (use book_ok_ledger [OF ok f(1)] in auto)
qed

lemma book_ok_cancel:
  assumes ok: "book_ok b G st sc ws"
  shows "book_ok b G (store_mutate jid (finish_job CANCELLED now) st) (snd (remove_job jid sc)) ws"
proof (rule book_okI)
  note old = book_okD [OF ok] and items = items_of_remove_job [of jid sc]
  let ?st = "store_mutate jid (finish_job CANCELLED now) st" and ?sc = "snd (remove_job jid sc)"
  show "store_ok ?st" using old(1) finish_job_identity by (rule store_mutate_ok)
  show "scheduler_ok ?sc" using old(2) by (rule remove_job_ok)
  have "set (dict_keys (queues ?sc)) \<subseteq> set (dict_keys (queues sc))"
    by (auto simp: remove_job_def Let_def AList.delete_keys simp del: set_map split: option.split)
  then show "store_get ?st k \<noteq> None" if "k \<in> set (dict_keys (queues ?sc))" for k
    using old(3) [of k] that by (auto simp: dict_simps)
  show "valid_item G k i" if "i \<in> set (items_of ?sc k)" for k i
    using old(4) [of i k] that by (auto simp: items split: if_splits)
  show "valid_item G k i \<and> store_get ?st k \<noteq> None"
    if "dict_get ws w = Some ph" "phase_item ph = Some (k, i)" for w ph k i
    using old(5) [OF that] by (auto simp: dict_simps)
  show "\<exists>its. G k = Some its \<and> job_book b its (queued_seqs k ?sc + flying k ws) i"
    if i: "store_get ?st k = Some i" for k i
  proof (cases "k = jid")
    case True
    with i obtain j where j: "store_get st jid = Some j" "i = finish_job CANCELLED now j" by (auto simp: dict_simps)
    obtain its where its: "G jid = Some its" "job_book b its (queued_seqs jid sc + flying jid ws) j"
      using old(6) [OF j(1)] by blast
    have "job_book b its (queued_seqs jid ?sc + flying jid ws) i"
      unfolding j(2)
      by (rule job_book_shrink [OF job_book_cancel [OF its(2)]]) (simp_all add: queued_seqs_def items)
    with its True show ?thesis by blast
  next
    case False
    with i old(6) [of k i] show ?thesis by (simp add: dict_simps queued_seqs_def items)
  qed
qed

lemma book_ok_kill:
  assumes ok: "book_ok b G st sc ws"
  shows "book_ok False G st sc []"
proof (rule book_okI)
  show "\<exists>its. G k = Some its \<and> job_book False its (queued_seqs k sc + flying k []) j"
    if "store_get st k = Some j" for k j
    using book_okD(6) [OF ok that] by (auto simp: flying_def elim!: job_book_shrink)
qed (use book_okD(1-4) [OF ok] in auto)

lemma interrupt_jobs_book:
  assumes "book_at b G e"
  shows "book_at b G (interrupt_jobs clk e)"
proof -
  have "book_at b G e \<Longrightarrow> book_at b G (interrupt_job clk j e)" for j e
    by (auto simp: interrupt_job_def frame intro: book_ok_mutate finish_job_identity job_book_cancel)
  then have "book_at b G e \<Longrightarrow> book_at b G (fold (interrupt_job clk) js e)" for js e
    by (induction js arbitrary: e) auto
  with assms show ?thesis by (simp add: interrupt_jobs_def)
qed

subsection \<open>Every reachable state\<close>

lemma submit_event_book:
  assumes "pool_inv e" "book_inv G e" "fresh_id uid e"
  shows "book_inv (G(uid \<mapsto> work_items ps)) (snd (submit_with_idempotency sha256 clk uid ps prio key e))"
proof (rule book_ok_weaken [OF submit_book [OF assms]])
  show "live (snd (submit_with_idempotency sha256 clk uid ps prio key e)) \<longrightarrow> live e"
    by (rule submit_effect [of sha256 clk uid ps prio key e]) (auto simp: live_def frame)
qed

lemma replay_event_book:
  assumes "pool_inv e" "book_inv G e" "fresh_id uid e"
  shows "book_inv (ledger_step (Replay uid jid prio) e G) (snd (replay_failed sha256 clk uid jid prio e))"
proof -
  have "book_inv (G(uid \<mapsto> its)) e" for its
    using book_ok_ledger [OF assms(2)] assms(3) by (simp add: fresh_id_def get_job_def)
  then show ?thesis
    using assms submit_event_book [OF assms] replay_effect [of sha256 clk uid jid prio e]
    by (auto simp: replay_failed_def split: option.splits if_splits)
qed

text \<open>A live worker makes the engine live, whatever the accepting flag says.\<close>

lemma worker_book: "book_inv G e \<Longrightarrow> dict_get (eng_workers e) w = Some ph \<Longrightarrow> book_at True G e"
  by (cases "eng_workers e") (auto simp: live_def)

lemma worker_event_book:
  assumes pool: "pool_inv e" and ok: "book_inv G e"
  shows "dict_get (eng_workers e) w = Some Ready \<Longrightarrow> book_inv G (worker_run w clk e)"
    "dict_get (eng_workers e) w = Some ph \<Longrightarrow> phase_item ph = Some (jid, it) \<Longrightarrow> book_inv G (start_call w jid it n start clk e)"
    "dict_get (eng_workers e) w = Some (AwaitReply jid it n start) \<Longrightarrow> book_inv G (worker_reply w jid it n start reply u clk e)"
proof -
  show "book_inv G (worker_run w clk e)" if w: "dict_get (eng_workers e) w = Some Ready"
    by (rule book_ok_weaken [OF worker_run_book [OF pool worker_book [OF ok w] w]]) simp
  show "book_inv G (start_call w jid it n start clk e)" if w: "dict_get (eng_workers e) w = Some ph" "phase_item ph = Some (jid, it)"
    by (rule book_ok_weaken [OF start_call_book [OF pool worker_book [OF ok w(1)] w]]) simp
  show "book_inv G (worker_reply w jid it n start reply u clk e)" if w: "dict_get (eng_workers e) w = Some (AwaitReply jid it n start)"
    by (rule book_ok_weaken [OF worker_reply_book [OF pool worker_book [OF ok w] w]]) simp
qed

lemma engine_step_book:
  assumes pool: "pool_inv e" and ok: "book_inv G e" and st: "engine_step sha256 clk ev e = Some e'"
  shows "book_inv (ledger_step ev e G) e'"
proof (cases ev)
  case (Submit uid ps prio key)
  then show ?thesis using st submit_event_book [OF pool ok] by (auto split: if_splits)
next
  case (Replay uid jid prio)
  then show ?thesis using st replay_event_book [OF pool ok] by (auto simp del: ledger_step.simps split: if_splits)
next
  case (Cancel jid)
  then show ?thesis
    using st ok book_ok_cancel [OF ok, of jid] cancel_effect [of clk jid e]
    by (auto simp: frame live_def)
next
  case ShutdownBegin
  then show ?thesis using st ok by (auto simp: shutdown_begin_def live_def intro: book_ok_weaken)
next
  case CancelWorkers
  then show ?thesis
    using st book_ok_kill [OF ok] cancel_workers_pool(2) [OF pool]
    by (auto simp: frame live_def split: if_splits)
next
  case InterruptJobs
  then show ?thesis
    using st interrupt_jobs_book [OF ok] by (auto simp: frame live_def split: if_splits)
qed (use st worker_event_book [OF pool ok] in \<open>force simp: phase_item.simps\<close>)+

lemma new_engine_book: "book_inv (\<lambda>_. None) (new_engine s m)"
  by (rule book_okI)
    (simp_all add: new_engine_def Let_def empty_store_ok empty_scheduler_ok,
     simp_all add: empty_scheduler_def items_of_def store_get_def empty_store_def)

lemma reachable_book:
  assumes "reachable sha256 s e G" "gate_settings_ok s"
  shows "book_inv G e"
  using assms
proof (induction rule: reachable.induct)
  case (start m)
  show ?case by (rule new_engine_book)
next
  case (step e G clk ev e')
  then show ?case using engine_step_book reachable_pool by blast
qed

end
