(* ===== verification/Engine_Caps.thy ===== *)
theory Engine_Caps
  imports Engine_Book
begin

text \<open>
  Backpressure and job lifecycles: the active set is exactly the set of running jobs and stays within
  \<^verbatim>\<open>MAX_ACTIVE_JOBS\<close>, the scheduler never holds more than \<^verbatim>\<open>MAX_QUEUE_SIZE\<close> prompts, terminal states
  are final, and a job's identity (id, idempotency key, fingerprint) never changes.
\<close>

subsection \<open>The active set\<close>

definition active_ok :: "job_store \<Rightarrow> string list \<Rightarrow> bool" where
  "active_ok st act \<longleftrightarrow> distinct act \<and>
     (\<forall>jid. jid \<in> set act \<longleftrightarrow> (\<exists>j. store_get st jid = Some j \<and> state j = RUNNING))"

definition caps_ok :: "settings \<Rightarrow> job_store \<Rightarrow> fair_scheduler \<Rightarrow> string list \<Rightarrow> bool" where
  "caps_ok s st sc act \<longleftrightarrow> active_ok st act \<and>
     int (length act) \<le> max 0 (max_active_jobs s) \<and> pending sc \<le> max 0 (max_queue_size s)"

abbreviation caps_inv :: "engine \<Rightarrow> bool" where
  "caps_inv e \<equiv> caps_ok (eng_settings e) (eng_store e) (eng_scheduler e) (eng_active e)"

lemma active_ok_same:
  assumes "active_ok st act" "\<And>j. store_get st jid = Some j \<Longrightarrow> state (f j) = state j"
  shows "active_ok (store_mutate jid f st) act"
  using assms by (auto simp: active_ok_def dict_simps)

lemma active_ok_finish:
  assumes "active_ok st act" "\<And>j. store_get st jid = Some j \<Longrightarrow> state (f j) \<noteq> RUNNING"
  shows "active_ok (store_mutate jid f st) (removeAll jid act)"
  using assms by (auto simp: active_ok_def dict_simps distinct_removeAll)

lemma active_ok_create:
  assumes "active_ok st act" "store_get st (job_id j) = None" "state j = RUNNING"
  shows "active_ok (store_create j st) (List.insert (job_id j) act)" "job_id j \<notin> set act"
  using assms by (auto simp: active_ok_def dict_simps)

lemma length_removeAll_within [simp]:
  "int (length xs) \<le> m \<Longrightarrow> int (length (removeAll x xs)) \<le> m"
  using length_removeAll_less_eq [of x xs] by linarith

lemma settle_caps:
  assumes caps: "caps_inv e" and j: "get_job e jid = Some j"
    and re: "eng_settings (snd re) = eng_settings e" "eng_scheduler (snd re) = eng_scheduler e"
      "eng_active (snd re) = eng_active e" "eng_store (snd re) = store_mutate jid g (eng_store e)"
    and g: "total (g j) = total j" "completed (g j) = completed j" "state (g j) = state j"
  shows "caps_inv (settle w jid it start clk re)"
proof -
  let ?now = "clk_wall clk" and ?is_last = "total j \<le> completed j + 1 \<and> state j = RUNNING"
  have get: "get_job (snd re) jid = Some (g j)" using j by (simp add: get_job_def re dict_simps)
  note eff = complete_item_effect [OF get, of it start clk]
  have act: "active_ok (eng_store e) (eng_active e)" using caps by (simp add: caps_ok_def)
  have "active_ok (store_mutate jid (\<lambda>j. file_result it (fst re) ?now (g j)) (eng_store e))
      (if ?is_last then removeAll jid (eng_active e) else eng_active e)"
  proof (cases ?is_last)
    case True
    then show ?thesis
      unfolding if_P [OF True]
      using j g by (intro active_ok_finish [OF act]) (auto simp: get_job_def file_result_def Let_def)
  next
    case False
    then show ?thesis
      unfolding if_not_P [OF False]
      using j g by (intro active_ok_same [OF act]) (auto simp: get_job_def file_result_def Let_def)
  qed
  then show ?thesis
    using caps by (auto simp: caps_ok_def settle_def frame eff re g store_mutate_twice)
qed

lemma worker_reply_caps:
  assumes caps: "caps_inv e" and j: "get_job e jid = Some j"
  shows "caps_inv (worker_reply w jid it n start reply u clk e)"
proof (cases "retry_turn (eng_settings e) u n reply")
  case (Return out m)
  obtain g where g: "eng_store (snd (item_returned jid it out m e)) = store_mutate jid g (eng_store e)"
    "\<forall>j. total (g j) = total j \<and> completed (g j) = completed j \<and> state (g j) = state j"
    using item_returned_books [of jid it out m e] by blast
  show ?thesis
    unfolding worker_reply_def Return retry_decision.case
    by (rule settle_caps [OF caps j _ _ _ g(1)]) (simp_all add: frame g(2))
next
  case (Raise exc)
  show ?thesis
    unfolding worker_reply_def Raise retry_decision.case
    by (rule settle_caps [OF caps j _ _ _ item_failed_frame(2)]) (simp_all add: frame)
next
  case (BackOff m d)
  have "active_ok (store_mutate jid (\<lambda>j. j\<lparr>retries := retries j + 1\<rparr>) (eng_store e)) (eng_active e)"
    using caps by (intro active_ok_same) (auto simp: caps_ok_def)
  with BackOff caps show ?thesis by (simp add: worker_reply_def frame caps_ok_def)
qed

lemma worker_run_frame:
  "eng_store (worker_run w clk e) = eng_store e" "eng_active (worker_run w clk e) = eng_active e"
  "eng_settings (worker_run w clk e) = eng_settings e" "eng_accepting (worker_run w clk e) = eng_accepting e"
  "eng_scheduler (worker_run w clk e) \<in> {eng_scheduler e, snd (pop (eng_scheduler e))}"
  by (auto simp: worker_run_def process_start_def frame Let_def split: prod.splits bool.splits option.splits)

lemma pop_pending_le:
  assumes "scheduler_ok sc"
  shows "pending (snd (pop sc)) \<le> pending sc"
proof -
  obtain got sc' where p: "pop sc = (got, sc')" by fastforce
  then show ?thesis
    using pop_NoneD(4) [OF assms, of sc'] pop_SomeD(4) [OF assms] by (cases got) auto
qed

lemma worker_run_caps:
  assumes "caps_inv e" "scheduler_ok (eng_scheduler e)"
  shows "caps_inv (worker_run w clk e)"
  using assms worker_run_frame [of w clk e] pop_pending_le [OF assms(2)] by (auto simp: caps_ok_def)

lemma submit_caps:
  assumes caps: "caps_inv e" and fresh: "fresh_id uid e"
  shows "caps_inv (snd (submit_with_idempotency sha256 clk uid ps prio key e))"
proof (rule submit_effect [of sha256 clk uid ps prio key e])
  fix fp
  assume new: "snd (submit_with_idempotency sha256 clk uid ps prio key e) = register_job clk uid ps prio key fp e"
    "active_jobs e < max_active_jobs (eng_settings e)"
    "pending (eng_scheduler e) + int (length ps) \<le> max_queue_size (eng_settings e)"
  let ?j = "submitted_job clk uid ps prio key fp"
  have j: "job_id ?j = uid" "state ?j = RUNNING" by (simp_all add: submitted_job_def new_job_def)
  have "store_get (eng_store e) (job_id ?j) = None" using fresh j by (simp add: fresh_id_def get_job_def)
  from active_ok_create [OF _ this j(2)] caps j(1)
  have "active_ok (store_create ?j (eng_store e)) (List.insert uid (eng_active e))" "uid \<notin> set (eng_active e)"
    by (auto simp: caps_ok_def)
  with new caps show ?thesis
    by (simp add: caps_ok_def frame active_jobs_def add_job_def Let_def)
qed (use caps in auto)

lemma remove_job_pending: "scheduler_ok sc \<Longrightarrow> pending (snd (remove_job jid sc)) \<le> pending sc"
  by (simp add: remove_job_def Let_def split: option.split)

lemma interrupt_jobs_caps: "caps_inv e \<Longrightarrow> caps_inv (interrupt_jobs clk e)"
proof -
  have "caps_inv e \<Longrightarrow> caps_inv (interrupt_job clk j e)" for j e
    using active_ok_finish [of "eng_store e" "eng_active e" "job_id j" "finish_job CANCELLED (clk_wall_each clk (job_id j))"]
    by (auto simp: interrupt_job_def frame caps_ok_def)
  then have "caps_inv e \<Longrightarrow> caps_inv (fold (interrupt_job clk) js e)" for js e
    by (induction js arbitrary: e) auto
  then show "caps_inv e \<Longrightarrow> caps_inv (interrupt_jobs clk e)" by (simp add: interrupt_jobs_def)
qed

lemma engine_step_caps:
  assumes book: "book_inv G e" and caps: "caps_inv e" and st: "engine_step sha256 clk ev e = Some e'"
  shows "caps_inv e'"
proof (cases ev)
  case (Submit uid ps prio key)
  then show ?thesis using st submit_caps [OF caps] by (auto split: if_splits)
next
  case (Replay uid jid prio)
  then show ?thesis
    using st caps submit_caps [OF caps] replay_effect [of sha256 clk uid jid prio e] by (auto split: if_splits)
next
  case (Cancel jid)
  have "caps_inv (tally f (finalize jid CANCELLED clk (e\<lparr>eng_scheduler := snd (remove_job jid (eng_scheduler e))\<rparr>)))" for f
    using caps remove_job_pending [OF book_okD(2) [OF book], of jid]
      active_ok_finish [of "eng_store e" "eng_active e" jid "finish_job CANCELLED (clk_wall clk)"]
    by (auto simp: caps_ok_def frame)
  then show ?thesis using Cancel st caps cancel_effect [of clk jid e] by auto
next
  case (RunWorker w)
  then show ?thesis
    using st worker_run_caps [OF caps book_okD(2) [OF book]] by auto
next
  case (TokenDue w)
  then show ?thesis using st caps by (auto simp: frame)
next
  case (ProviderReply w reply u)
  then obtain jid it n start where w: "dict_get (eng_workers e) w = Some (AwaitReply jid it n start)"
    and e': "e' = worker_reply w jid it n start reply u clk e"
    using st by auto
  obtain j where "get_job e jid = Some j"
    using book_okD(5) [OF book w, of jid it] by (auto simp: get_job_def)
  then show ?thesis unfolding e' by (rule worker_reply_caps [OF caps])
next
  case (BackoffOver w)
  then show ?thesis using st caps by (auto simp: frame)
next
  case InterruptJobs
  then show ?thesis using st interrupt_jobs_caps [OF caps] by (auto split: if_splits)
qed (use st caps in \<open>auto simp: shutdown_begin_def frame split: if_splits\<close>)

lemma reachable_caps:
  assumes "reachable sha256 s e G" "gate_settings_ok s"
  shows "caps_inv e"
  using assms
proof (induction rule: reachable.induct)
  case (start m)
  show ?case
    by (simp add: new_engine_def caps_ok_def active_ok_def store_get_def empty_store_def empty_scheduler_def Let_def)
next
  case (step e G clk ev e')
  then show ?case using engine_step_caps reachable_book by blast
qed

end
