(* ===== verification/Engine_Live.thy ===== *)
theory Engine_Live
  imports Engine_Caps
begin

text \<open>
  Progress of the worker pool. No wake-up is lost: as long as a worker is parked, another one is
  awake and will release a permit. Every worker event except a refused pass of the token bucket
  decreases a measure, so the pool cannot run for ever on a finite amount of work; and when no worker
  can move any more, every non-empty job has reached a terminal state.
\<close>

subsection \<open>Counting\<close>

text \<open>Calls still allowed at attempt \<open>n\<close>, and the steps a phase may still take.\<close>

definition attempts_left :: "settings \<Rightarrow> int \<Rightarrow> nat" where
  "attempts_left s n = nat (max_retries s + 1 - n)"

fun phase_weight :: "settings \<Rightarrow> worker_phase \<Rightarrow> nat" where
  "phase_weight s Ready = 0"
| "phase_weight s Parked = 0"
| "phase_weight s (AwaitToken jid it n start) = 3 * attempts_left s n + 2"
| "phase_weight s (AwaitReply jid it n start) = 3 * attempts_left s n + 1"
| "phase_weight s (AwaitBackoff jid it n start) = 3 * attempts_left s n"

definition pool_weight :: "settings \<Rightarrow> (nat, worker_phase) dict \<Rightarrow> nat" where
  "pool_weight s ws = (\<Sum>x\<leftarrow>ws. phase_weight s (snd x) + 1)"

definition ready_count :: "(nat, worker_phase) dict \<Rightarrow> nat" where
  "ready_count ws = (\<Sum>x\<leftarrow>ws. if snd x = Ready then 1 else 0)"

definition item_weight :: "settings \<Rightarrow> nat" where
  "item_weight s = 3 * attempts_left s 1 + 3"

definition work_left :: "engine \<Rightarrow> nat" where
  "work_left e = nat (pending (eng_scheduler e)) * item_weight (eng_settings e) +
     pool_weight (eng_settings e) (eng_workers e)"

abbreviation progress_order :: "((nat \<times> nat) \<times> nat \<times> nat) set" where
  "progress_order \<equiv> less_than <*lex*> less_than"

definition progress :: "engine \<Rightarrow> nat \<times> nat" where
  "progress e = (work_left e, ready_count (eng_workers e))"

lemma pool_weight_mutate:
  "dict_ok ws \<Longrightarrow> dict_get ws w = Some ph \<Longrightarrow>
     pool_weight s (dict_mutate w (\<lambda>_. ph') ws) + phase_weight s ph = pool_weight s ws + phase_weight s ph'"
  using dict_sum_mutate [of ws w ph "\<lambda>ph. phase_weight s ph + 1" "\<lambda>_. ph'"] by (simp add: pool_weight_def)

lemma pool_weight_del:
  "dict_ok ws \<Longrightarrow> dict_get ws w = Some ph \<Longrightarrow> pool_weight s (dict_del w ws) + phase_weight s ph + 1 = pool_weight s ws"
  using dict_sum_del [of ws w ph "\<lambda>ph. phase_weight s ph + 1"] by (simp add: pool_weight_def)

lemma ready_count_mutate:
  "dict_ok ws \<Longrightarrow> dict_get ws w = Some ph \<Longrightarrow>
     ready_count (dict_mutate w (\<lambda>_. ph') ws) + (if ph = Ready then 1 else 0) =
     ready_count ws + (if ph' = Ready then 1 else 0)"
  using dict_sum_mutate [of ws w ph "\<lambda>ph. if ph = Ready then 1 else 0 :: nat" "\<lambda>_. ph'"]
  by (simp add: ready_count_def)

lemma pool_weight_wake:
  assumes "pool_ok s k l ws n" "lim_release l = (woken, l')"
  shows "pool_weight t (wake woken ws) = pool_weight t ws"
  using assms woken_parked [OF assms(1)] pool_weight_mutate [of ws _ Parked t Ready]
  by (cases woken) (auto simp: wake_def pool_ok_def)

subsection \<open>No lost wake-up\<close>

definition awake :: "(nat, worker_phase) dict \<Rightarrow> bool" where
  "awake ws \<longleftrightarrow> (\<exists>w ph. dict_get ws w = Some ph \<and> ph \<noteq> Parked)"

definition stirred :: "(nat, worker_phase) dict \<Rightarrow> bool" where
  "stirred ws \<longleftrightarrow> ws = [] \<or> awake ws"

lemma holder_exists:
  assumes "dict_ok ws" "0 < permits_held ws"
  shows "\<exists>w ph. dict_get ws w = Some ph \<and> holds ph = 1"
proof -
  have "\<exists>x \<in> set ws. holds (snd x) \<noteq> 0"
    using assms(2) unfolding permits_held_def by (induction ws) auto
  then obtain w ph where "(w, ph) \<in> set ws" "holds ph \<noteq> 0" by auto
  moreover from this have "holds ph = 1" by (cases ph) auto
  ultimately show ?thesis using dict_mem_get [OF assms(1)] by blast
qed

lemma awakeI: "dict_get ws w = Some ph \<Longrightarrow> ph \<noteq> Parked \<Longrightarrow> awake ws"
  by (auto simp: awake_def)

lemma park_stirred:
  assumes pool: "pool_ok s 0 l ws n" and acq: "lim_acquire w l = (False, l')" and w: "dict_get ws w = Some Ready"
    and pos: "1 \<le> lim_min l"
  shows "stirred (dict_mutate w (\<lambda>_. Parked) ws)"
proof -
  have "1 \<le> lim_in_use l"
    using acq pos pool by (auto simp: lim_acquire_def pool_ok_def limiter_ok_def split: if_splits)
  then obtain v ph where v: "dict_get ws v = Some ph" "holds ph = 1"
    using holder_exists [of ws] pool by (auto simp: pool_ok_def)
  then have "v \<noteq> w" "ph \<noteq> Parked" using w by auto
  then show ?thesis using v(1) by (auto simp: stirred_def dict_simps intro!: awakeI)
qed

text \<open>When a worker leaves, the permit it gives back wakes a parked one, if there is any.\<close>

lemma exit_stirred:
  assumes pool: "pool_ok s k l ws n" and rel: "lim_release l = (woken, l')" and w: "dict_get ws w = Some Ready"
  shows "stirred (dict_del w (wake woken ws))"
proof (cases woken)
  case (Some v)
  then have "dict_get ws v = Some Parked" using woken_parked [OF pool] rel by simp
  then have "v \<noteq> w" "dict_get (wake woken ws) v = Some Ready"
    using w wake_get [OF pool rel, of v] Some by auto
  then show ?thesis by (auto simp: stirred_def dict_simps intro!: awakeI)
next
  case None
  then have "lim_waiters l = []" using rel by (auto simp: lim_release_def Let_def split: list.splits)
  then have none: "dict_get ws v \<noteq> Some Parked" for v using pool by (auto simp: pool_ok_def)
  have "awake (dict_del w ws)" if nonempty: "dict_del w ws \<noteq> []"
  proof -
    obtain v ph where "(v, ph) \<in> set (dict_del w ws)" using nonempty by (metis list.set_sel(1) surj_pair)
    then have "dict_get (dict_del w ws) v = Some ph"
      using pool by (intro dict_mem_get) (auto simp: pool_ok_def)
    then show ?thesis using none [of v] by (auto simp: dict_simps split: if_splits intro: awakeI)
  qed
  then show ?thesis using None by (auto simp: stirred_def wake_def)
qed

subsection \<open>The four outcomes of a worker's turn at the loop head\<close>

lemma worker_run_cases:
  obtains (park) l where "lim_acquire w (eng_limiter e) = (False, l)"
      "worker_run w clk e = set_phase w Parked (e\<lparr>eng_limiter := l\<rparr>)"
  | (leave) l sc where "lim_acquire w (eng_limiter e) = (True, l)" "pop (eng_scheduler e) = (None, sc)"
      "eng_scheduler (worker_run w clk e) = sc"
      "eng_workers (worker_run w clk e) = dict_del w (wake (fst (lim_release l)) (eng_workers e))"
  | (drop) l sc jid it where "lim_acquire w (eng_limiter e) = (True, l)" "pop (eng_scheduler e) = (Some (jid, it), sc)"
      "eng_scheduler (worker_run w clk e) = sc"
      "eng_workers (worker_run w clk e) = wake (fst (lim_release l)) (eng_workers e)"
  | (take) l sc jid it ph where "lim_acquire w (eng_limiter e) = (True, l)"
      "pop (eng_scheduler e) = (Some (jid, it), sc)" "eng_scheduler (worker_run w clk e) = sc"
      "eng_workers (worker_run w clk e) = dict_mutate w (\<lambda>_. ph) (eng_workers e)"
      "ph \<in> {AwaitToken jid it 1 (clk_perf clk), AwaitReply jid it 1 (clk_perf clk)}"
proof -
  obtain taken l where acq: "lim_acquire w (eng_limiter e) = (taken, l)" by fastforce
  obtain got sc where pop: "pop (eng_scheduler e) = (got, sc)" by fastforce
  consider "\<not> taken" | "taken" "got = None" | jid it where "taken" "got = Some (jid, it)" by (cases got) auto
  then show thesis
  proof cases
    case 1
    then show thesis using acq by (intro park) (auto simp: worker_run_def)
  next
    case 2
    then show thesis using acq pop by (intro leave [of l sc]) (auto simp: worker_run_def frame Let_def)
  next
    case 3
    let ?e = "tally (\<lambda>m. m\<lparr>m_queue_depth := gau_set (PyInt (pending sc)) (m_queue_depth m),
      m_inflight := gau_set (PyInt (lim_in_use l)) (m_inflight m)\<rparr>) (e\<lparr>eng_limiter := l, eng_scheduler := sc\<rparr>)"
    have run: "worker_run w clk e = process_start w jid it clk ?e"
      using 3 by (simp add: worker_run_def acq pop)
    then consider "worker_run w clk e = worker_release ?e"
      | "worker_run w clk e = start_call w jid it 1 (clk_perf clk) clk ?e"
      by (auto simp: process_start_def split: option.splits if_splits)
    then show thesis
    proof cases
      case 1
      then show thesis using acq pop 3 by (intro drop [of l jid it sc]) (auto simp: frame)
    next
      case 2
      then show thesis
        using acq pop 3 by (cases rule: start_call_cases [of w jid it 1 "clk_perf clk" clk ?e])
          (auto simp: frame intro!: take [of l jid it sc])
    qed
  qed
qed

subsection \<open>The measure\<close>

lemma worker_run_progress:
  assumes pool: "pool_inv e" and sc: "scheduler_ok (eng_scheduler e)" and w: "dict_get (eng_workers e) w = Some Ready"
  shows "(progress (worker_run w clk e), progress e) \<in> progress_order"
proof -
  let ?s = "eng_settings e" and ?e = "worker_run w clk e"
  note ws = pool_dict_ok [OF pool] w
  have rel: "lim_release l = (fst (lim_release l), snd (lim_release l))" for l by simp
  have plus: "pool_ok ?s 1 l (eng_workers e) (eng_next_worker e)" if "lim_acquire w (eng_limiter e) = (True, l)" for l
    using pool_ok_acquire [OF pool that] by simp
  have s: "eng_settings ?e = ?s" by (rule worker_run_frame)
  show ?thesis
  proof (cases rule: worker_run_cases [of w e clk])
    case (park l)
    then have "eng_workers ?e = dict_mutate w (\<lambda>_. Parked) (eng_workers e)" "eng_scheduler ?e = eng_scheduler e"
      by (simp_all add: frame)
    then show ?thesis
      using pool_weight_mutate [OF ws, of ?s Parked] ready_count_mutate [OF ws, of Parked]
      by (simp add: progress_def work_left_def s)
  next
    case (leave l sc')
    let ?ws = "wake (fst (lim_release l)) (eng_workers e)"
    have "dict_get ?ws w = Some Ready" using wake_keeps [OF plus [OF leave(1)] rel w] by simp
    moreover have "dict_ok ?ws" using pool_dict_ok [OF pool_ok_release [OF plus [OF leave(1)] rel]] .
    ultimately have "pool_weight ?s (eng_workers ?e) + 1 = pool_weight ?s (eng_workers e)"
      using pool_weight_del [of ?ws w Ready ?s] pool_weight_wake [OF plus [OF leave(1)] rel] leave(4) by simp
    then show ?thesis
      using pop_NoneD(4) [OF sc leave(2)] by (simp add: progress_def work_left_def s leave(3))
  next
    case (drop l sc' jid it)
    have "pending sc' = pending (eng_scheduler e) - 1" by (rule pop_SomeD(4) [OF sc drop(2)])
    moreover have "0 < pending (eng_scheduler e)"
      using fair.count_pos [OF sc, of jid] pop_SomeD(1) [OF sc drop(2)] by simp
    ultimately have "nat (pending (eng_scheduler e)) = Suc (nat (pending sc'))" by simp
    then show ?thesis
      using pool_weight_wake [OF plus [OF drop(1)] rel]
      by (simp add: progress_def work_left_def s drop(3,4) item_weight_def)
  next
    case (take l sc' jid it ph)
    have "pending sc' = pending (eng_scheduler e) - 1" by (rule pop_SomeD(4) [OF sc take(2)])
    moreover have "0 < pending (eng_scheduler e)"
      using fair.count_pos [OF sc, of jid] pop_SomeD(1) [OF sc take(2)] by simp
    ultimately have "nat (pending (eng_scheduler e)) = Suc (nat (pending sc'))" by simp
    then show ?thesis
      using pool_weight_mutate [OF ws, of ?s ph] take(5)
      by (auto simp: progress_def work_left_def s take(3,4) item_weight_def)
  qed
qed

lemma settle_progress:
  assumes pool: "pool_inv e" and w: "dict_get (eng_workers e) w = Some ph" "0 < phase_weight (eng_settings e) ph"
    and re: "eng_workers (snd re) = eng_workers e" "eng_scheduler (snd re) = eng_scheduler e"
      "eng_limiter (snd re) = eng_limiter e \<or> eng_limiter (snd re) = record_success (eng_limiter e)"
      "eng_settings (snd re) = eng_settings e" "eng_next_worker (snd re) = eng_next_worker e"
  shows "(progress (settle w jid it start clk re), progress e) \<in> progress_order"
proof -
  let ?s = "eng_settings e" and ?l = "eng_limiter (snd re)"
  let ?ws = "wake (fst (lim_release ?l)) (eng_workers e)"
  have pool1: "pool_ok ?s 0 ?l (eng_workers e) (eng_next_worker e)"
    using pool pool_ok_adjust(2) [OF pool] re(3) by auto
  have rel: "lim_release ?l = (fst (lim_release ?l), snd (lim_release ?l))" by simp
  have np: "ph \<noteq> Parked" using w(2) by auto
  have "dict_ok ?ws" by (rule pool_dict_ok [OF pool_ok_release [OF pool1 rel]])
  from pool_weight_mutate [OF this wake_keeps [OF pool1 rel w(1) np], of ?s Ready]
  have "pool_weight ?s (dict_mutate w (\<lambda>_. Ready) ?ws) < pool_weight ?s (eng_workers e)"
    using w(2) pool_weight_wake [OF pool1 rel] by simp
  then show ?thesis by (simp add: progress_def work_left_def settle_def frame re)
qed

lemma worker_reply_progress:
  assumes pool: "pool_inv e" and w: "dict_get (eng_workers e) w = Some (AwaitReply jid it n start)"
  shows "(progress (worker_reply w jid it n start reply u clk e), progress e) \<in> progress_order"
proof (cases "retry_turn (eng_settings e) u n reply")
  case (Return out m)
  then show ?thesis
    unfolding worker_reply_def Return retry_decision.case
    by (intro settle_progress [OF pool w]) (simp_all add: frame)
next
  case (Raise exc)
  then show ?thesis
    unfolding worker_reply_def Raise retry_decision.case
    by (intro settle_progress [OF pool w]) (simp_all add: frame)
next
  case (BackOff m d)
  then have "m = n" by (auto dest: retry_turn_BackOffD)
  with BackOff pool_weight_mutate [OF pool_dict_ok [OF pool] w, of "eng_settings e" "AwaitBackoff jid it m start"]
  show ?thesis by (simp add: worker_reply_def progress_def work_left_def frame)
qed

lemma start_call_progress:
  assumes pool: "pool_inv e" and w: "dict_get (eng_workers e) w = Some ph"
    and less: "3 * attempts_left (eng_settings e) n + 2 < phase_weight (eng_settings e) ph"
  shows "(progress (start_call w jid it n start clk e), progress e) \<in> progress_order"
  by (rule start_call_cases [of w jid it n start clk e])
    (use pool_weight_mutate [OF pool_dict_ok [OF pool] w, of "eng_settings e" "AwaitReply jid it n start"]
      pool_weight_mutate [OF pool_dict_ok [OF pool] w, of "eng_settings e" "AwaitToken jid it n start"] less
      in \<open>simp_all add: progress_def work_left_def frame\<close>)

lemma token_granted_progress:
  assumes pool: "pool_inv e" and w: "dict_get (eng_workers e) w = Some (AwaitToken jid it n start)"
    and granted: "fst (tb_pass 1 (clk_loop clk) (eng_bucket e)) = None"
  shows "(progress (start_call w jid it n start clk e), progress e) \<in> progress_order"
  using granted
    pool_weight_mutate [OF pool_dict_ok [OF pool] w, of "eng_settings e" "AwaitReply jid it n start"]
  by (cases rule: start_call_cases [of w jid it n start clk e])
    (simp_all add: progress_def work_left_def frame)

subsection \<open>Liveness invariant\<close>

text \<open>A backoff is entered only with a retry left.\<close>

definition backoffs_ok :: "settings \<Rightarrow> (nat, worker_phase) dict \<Rightarrow> bool" where
  "backoffs_ok s ws \<longleftrightarrow>
     (\<forall>w jid it n start. dict_get ws w = Some (AwaitBackoff jid it n start) \<longrightarrow> n \<le> max_retries s)"

definition live_ok :: "settings \<Rightarrow> bool \<Rightarrow> fair_scheduler \<Rightarrow> (nat, worker_phase) dict \<Rightarrow> bool" where
  "live_ok s accepting sc ws \<longleftrightarrow>
     stirred ws \<and> backoffs_ok s ws \<and> (accepting \<and> 0 < pending sc \<longrightarrow> ws \<noteq> [])"

abbreviation live_inv :: "engine \<Rightarrow> bool" where
  "live_inv e \<equiv> live_ok (eng_settings e) (eng_accepting e) (eng_scheduler e) (eng_workers e)"

lemma live_ok_phase:
  assumes "live_ok s a sc ws" "dict_get ws w = Some ph" "ph' \<noteq> Parked"
    "\<And>jid it n start. ph' = AwaitBackoff jid it n start \<Longrightarrow> n \<le> max_retries s"
  shows "live_ok s a sc (dict_mutate w (\<lambda>_. ph') ws)"
proof -
  have "awake (dict_mutate w (\<lambda>_. ph') ws)"
    using assms(2,3) by (auto simp: dict_simps intro!: awakeI [of _ w])
  moreover from this have "dict_mutate w (\<lambda>_. ph') ws \<noteq> []" by (auto simp: awake_def)
  ultimately show ?thesis
    using assms by (auto simp: live_ok_def stirred_def backoffs_ok_def dict_simps split: if_splits)
qed

lemma live_ok_scheduler: "live_ok s a sc ws \<Longrightarrow> ws \<noteq> [] \<Longrightarrow> live_ok s a sc' ws"
  by (auto simp: live_ok_def)

lemma get_nonempty: "dict_get ws w = Some ph \<Longrightarrow> ws \<noteq> []"
  by auto

lemma live_ok_wake:
  assumes ok: "live_ok s a sc ws" and pool: "pool_ok t k l ws n" and rel: "lim_release l = (woken, l')"
  shows "live_ok s a sc (wake woken ws)"
proof (cases woken)
  case None
  then show ?thesis using ok by (simp add: wake_def)
next
  case (Some v)
  then show ?thesis
    using live_ok_phase [OF ok woken_parked [OF pool], of v l' Ready] rel by (simp add: wake_def)
qed

lemma worker_run_live:
  assumes pool: "pool_inv e" and sc: "scheduler_ok (eng_scheduler e)" and w: "dict_get (eng_workers e) w = Some Ready"
    and ok: "live_inv e" and pos: "1 \<le> lim_min (eng_limiter e)"
  shows "live_inv (worker_run w clk e)"
proof -
  let ?s = "eng_settings e" and ?e = "worker_run w clk e"
  have frame': "eng_settings ?e = ?s" "eng_accepting ?e = eng_accepting e" by (rule worker_run_frame)+
  have rel: "lim_release l = (fst (lim_release l), snd (lim_release l))" for l by simp
  have plus: "pool_ok ?s 1 l (eng_workers e) (eng_next_worker e)" if "lim_acquire w (eng_limiter e) = (True, l)" for l
    using pool_ok_acquire [OF pool that] by simp
  have ne: "eng_workers e \<noteq> []" using w by auto
  show ?thesis
  proof (cases rule: worker_run_cases [of w e clk])
    case (park l)
    then show ?thesis
      using park_stirred [OF pool park(1) w pos] ok ne
      by (auto simp: live_ok_def backoffs_ok_def frame dict_simps split: if_splits)
        (metis length_0_conv length_dict_mutate)
  next
    case (leave l sc')
    have "pending sc' = 0"
      using fair.count_zero_iff [OF pop_NoneD(3) [OF sc leave(2)]] pop_NoneD(2) [OF sc leave(2)] by blast
    moreover have "backoffs_ok ?s (wake (fst (lim_release l)) (eng_workers e))"
      using live_ok_wake [OF ok plus [OF leave(1)] rel] by (simp add: live_ok_def)
    ultimately show ?thesis
      using exit_stirred [OF plus [OF leave(1)] rel w] leave(3,4)
      by (auto simp: live_ok_def backoffs_ok_def frame' dict_simps)
  next
    case (drop l sc' jid it)
    have "live_ok ?s (eng_accepting e) sc' (eng_workers e)" using live_ok_scheduler [OF ok ne] .
    then show ?thesis using live_ok_wake [OF _ plus [OF drop(1)] rel] by (simp add: drop(3,4) frame')
  next
    case (take l sc' jid it ph)
    have "live_ok ?s (eng_accepting e) sc' (eng_workers e)" using live_ok_scheduler [OF ok ne] .
    from live_ok_phase [OF this w, of ph] take(5) show ?thesis by (auto simp: take(3,4) frame')
  qed
qed

lemma settle_live:
  assumes pool: "pool_inv e" and w: "dict_get (eng_workers e) w = Some ph" "ph \<noteq> Parked" and ok: "live_inv e"
    and re: "eng_workers (snd re) = eng_workers e" "eng_scheduler (snd re) = eng_scheduler e"
      "eng_limiter (snd re) = eng_limiter e \<or> eng_limiter (snd re) = record_success (eng_limiter e)"
      "eng_settings (snd re) = eng_settings e" "eng_next_worker (snd re) = eng_next_worker e"
      "eng_accepting (snd re) = eng_accepting e"
  shows "live_inv (settle w jid it start clk re)"
proof -
  let ?l = "eng_limiter (snd re)"
  have pool1: "pool_ok (eng_settings e) 0 ?l (eng_workers e) (eng_next_worker e)"
    using pool pool_ok_adjust(2) [OF pool] re(3) by auto
  have rel: "lim_release ?l = (fst (lim_release ?l), snd (lim_release ?l))" by simp
  from live_ok_phase [OF live_ok_wake [OF ok pool1 rel] wake_keeps [OF pool1 rel w], of Ready]
  show ?thesis by (simp add: settle_def frame re)
qed

lemma worker_reply_live:
  assumes pool: "pool_inv e" and w: "dict_get (eng_workers e) w = Some (AwaitReply jid it n start)" and ok: "live_inv e"
  shows "live_inv (worker_reply w jid it n start reply u clk e)"
proof (cases "retry_turn (eng_settings e) u n reply")
  case (Return out m)
  show ?thesis
    unfolding worker_reply_def Return retry_decision.case
    by (intro settle_live [OF pool w _ ok]) (simp_all add: frame)
next
  case (Raise exc)
  show ?thesis
    unfolding worker_reply_def Raise retry_decision.case
    by (intro settle_live [OF pool w _ ok]) (simp_all add: frame)
next
  case (BackOff m d)
  then have "m \<le> max_retries (eng_settings e)" by (auto dest: retry_turn_BackOffD)
  with BackOff live_ok_phase [OF ok w, of "AwaitBackoff jid it m start"] show ?thesis
    by (simp add: worker_reply_def frame)
qed

lemma start_call_live:
  assumes "live_inv e" "dict_get (eng_workers e) w = Some ph"
  shows "live_inv (start_call w jid it n start clk e)"
  by (rule start_call_cases [of w jid it n start clk e])
    (use live_ok_phase [OF assms, of "AwaitReply jid it n start"]
      live_ok_phase [OF assms, of "AwaitToken jid it n start"] in \<open>simp_all add: frame\<close>)

lemma ensure_workers_spawn:
  "\<exists>m. eng_workers (ensure_workers e) =
       eng_workers e @ map (\<lambda>w. (w, Ready)) [eng_next_worker e..<eng_next_worker e + m] \<and>
     (1 \<le> worker_pool_size (eng_settings e) \<and> eng_workers e = [] \<longrightarrow> 0 < m)"
  by (rule exI [of _ "nat (max 0 (min (worker_pool_size (eng_settings e)) (max 1 (pending (eng_scheduler e))) -
      int (length (eng_workers e))))"]) (simp add: ensure_workers_def Let_def less_max_iff_disj)

lemma spawn_live:
  assumes ok: "stirred ws" "backoffs_ok s ws"
  shows "stirred (ws @ map (\<lambda>w. (w, Ready)) [n..<n + m])" "backoffs_ok s (ws @ map (\<lambda>w. (w, Ready)) [n..<n + m])"
proof -
  let ?new = "map (\<lambda>w. (w, Ready)) [n..<n + m]"
  have old: "dict_get (ws @ ?new) w = dict_get ws w" if "dict_get ws w \<noteq> None" for w
    using that by (auto simp: map_add_def)
  have new: "dict_get (ws @ ?new) w = Some ph \<Longrightarrow> ph = Ready \<or> dict_get ws w = Some ph" for w ph
    by (auto simp: map_add_Some_iff dest!: dict_get_mem)
  show "backoffs_ok s (ws @ ?new)"
    unfolding backoffs_ok_def
  proof (intro allI impI)
    fix w jid it k start
    assume "dict_get (ws @ ?new) w = Some (AwaitBackoff jid it k start)"
    from new [OF this] have "dict_get ws w = Some (AwaitBackoff jid it k start)" by simp
    with ok(2) show "k \<le> max_retries s" unfolding backoffs_ok_def by blast
  qed
  show "stirred (ws @ ?new)"
  proof (cases "ws = []")
    case True
    have "awake ?new" if "0 < m"
    proof -
      have "dict_get ?new n = Some Ready"
        using that by (intro dict_mem_get) (auto simp: comp_def)
      then show ?thesis by (rule awakeI) simp
    qed
    with True show ?thesis by (cases "m = 0") (auto simp: stirred_def)
  next
    case False
    then obtain w ph where w: "dict_get ws w = Some ph" "ph \<noteq> Parked"
      using ok(1) by (auto simp: stirred_def awake_def)
    then have "dict_get (ws @ ?new) w = Some ph" using old [of w] by simp
    then show ?thesis using w(2) unfolding stirred_def by (blast intro: awakeI)
  qed
qed

lemma submit_live:
  assumes pool: "pool_inv e" and ok: "live_inv e" and size: "1 \<le> worker_pool_size (eng_settings e)"
  shows "live_inv (snd (submit_with_idempotency sha256 clk uid ps prio key e))"
proof (rule submit_effect [of sha256 clk uid ps prio key e])
  fix fp
  assume new: "snd (submit_with_idempotency sha256 clk uid ps prio key e) = register_job clk uid ps prio key fp e"
  let ?e = "register_job clk uid ps prio key fp e"
  obtain m where m: "eng_workers ?e = eng_workers e @ map (\<lambda>w. (w, Ready)) [eng_next_worker e..<eng_next_worker e + m]"
    "eng_workers e = [] \<longrightarrow> 0 < m"
  proof -
    let ?r = "refresh_gauges (tally (m_jobs_submitted_update ctr_inc1) e
      \<lparr>eng_store := store_create (submitted_job clk uid ps prio key fp) (eng_store e),
       eng_active := List.insert uid (eng_active e),
       eng_scheduler := add_job uid (work_items ps) prio (eng_scheduler e)\<rparr>)"
    have "?e = ensure_workers ?r" by (simp add: register_job_def Let_def)
    then show thesis using ensure_workers_spawn [of ?r] size that by (auto simp: frame)
  qed
  have "stirred (eng_workers ?e)" "backoffs_ok (eng_settings e) (eng_workers ?e)"
    unfolding m(1) using spawn_live ok by (auto simp: live_ok_def)
  moreover have "eng_workers ?e \<noteq> []" using m by auto
  ultimately show ?thesis unfolding new by (simp add: live_ok_def frame)
qed (use ok in auto)

definition live_settings_ok :: "settings \<Rightarrow> bool" where
  "live_settings_ok s \<longleftrightarrow> gate_settings_ok s \<and> 1 \<le> worker_pool_size s \<and>
     1 \<le> adaptive_min_concurrency s \<and> 1 \<le> global_max_concurrency s"

lemma engine_step_live:
  assumes pool: "pool_inv e" and book: "book_inv G e" and ok: "live_inv e"
    and s: "live_settings_ok (eng_settings e)" and st: "engine_step sha256 clk ev e = Some e'"
  shows "live_inv e'"
proof (cases ev)
  case (Submit uid ps prio key)
  then show ?thesis using st submit_live [OF pool ok] s by (auto simp: live_settings_ok_def split: if_splits)
next
  case (Replay uid jid prio)
  then show ?thesis
    using st ok submit_live [OF pool ok] s replay_effect [of sha256 clk uid jid prio e]
    by (auto simp: live_settings_ok_def split: if_splits)
next
  case (Cancel jid)
  then show ?thesis
    using st ok remove_job_pending [OF book_okD(2) [OF book], of jid] cancel_effect [of clk jid e]
    by (auto simp: live_ok_def frame)
next
  case (RunWorker w)
  have "1 \<le> lim_min (eng_limiter e)" using pool s by (simp add: pool_ok_def live_settings_ok_def)
  then show ?thesis
    using RunWorker st worker_run_live [OF pool book_okD(2) [OF book] _ ok]
    by auto
next
  case (TokenDue w)
  then show ?thesis using st start_call_live [OF ok] by auto
next
  case (ProviderReply w reply u)
  then show ?thesis using st worker_reply_live [OF pool _ ok] by auto
next
  case (BackoffOver w)
  then show ?thesis using st start_call_live [OF ok] by auto
next
  case ShutdownBegin
  then show ?thesis using st ok by (auto simp: shutdown_begin_def live_ok_def)
next
  case CancelWorkers
  then show ?thesis
    using st cancel_workers_pool(2) [OF pool]
    by (auto simp: live_ok_def stirred_def backoffs_ok_def frame split: if_splits)
next
  case InterruptJobs
  then show ?thesis using st ok by (auto simp: frame split: if_splits)
qed

lemma reachable_live:
  assumes "reachable sha256 s e G" "live_settings_ok s"
  shows "live_inv e"
  using assms
proof (induction rule: reachable.induct)
  case (start m)
  show ?case
    by (simp add: new_engine_def live_ok_def stirred_def backoffs_ok_def empty_scheduler_def Let_def)
next
  case (step e G clk ev e')
  have g: "gate_settings_ok s" using step.prems by (simp add: live_settings_ok_def)
  show ?case
    using engine_step_live [OF reachable_pool [OF step.hyps(1) g] reachable_book [OF step.hyps(1) g]]
      step reachable_settings [OF step.hyps(1)] by simp
qed

subsection \<open>Termination of the worker events\<close>

fun worker_event :: "engine_event \<Rightarrow> bool" where
  "worker_event (RunWorker w) = True"
| "worker_event (TokenDue w) = True"
| "worker_event (ProviderReply w reply u) = True"
| "worker_event (BackoffOver w) = True"
| "worker_event _ = False"

text \<open>A pass of the token bucket that puts the worker back to sleep.\<close>

fun token_refused :: "clock \<Rightarrow> engine_event \<Rightarrow> engine \<Rightarrow> bool" where
  "token_refused clk (TokenDue w) e \<longleftrightarrow> fst (tb_pass 1 (clk_loop clk) (eng_bucket e)) \<noteq> None"
| "token_refused clk _ e \<longleftrightarrow> False"

lemma worker_event_progress:
  assumes pool: "pool_inv e" and book: "book_inv G e" and ok: "live_inv e"
    and st: "engine_step sha256 clk ev e = Some e'" "worker_event ev" "\<not> token_refused clk ev e"
  shows "(progress e', progress e) \<in> progress_order"
proof (cases ev)
  case (RunWorker w)
  then show ?thesis
    using st worker_run_progress [OF pool book_okD(2) [OF book]] by auto
next
  case (TokenDue w)
  then show ?thesis
    using st token_granted_progress [OF pool] by auto
next
  case (ProviderReply w reply u)
  then show ?thesis
    using st worker_reply_progress [OF pool] by auto
next
  case (BackoffOver w)
  then obtain jid it n start where w: "dict_get (eng_workers e) w = Some (AwaitBackoff jid it n start)"
    and e': "e' = start_call w jid it (n + 1) start clk e"
    using st by auto
  have "n \<le> max_retries (eng_settings e)" using ok w unfolding live_ok_def backoffs_ok_def by blast
  then have "3 * attempts_left (eng_settings e) (n + 1) + 2 < 3 * attempts_left (eng_settings e) n"
    by (simp add: attempts_left_def)
  then show ?thesis unfolding e' using start_call_progress [OF pool w] by simp
qed (use st in auto)

subsection \<open>Quiescence\<close>

definition quiescent :: "engine \<Rightarrow> bool" where
  "quiescent e \<longleftrightarrow> (\<forall>w ph. dict_get (eng_workers e) w = Some ph \<longrightarrow> ph = Parked)"

lemma quiescent_drained:
  assumes book: "book_inv G e" and ok: "live_inv e" and q: "quiescent e" "eng_accepting e"
  shows "eng_workers e = []" "pending (eng_scheduler e) = 0"
proof -
  show ws: "eng_workers e = []"
    using ok q(1) by (auto simp: live_ok_def stirred_def awake_def quiescent_def)
  then show "pending (eng_scheduler e) = 0"
    using ok q(2) fair.count_nonneg [OF book_okD(2) [OF book]] by (auto simp: live_ok_def)
qed

lemma quiescent_jobs:
  assumes book: "book_inv G e" and ok: "live_inv e" and q: "quiescent e" "eng_accepting e"
    and j: "get_job e jid = Some j" "0 < total j"
  shows "state j = COMPLETED \<and> completed j = total j \<or> state j = CANCELLED"
proof -
  note drained = quiescent_drained [OF book ok q]
  obtain its where its: "job_book (live e) its (queued_seqs jid (eng_scheduler e) + flying jid (eng_workers e)) j"
    using book_okD(6) [OF book] j(1) by (auto simp: get_job_def)
  have "queued_seqs jid (eng_scheduler e) + flying jid (eng_workers e) = {#}"
    using drained fair.count_zero_iff [OF book_okD(2) [OF book]] by (simp add: queued_seqs_def flying_def)
  then have eq: "state j = RUNNING \<longrightarrow> mset (dict_keys (results j)) = mset [0..<length its]" and inv: "job_inv its j"
    using its q(2) by (auto simp: job_book_def live_def)
  have "state j \<noteq> RUNNING"
  proof
    assume run: "state j = RUNNING"
    then have "length (results j) = length its"
      using eq by (metis length_map length_upt minus_nat.diff_0 size_mset)
    with inv run j(2) show False by (auto simp: job_inv_def)
  qed
  with inv show ?thesis by (auto simp: job_inv_def)
qed

end
