(* ===== verification/Engine_Jobs.thy ===== *)
theory Engine_Jobs
  imports Engine_Live
begin

text \<open>
  How jobs change over a run: \<^verbatim>\<open>job_evolves\<close> says that identity, size and timestamps of birth are
  fixed, counters only grow, a recorded result is never replaced, and a terminal state is final;
  \<^verbatim>\<open>store_evolves\<close> adds that no job disappears and that an idempotency key stays bound to its job.
  Every step of the engine makes the store evolve in this sense.
\<close>

definition job_evolves :: "job \<Rightarrow> job \<Rightarrow> bool" where
  "job_evolves j j' \<longleftrightarrow>
     job_id j' = job_id j \<and> total j' = total j \<and> job_priority j' = job_priority j \<and>
     idempotency_key j' = idempotency_key j \<and> request_fingerprint j' = request_fingerprint j \<and>
     created_at j' = created_at j \<and> started_at j' = started_at j \<and>
     completed j \<le> completed j' \<and> retries j \<le> retries j' \<and>
     (\<forall>k r. dict_get (results j) k = Some r \<longrightarrow> dict_get (results j') k = Some r) \<and>
     (terminal (state j) \<longrightarrow> state j' = state j \<and> finished_at j' = finished_at j)"

definition store_evolves :: "job_store \<Rightarrow> job_store \<Rightarrow> bool" where
  "store_evolves st st' \<longleftrightarrow>
     (\<forall>jid j. store_get st jid = Some j \<longrightarrow> (\<exists>j'. store_get st' jid = Some j' \<and> job_evolves j j')) \<and>
     (\<forall>k jid. dict_get (by_key st) k = Some jid \<longrightarrow> dict_get (by_key st') k = Some jid)"

lemma job_evolves_refl [simp]: "job_evolves j j"
  by (simp add: job_evolves_def)

lemma job_evolves_trans: "job_evolves a b \<Longrightarrow> job_evolves b c \<Longrightarrow> job_evolves a c"
  by (auto simp: job_evolves_def)

lemma store_evolves_refl [simp]: "store_evolves st st"
  by (auto simp: store_evolves_def)

lemma store_evolves_trans:
  assumes "store_evolves a b" "store_evolves b c"
  shows "store_evolves a c"
  using assms unfolding store_evolves_def by (meson job_evolves_trans)

lemma store_evolves_job:
  assumes "store_evolves (eng_store e) (eng_store e')" "get_job e jid = Some j"
  obtains j' where "get_job e' jid = Some j'" "job_evolves j j'"
  using assms unfolding store_evolves_def get_job_def by blast

lemma store_evolves_mutate:
  assumes "\<And>j. store_get st jid = Some j \<Longrightarrow> job_evolves j (f j)"
  shows "store_evolves st (store_mutate jid f st)"
  using assms by (auto simp: store_evolves_def dict_simps)

lemma store_evolves_create:
  assumes "store_get st (job_id j) = None"
    "\<And>k. idempotency_key j = Some k \<Longrightarrow> k \<noteq> [] \<Longrightarrow> dict_get (by_key st) k = None"
  shows "store_evolves st (store_create j st)"
  using assms by (auto simp: store_evolves_def dict_simps by_key_create)

lemma find_None_iff:
  assumes "store_ok st"
  shows "find_by_idempotency_key st k = None \<longleftrightarrow> dict_get (by_key st) k = None"
  using assms store_ok_keys [OF assms, of k]
  by (cases "dict_get (by_key st) k") (auto simp: find_eq)

subsection \<open>The steps\<close>

lemma flying_fresh:
  assumes book: "book_ok b G st sc ws" and ws: "dict_ok ws" "dict_get ws w = Some ph"
    and ph: "phase_item ph = Some (jid, it)" and j: "store_get st jid = Some j"
  shows "dict_get (results j) (item_seq it) = None"
proof -
  obtain its where its: "job_book b its (queued_seqs jid sc + flying jid ws) j"
    using book_okD(6) [OF book j] by blast
  have "flying jid (dict_mutate w (\<lambda>_. Ready) ws) + {#item_seq it#} = flying jid ws"
    using flying_mutate [OF ws, of jid Ready] ph by (simp add: seqs_for_def)
  then have "{#item_seq it#} + mset (dict_keys (results j)) \<subseteq>#
      queued_seqs jid sc + flying jid ws + mset (dict_keys (results j))"
    by (metis mset_subset_eq_add_left mset_subset_eq_add_right subset_mset.add_right_mono subset_mset.order_trans)
  moreover have "queued_seqs jid sc + flying jid ws + mset (dict_keys (results j)) \<subseteq># mset [0..<length its]"
    using its unfolding job_book_def by blast
  ultimately have "{#item_seq it#} + mset (dict_keys (results j)) \<subseteq># mset [0..<length its]"
    by (rule subset_mset.order_trans)
  from mset_subset_eq_count [OF this, of "item_seq it"]
  have "count (mset (dict_keys (results j))) (item_seq it) = 0" by (simp add: count_mset_set' split: if_splits)
  then show ?thesis unfolding dict_get_None_keys by (metis count_mset_0_iff)
qed

lemma finish_job_evolves: "\<not> terminal (state j) \<Longrightarrow> job_evolves j (finish_job st now j)"
  by (simp add: job_evolves_def) (simp add: finish_job_def)

lemma file_result_evolves:
  assumes "dict_get (results j) (item_seq it) = None" "job_evolves j i" "results i = results j" "state i = state j"
  shows "job_evolves j (file_result it r now i)"
proof -
  let ?i = "i\<lparr>completed := completed i + 1, results := dict_set (item_seq it) r (results i)\<rparr>"
  have i: "job_evolves j ?i"
    using assms by (auto simp: job_evolves_def dict_simps)
  moreover have "job_evolves ?i (finish_job COMPLETED now ?i)" if "state i = RUNNING"
    using that by (intro finish_job_evolves) (simp add: terminal_def)
  ultimately show ?thesis
    by (auto simp: file_result_def Let_def intro: job_evolves_trans)
qed

lemma settle_evolves:
  assumes j: "get_job e jid = Some j" and fresh: "dict_get (results j) (item_seq it) = None"
    and re: "eng_store (snd re) = store_mutate jid g (eng_store e)"
    and g: "job_evolves j (g j)" "results (g j) = results j" "state (g j) = state j"
  shows "store_evolves (eng_store e) (eng_store (settle w jid it start clk re))"
proof -
  show ?thesis
    unfolding settle_store [OF j re] using j file_result_evolves [OF fresh g] by (auto simp: get_job_def intro!: store_evolves_mutate)
qed

lemma item_returned_evolves:
  "\<exists>g. eng_store (snd (item_returned jid it out n e)) = store_mutate jid g (eng_store e) \<and>
     (\<forall>j. job_evolves j (g j) \<and> results (g j) = results j \<and> state (g j) = state j)"
proof (cases "chars_per_token (eng_settings e) = 0")
  case True
  then show ?thesis
    by (intro exI [of _ "\<lambda>j. j\<lparr>failed := failed j + 1\<rparr>"])
      (simp add: item_returned_def estimate_tokens_def frame job_evolves_def Let_def)
next
  case False
  let ?s = "eng_settings e"
  obtain a b where ab: "estimate_tokens ?s (item_prompt it) = Inr a" "estimate_tokens ?s out = Inr b"
    using False by (simp add: estimate_tokens_def)
  show ?thesis
    by (intro exI [of _ "credit_success a b (token_cost ?s a b)"])
      (simp add: item_returned_def ab job_evolves_def credit_success_def Let_def)
qed

lemma worker_reply_evolves:
  assumes j: "get_job e jid = Some j" and fresh: "dict_get (results j) (item_seq it) = None"
  shows "store_evolves (eng_store e) (eng_store (worker_reply w jid it n start reply u clk e))"
proof (cases "retry_turn (eng_settings e) u n reply")
  case (Return out m)
  obtain g where g: "eng_store (snd (item_returned jid it out m e)) = store_mutate jid g (eng_store e)"
    "\<forall>j. job_evolves j (g j) \<and> results (g j) = results j \<and> state (g j) = state j"
    using item_returned_evolves [of jid it out m e] by blast
  show ?thesis
    unfolding worker_reply_def Return retry_decision.case
    by (rule settle_evolves [OF j fresh g(1)]) (simp_all add: g(2))
next
  case (Raise exc)
  show ?thesis
    unfolding worker_reply_def Raise retry_decision.case
    by (rule settle_evolves [OF j fresh item_failed_frame(2)]) (simp_all add: job_evolves_def)
next
  case (BackOff m d)
  have "store_evolves (eng_store e) (store_mutate jid (\<lambda>j. j\<lparr>retries := retries j + 1\<rparr>) (eng_store e))"
    by (rule store_evolves_mutate) (simp add: job_evolves_def)
  with BackOff show ?thesis by (simp add: worker_reply_def frame)
qed

lemma submit_evolves:
  assumes ok: "store_ok (eng_store e)" and fresh: "fresh_id uid e"
  shows "store_evolves (eng_store e) (eng_store (snd (submit_with_idempotency sha256 clk uid ps prio key e)))"
proof (rule submit_effect [of sha256 clk uid ps prio key e])
  fix fp
  assume new: "snd (submit_with_idempotency sha256 clk uid ps prio key e) = register_job clk uid ps prio key fp e"
    and none: "\<And>k. key = Some k \<Longrightarrow> k \<noteq> [] \<Longrightarrow> find_by_idempotency_key (eng_store e) k = None"
  have "store_evolves (eng_store e) (store_create (submitted_job clk uid ps prio key fp) (eng_store e))"
    using fresh none find_None_iff [OF ok]
    by (intro store_evolves_create) (auto simp: submitted_job_def new_job_def fresh_id_def get_job_def)
  with new show ?thesis by (simp add: frame)
qed simp

lemma interrupt_fold_evolves:
  assumes "distinct (map job_id js)" "\<forall>j \<in> set js. store_get (eng_store e) (job_id j) = Some j"
  shows "store_evolves (eng_store e) (eng_store (fold (interrupt_job clk) js e))"
  using assms
proof (induction js arbitrary: e)
  case (Cons j js)
  let ?e = "interrupt_job clk j e"
  have "store_evolves (eng_store e) (eng_store ?e)"
    using Cons.prems(2) finish_job_evolves [of j CANCELLED "clk_wall_each clk (job_id j)"]
    by (auto simp: interrupt_job_def frame terminal_def intro!: store_evolves_mutate)
  moreover have "\<forall>i \<in> set js. store_get (eng_store ?e) (job_id i) = Some i"
  proof
    fix i assume i: "i \<in> set js"
    then have "job_id i \<noteq> job_id j" using Cons.prems(1) by (auto simp: image_iff)
    with i Cons.prems(2) show "store_get (eng_store ?e) (job_id i) = Some i"
      by (simp add: interrupt_job_def frame dict_simps)
  qed
  then have "store_evolves (eng_store ?e) (eng_store (fold (interrupt_job clk) js ?e))"
    using Cons.IH [of ?e] Cons.prems(1) by simp
  ultimately show ?case by (auto intro: store_evolves_trans)
qed simp

lemma engine_step_evolves:
  assumes pool: "pool_inv e" and book: "book_inv G e" and st: "engine_step sha256 clk ev e = Some e'"
  shows "store_evolves (eng_store e) (eng_store e')"
proof (cases ev)
  case (Submit uid ps prio key)
  then show ?thesis using st submit_evolves [OF book_okD(1) [OF book]] by (auto split: if_splits)
next
  case (Replay uid jid prio)
  then show ?thesis
    using st submit_evolves [OF book_okD(1) [OF book]] replay_effect [of sha256 clk uid jid prio e]
    by (auto split: if_splits)
next
  case (Cancel jid)
  then show ?thesis
    using st cancel_effect [of clk jid e]
    by (auto simp: frame get_job_def intro!: store_evolves_mutate finish_job_evolves)
next
  case (RunWorker w)
  then show ?thesis
    using st worker_run_frame(1) [of w clk e] by auto
next
  case (ProviderReply w reply u)
  then obtain jid it n start where w: "dict_get (eng_workers e) w = Some (AwaitReply jid it n start)"
    and e': "e' = worker_reply w jid it n start reply u clk e"
    using st by auto
  obtain j where j: "get_job e jid = Some j"
    using book_okD(5) [OF book w, of jid it] by (auto simp: get_job_def)
  have "dict_get (results j) (item_seq it) = None"
    using flying_fresh [OF book pool_dict_ok [OF pool] w, of jid it j] j by (simp add: get_job_def)
  with j show ?thesis unfolding e' by (rule worker_reply_evolves)
next
  case InterruptJobs
  have ok: "store_ok (eng_store e)" by (rule book_okD(1) [OF book])
  have "store_evolves (eng_store e) (eng_store (interrupt_jobs clk e))"
    unfolding interrupt_jobs_def
    using store_all_distinct [OF ok] store_all_iff [OF ok] by (intro interrupt_fold_evolves) auto
  then show ?thesis using InterruptJobs st by (auto split: if_splits)
qed (use st in \<open>auto simp: frame shutdown_begin_def split: if_splits\<close>)

lemma run_evolves:
  assumes "run_events sha256 evs (e, G) = Some (e', G')" "reachable sha256 s e G" "gate_settings_ok s"
  shows "store_evolves (eng_store e) (eng_store e') \<and> reachable sha256 s e' G'"
  using assms
proof (induction evs arbitrary: e G)
  case (Cons ce evs)
  obtain clk ev e1 where step: "engine_step sha256 clk ev e = Some e1"
    and rest: "run_events sha256 evs (e1, ledger_step ev e G) = Some (e', G')"
    using Cons.prems(1) by (cases ce) (auto split: option.splits)
  have "store_evolves (eng_store e) (eng_store e1)"
    using engine_step_evolves [OF reachable_pool reachable_book step] Cons.prems(2,3) by blast
  with Cons.IH [OF rest reachable.step [OF Cons.prems(2) step] Cons.prems(3)] show ?case
    by (blast intro: store_evolves_trans)
qed simp

subsection \<open>After a shutdown\<close>

lemma interrupt_fold_states:
  assumes "distinct (map job_id js)" "\<forall>j \<in> set js. store_get (eng_store e) (job_id j) = Some j"
    "store_get (eng_store (fold (interrupt_job clk) js e)) jid = Some i"
  shows "state i \<notin> {PENDING, RUNNING} \<or> store_get (eng_store e) jid = Some i \<and> jid \<notin> job_id ` set js"
  using assms
proof (induction js arbitrary: e)
  case (Cons j js)
  let ?e = "interrupt_job clk j e"
  have others: "store_get (eng_store ?e) k = (if k = job_id j \<and> state j \<in> {PENDING, RUNNING}
      then Some (finish_job CANCELLED (clk_wall_each clk (job_id j)) j) else store_get (eng_store e) k)" for k
    using Cons.prems(2) by (simp add: interrupt_job_def frame dict_simps)
  have "\<forall>k \<in> set js. store_get (eng_store ?e) (job_id k) = Some k"
    using Cons.prems(1,2) unfolding others by (auto simp: image_iff)
  with Cons.IH [of ?e] Cons.prems(1,3)
  have "state i \<notin> {PENDING, RUNNING} \<or> store_get (eng_store ?e) jid = Some i \<and> jid \<notin> job_id ` set js"
    by simp
  moreover have "store_get (eng_store e) (job_id j) = Some j" using Cons.prems(2) by simp
  ultimately show ?case unfolding others by (auto split: if_splits)
qed simp

lemma interrupt_jobs_states:
  assumes ok: "store_ok (eng_store e)" and i: "get_job (interrupt_jobs clk e) jid = Some i"
  shows "state i \<notin> {PENDING, RUNNING}"
proof -
  have "state i \<notin> {PENDING, RUNNING} \<or> store_get (eng_store e) jid = Some i \<and> jid \<notin> job_id ` set (store_all (eng_store e))"
    using i store_all_distinct [OF ok] store_all_iff [OF ok]
    by (intro interrupt_fold_states) (auto simp: interrupt_jobs_def get_job_def)
  moreover have "jid \<in> job_id ` set (store_all (eng_store e))" if "store_get (eng_store e) jid = Some i"
    using that store_ok_ids [OF ok that] store_all_iff [OF ok, of i] by force
  ultimately show ?thesis by blast
qed

lemma shutdown_effect:
  assumes pool: "pool_inv e" and ok: "store_ok (eng_store e)"
  shows "eng_workers (shutdown clk e) = []" "lim_in_use (eng_limiter (shutdown clk e)) = 0"
    "lim_waiters (eng_limiter (shutdown clk e)) = []" "\<not> eng_accepting (shutdown clk e)"
    "get_job (shutdown clk e) jid = Some i \<Longrightarrow> state i \<notin> {PENDING, RUNNING}"
proof -
  have pool1: "pool_inv (shutdown_begin e)" using pool by (simp add: shutdown_begin_def)
  note killed = cancel_workers_pool [OF pool1]
  show "eng_workers (shutdown clk e) = []" "\<not> eng_accepting (shutdown clk e)"
    using killed(2) by (simp_all add: shutdown_def frame shutdown_begin_def)
  show "lim_in_use (eng_limiter (shutdown clk e)) = 0" "lim_waiters (eng_limiter (shutdown clk e)) = []"
    using killed by (auto simp: shutdown_def frame pool_ok_def permits_held_def)
  have "store_ok (eng_store (cancel_workers (shutdown_begin e)))"
    using ok by (simp add: frame shutdown_begin_def)
  then show "get_job (shutdown clk e) jid = Some i \<Longrightarrow> state i \<notin> {PENDING, RUNNING}"
    unfolding shutdown_def by (rule interrupt_jobs_states)
qed

end
