(* ===== verification/Engine_Rate.thy ===== *)
theory Engine_Rate
  imports Engine_Jobs
begin

text \<open>
  The token bucket inside the engine. The constructor passes \<^verbatim>\<open>provider_burst or provider_max_rps\<close> as
  the capacity, so that a configured rate below one request per second gives a bucket that can never
  hold the one token a call needs.
\<close>

definition bucket_within :: "settings \<Rightarrow> token_bucket \<Rightarrow> bool" where
  "bucket_within s b \<longleftrightarrow> tb_rate b = provider_max_rps s \<and>
     tb_capacity b = (if provider_burst s \<noteq> 0 then provider_burst s else provider_max_rps s) \<and>
     tb_tokens b \<le> tb_capacity b"

lemma tb_refill_within: "bucket_within s b \<Longrightarrow> bucket_within s (tb_refill now b)"
  by (auto simp: bucket_within_def tb_refill_def Let_def split: option.split)

lemma tb_pass_within:
  assumes "bucket_within s b" "fl (tb_capacity b) = tb_capacity b"
  shows "bucket_within s (snd (tb_pass 1 now b))"
proof -
  let ?b = "tb_refill now b"
  have ok: "bucket_within s ?b" using assms(1) by (rule tb_refill_within)
  have "tb_tokens ?b - 1 \<le> tb_capacity b" using ok assms(1) by (simp add: bucket_within_def)
  then have "fl (tb_tokens ?b - 1) \<le> tb_capacity b" by (rule binary64.rnd_le [OF assms(2)])
  then show ?thesis using ok assms(1) by (auto simp: tb_pass_def bucket_within_def Let_def)
qed

definition token_starved :: "settings \<Rightarrow> bool" where
  "token_starved s \<longleftrightarrow> 0 < provider_max_rps s \<and> provider_max_rps s < 1 \<and> provider_burst s = 0 \<and>
     fl (provider_max_rps s) = provider_max_rps s"

lemma starved_pass:
  assumes "bucket_within s b" "token_starved s"
  shows "fst (tb_pass 1 now b) \<noteq> None" "bucket_within s (snd (tb_pass 1 now b))"
proof -
  have "tb_tokens (tb_refill now b) < 1" "0 < tb_rate b"
    using tb_refill_within [OF assms(1), of now] assms by (auto simp: bucket_within_def token_starved_def)
  then show "fst (tb_pass 1 now b) \<noteq> None" by (simp add: tb_pass_def Let_def)
  show "bucket_within s (snd (tb_pass 1 now b))"
    using assms by (intro tb_pass_within) (auto simp: bucket_within_def token_starved_def)
qed

text \<open>No call has reached the provider.\<close>

fun before_call :: "worker_phase \<Rightarrow> bool" where
  "before_call Ready = True"
| "before_call Parked = True"
| "before_call (AwaitToken jid it n start) = True"
| "before_call _ = False"

definition starved_inv :: "settings \<Rightarrow> engine \<Rightarrow> bool" where
  "starved_inv s e \<longleftrightarrow> bucket_within s (eng_bucket e) \<and>
     (\<forall>w ph. dict_get (eng_workers e) w = Some ph \<longrightarrow> before_call ph)"

lemma starved_start_call:
  assumes "starved_inv s e" "token_starved s"
  shows "starved_inv s (start_call w jid it n start clk e)"
proof (rule start_call_cases [of w jid it n start clk e])
  fix t b
  assume "start_call w jid it n start clk e = set_phase w (AwaitToken jid it n start) (e\<lparr>eng_bucket := b\<rparr>)"
    "tb_pass 1 (clk_loop clk) (eng_bucket e) = (Some t, b)"
  then show ?thesis
    using assms starved_pass [of s "eng_bucket e" "clk_loop clk"]
    by (auto simp: starved_inv_def frame dict_simps split: if_splits)
qed (use assms starved_pass [of s "eng_bucket e" "clk_loop clk"] in \<open>auto simp: starved_inv_def\<close>)

lemma starved_wake:
  "\<forall>w ph. dict_get ws w = Some ph \<longrightarrow> before_call ph \<Longrightarrow>
     \<forall>w ph. dict_get (wake woken ws) w = Some ph \<longrightarrow> before_call ph"
  by (auto simp: wake_def dict_simps split: option.split if_splits)

lemma starved_release: "starved_inv s e \<Longrightarrow> starved_inv s (worker_release e)"
  using starved_wake [of "eng_workers e"] by (simp add: starved_inv_def frame)

lemma starved_run:
  assumes inv: "starved_inv s e" and s: "token_starved s"
  shows "starved_inv s (worker_run w clk e)"
proof -
  have start: "starved_inv s (process_start w jid it clk e')" if "starved_inv s e'" for jid it e'
    using that starved_release starved_start_call [OF that s]
    by (auto simp: process_start_def split: option.split)
  have rel: "starved_inv s (worker_release (e\<lparr>eng_limiter := l, eng_scheduler := sc\<rparr>))" for l sc
    using inv by (intro starved_release) (simp add: starved_inv_def)
  obtain b l where acq: "lim_acquire w (eng_limiter e) = (b, l)" by fastforce
  obtain got sc where pop: "pop (eng_scheduler e) = (got, sc)" by fastforce
  consider "\<not> b" | "b" "got = None" | jid it where "b" "got = Some (jid, it)" by (cases got) auto
  then show ?thesis
  proof cases
    case 3
    have "starved_inv s (tally f (e\<lparr>eng_limiter := l, eng_scheduler := sc\<rparr>))" for f
      using inv by (simp add: starved_inv_def)
    then show ?thesis using 3 by (simp add: worker_run_def acq pop start)
  qed (use inv rel [of sc l] in
      \<open>auto simp: worker_run_def acq pop starved_inv_def frame dict_simps Let_def split: if_splits\<close>)
qed

lemma starved_spawn:
  "\<forall>w ph. dict_get ws w = Some ph \<longrightarrow> before_call ph \<Longrightarrow>
     \<forall>w ph. dict_get (ws @ map (\<lambda>w. (w, Ready)) us) w = Some ph \<longrightarrow> before_call ph"
  by (auto simp: map_add_Some_iff dest!: dict_get_mem)

lemma starved_submit:
  assumes "starved_inv s e"
  shows "starved_inv s (snd (submit_with_idempotency sha256 clk uid ps prio key e))"
proof -
  have "starved_inv s (register_job clk uid ps prio key fp e)" for fp
    using assms starved_spawn [of "eng_workers e"]
    by (simp add: starved_inv_def register_job_def ensure_workers_def refresh_gauges_def Let_def)
  then show ?thesis
    by (rule_tac submit_effect [of sha256 clk uid ps prio key e]) (use assms in \<open>auto simp: starved_inv_def\<close>)
qed

lemma starved_step:
  assumes pool: "pool_inv e" and inv: "starved_inv s e" and s: "token_starved s"
    and st: "engine_step sha256 clk ev e = Some e'"
  shows "starved_inv s e'"
proof (cases ev)
  case (Submit uid ps prio key)
  then show ?thesis using st starved_submit [OF inv] by (auto split: if_splits)
next
  case (Replay uid jid prio)
  then show ?thesis
    using st inv starved_submit [OF inv] replay_effect [of sha256 clk uid jid prio e] by (auto split: if_splits)
next
  case (Cancel jid)
  then show ?thesis using st inv cancel_effect [of clk jid e] by (auto simp: starved_inv_def frame)
next
  case (RunWorker w)
  then show ?thesis using st starved_run [OF inv s] by auto
next
  case (TokenDue w)
  then show ?thesis using st starved_start_call [OF inv s] by auto
next
  case (ProviderReply w reply u)
  then obtain jid it n start where "dict_get (eng_workers e) w = Some (AwaitReply jid it n start)"
    using st by auto
  then have "before_call (AwaitReply jid it n start)" using inv unfolding starved_inv_def by blast
  then show ?thesis by simp
next
  case (BackoffOver w)
  then obtain jid it n start where "dict_get (eng_workers e) w = Some (AwaitBackoff jid it n start)"
    using st by auto
  then have "before_call (AwaitBackoff jid it n start)" using inv unfolding starved_inv_def by blast
  then show ?thesis by simp
next
  case CancelWorkers
  have "eng_bucket (cancel_workers e) = eng_bucket e"
  proof -
    have "eng_bucket (cancel_task w e) = eng_bucket e" for w e
      by (simp add: cancel_task_def cancel_worker_def frame Let_def split: option.split worker_phase.split)
    then show ?thesis unfolding cancel_workers_def by (rule fold_keeps)
  qed
  with CancelWorkers show ?thesis
    using st inv cancel_workers_pool(2) [OF pool] by (auto simp: starved_inv_def split: if_splits)
qed (use st inv in \<open>auto simp: starved_inv_def shutdown_begin_def frame split: if_splits\<close>)

lemma reachable_starved:
  assumes "reachable sha256 s e G" "gate_settings_ok s" "token_starved s"
  shows "starved_inv s e"
  using assms
proof (induction rule: reachable.induct)
  case (start m)
  then show ?case
    by (simp add: starved_inv_def bucket_within_def new_engine_def new_token_bucket_def token_starved_def Let_def)
next
  case (step e G clk ev e')
  then show ?case using starved_step reachable_pool by blast
qed

end
