(* ===== verification/Engine_Facts.thy ===== *)
theory Engine_Facts
  imports Engine_Rate
begin

text \<open>
  What the invariants say of single jobs and submissions of a reachable engine, in the form the
  properties of the engine, of the API and of the self-test use.
\<close>

subsection \<open>Jobs of a reachable engine\<close>

lemma reachable_job:
  assumes "reachable sha256 s e G" "gate_settings_ok s" "get_job e jid = Some j"
  obtains its where "G jid = Some its" "job_inv its j"
    "job_book (live e) its (queued_seqs jid (eng_scheduler e) + flying jid (eng_workers e)) j"
  using book_okD(6) [OF reachable_book [OF assms(1,2)]] assms(3) by (auto simp: get_job_def job_book_def)

lemma completed_keys:
  assumes inv: "job_inv its j" and st: "state j = COMPLETED"
  shows "set (dict_keys (results j)) = {0..<length its}"
proof -
  have "set (dict_keys (results j)) \<subseteq> {0..<length its}" using inv by (auto simp: job_inv_def)
  moreover have "dict_ok (results j)" "length (results j) = length its" using inv st by (auto simp: job_inv_def)
  then have "card (set (dict_keys (results j))) = length its" by (metis distinct_card length_map)
  ultimately show ?thesis by (simp add: card_subset_eq)
qed

text \<open>The results of a completed job, in submission order, are those of the requested items.\<close>

lemma completed_results:
  assumes "reachable sha256 s e G" "gate_settings_ok s" "get_job e jid = Some j" "state j = COMPLETED"
  shows "\<exists>its. G jid = Some its \<and>
    map (\<lambda>r. (res_id r, res_prompt r)) (ordered_results j) = map (\<lambda>it. (item_id it, item_prompt it)) its"
proof -
  obtain its where its: "G jid = Some its" and inv: "job_inv its j"
    using reachable_job [OF assms(1-3)] by blast
  let ?n = "length its"
  have ok: "dict_ok (results j)" and len: "length (results j) = ?n"
    using inv assms(4) by (auto simp: job_inv_def)
  note keys = completed_keys [OF inv assms(4)]
  have "res_id (ordered_results j ! i) = item_id (its ! i) \<and> res_prompt (ordered_results j ! i) = item_prompt (its ! i)"
    if i: "i < ?n" for i
  proof -
    obtain r where r: "(i, r) \<in> set (results j)" using keys i by (metis atLeastLessThan_iff imageE le0 list.set_map prod.collapse)
    then have "ordered_results j ! i = r"
      using ordered_results_nth [OF ok keys i] dict_mem_get [OF ok r] by simp
    with inv r show ?thesis by (auto simp: job_inv_def)
  qed
  with its len show ?thesis by (auto intro!: nth_equalityI)
qed

lemma failed_is_dead_letter:
  assumes "reachable sha256 s e G" "gate_settings_ok s" "get_job e jid = Some j"
  shows "failed j = int (length (dead_letter j))"
proof -
  obtain its where inv: "job_inv its j" using reachable_job [OF assms] by blast
  have "length (dead_letter j) = length (filter (\<lambda>x. \<not> res_success (snd x)) (results j))"
    using length_dead_letter [of j] inv by (simp add: job_inv_def filter_map comp_def)
  then show ?thesis
    using inv sum_length_filter_compl [of "\<lambda>x. res_success (snd x)" "results j"]
    by (auto simp: job_inv_def count_success_def)
qed

lemma job_inv_counts: "job_inv its j \<Longrightarrow> completed j = succeeded j + failed j"
  using sum_length_filter_compl [of "\<lambda>x. res_success (snd x)" "results j"]
  by (auto simp: job_inv_def count_success_def)

lemma reachable_in_use:
  assumes "reachable sha256 s e G" "gate_settings_ok s"
  shows "lim_in_use (eng_limiter e) \<le> global_max_concurrency s"
  using reachable_pool [OF assms] reachable_settings [OF assms(1)] by (simp add: pool_ok_def)

subsection \<open>Submissions\<close>

lemma submit_found:
  assumes "eng_accepting e" "k \<noteq> []" "find_by_idempotency_key (eng_store e) k = Some j"
  shows "submit_with_idempotency sha256 clk uid ps prio (Some k) e =
    (if request_fingerprint j = Some (fingerprint sha256 ps prio)
     then (Inr (job_id j, True), tally (m_idempotent_reuse_update ctr_inc1) e)
     else (Inl (IdempotencyConflictError (''Idempotency-Key '' @ [CHR 39] @ k @ [CHR 39] @
             '' was already used with a different payload.'')), e))"
  using assms by (simp add: submit_with_idempotency_def Let_def)

lemma submit_accepted:
  assumes "fst (submit_with_idempotency sha256 clk uid ps prio key e) = Inr (uid, False)"
  shows "snd (submit_with_idempotency sha256 clk uid ps prio key e) =
    register_job clk uid ps prio key (fingerprint sha256 ps prio) e"
  using assms
  by (auto simp: submit_with_idempotency_def admit_def Let_def split: if_splits option.splits)

lemma registered_find:
  assumes "store_ok (eng_store e)" "fresh_id uid e" "k \<noteq> []"
  shows "find_by_idempotency_key (eng_store (register_job clk uid ps prio (Some k) fp e)) k =
    Some (submitted_job clk uid ps prio (Some k) fp)"
  using assms find_create [of "eng_store e" "submitted_job clk uid ps prio (Some k) fp" k]
  by (simp add: frame submitted_job_def new_job_def fresh_id_def get_job_def)

lemma tally_id: "\<exists>f. (e :: engine) = tally f e"
  by (rule exI [of _ id]) simp

lemma submit_cases:
  assumes "reachable sha256 s e G" "gate_settings_ok s" "fresh_id uid e"
    "submit_with_idempotency sha256 clk uid ps prio key e = (r, e')"
  shows "case r of
      Inl err \<Rightarrow> (\<exists>f. e' = tally f e) \<and>
        (\<not> eng_accepting e \<or> max_active_jobs s \<le> active_jobs e \<or>
         max_queue_size s < pending (eng_scheduler e) + int (length ps) \<or>
         (\<exists>k j. key = Some k \<and> find_by_idempotency_key (eng_store e) k = Some j \<and>
            request_fingerprint j \<noteq> Some (fingerprint sha256 ps prio)))
    | Inr (jid, True) \<Rightarrow> (\<exists>f. e' = tally f e) \<and>
        (\<exists>j. get_job e jid = Some j \<and> request_fingerprint j = Some (fingerprint sha256 ps prio))
    | Inr (jid, False) \<Rightarrow> jid = uid \<and>
        (\<exists>j. get_job e' uid = Some j \<and> state j = RUNNING \<and> total j = int (length ps) \<and> results j = []) \<and>
        items_of (eng_scheduler e') uid = work_items ps \<and>
        pending (eng_scheduler e') = pending (eng_scheduler e) + int (length ps) \<and>
        (\<forall>k. k \<noteq> uid \<longrightarrow> get_job e' k = get_job e k \<and> items_of (eng_scheduler e') k = items_of (eng_scheduler e) k)"
proof -
  let ?fp = "fingerprint sha256 ps prio"
  note s = reachable_settings [OF assms(1)]
  have ok: "store_ok (eng_store e)" using book_okD(1) reachable_book [OF assms(1,2)] by blast
  consider "\<not> eng_accepting e"
    | k j where "eng_accepting e" "key = Some k" "k \<noteq> []" "find_by_idempotency_key (eng_store e) k = Some j"
    | "eng_accepting e" "\<And>k. key = Some k \<Longrightarrow> k \<noteq> [] \<Longrightarrow> find_by_idempotency_key (eng_store e) k = None"
    by (metis option.exhaust)
  then show ?thesis
  proof cases
    case 1
    then show ?thesis using assms(4) tally_id [of e] by (auto simp: submit_with_idempotency_def)
  next
    case (2 k j)
    then have "get_job e (job_id j) = Some j" using find_key [OF ok 2(4)] by (simp add: get_job_def)
    then show ?thesis
      using assms(4) 2 submit_found [OF 2(1,3,4)] tally_id [of e] by (auto split: if_splits)
  next
    case 3
    then have "submit_with_idempotency sha256 clk uid ps prio key e = admit clk uid ps prio key ?fp e"
      by (cases key) (simp_all add: submit_with_idempotency_def Let_def)
    then show ?thesis
      using assms(4) s by (auto simp: admit_def Let_def get_job_def frame dict_simps items_of_add_job pending_add_job
        submitted_job_def new_job_def split: if_splits)
  qed
qed

lemma work_items_prompts: "map item_prompt (work_items ps) = map prompt_text ps"
  by (rule nth_equalityI) (simp_all add: work_items_def work_item_of_def nth_enumerate_eq)

lemma submit_retry_after:
  "fst (submit_with_idempotency sha256 clk uid ps prio key e) = Inl (OverloadedError n msg) \<Longrightarrow>
     n = overload_retry_after_seconds (eng_settings e)"
  by (auto simp: submit_with_idempotency_def admit_def Let_def split: if_splits option.splits)

lemma submit_stored_ids:
  assumes "reachable sha256 s e G" "gate_settings_ok s" "fresh_id uid e"
    "submit_with_idempotency sha256 clk uid ps prio key e = (r, e')" "get_job e' jid = Some j"
  shows "job_id j = jid"
proof -
  have "reachable sha256 s e' (ledger_step (Submit uid ps prio key) e G)"
    using reachable.step [OF assms(1), of clk "Submit uid ps prio key" e'] assms(3,4) by simp
  then have "store_ok (eng_store e')" using book_okD(1) reachable_book assms(2) by blast
  then show ?thesis using assms(5) store_ok_ids by (auto simp: get_job_def)
qed

lemma resubmit_at_once:
  assumes "store_ok (eng_store e)" "fresh_id uid e" "k \<noteq> []"
    "submit_with_idempotency sha256 clk uid ps prio (Some k) e = (Inr (jid, b), e1)"
  shows "\<exists>f. submit_with_idempotency sha256 clk' uid' ps prio (Some k) e1 = (Inr (jid, True), tally f e1)"
proof -
  let ?fp = "fingerprint sha256 ps prio"
  have acc: "eng_accepting e" using assms(4) by (rule_tac ccontr) (simp add: submit_with_idempotency_def)
  obtain j where "find_by_idempotency_key (eng_store e1) k = Some j" "request_fingerprint j = Some ?fp" "job_id j = jid"
    "eng_accepting e1"
  proof (cases "find_by_idempotency_key (eng_store e) k")
    case None
    then have "b = False" "jid = uid" "e1 = register_job clk uid ps prio (Some k) ?fp e"
      using assms(3,4) acc by (auto simp: submit_with_idempotency_def admit_def Let_def split: if_splits)
    with registered_find [OF assms(1-3), of clk ps prio ?fp] acc that show thesis
      by (simp add: submitted_job_def new_job_def frame)
  next
    case (Some j)
    with submit_found [OF acc assms(3) Some] assms(4) acc that show thesis by (auto split: if_splits)
  qed
  then show ?thesis using submit_found [of e1 k j] assms(3) by auto
qed

end
