(* ===== verification/Fingerprint.thy ===== *)
theory Fingerprint
  imports Engine
begin

text \<open>
  The text that \<^verbatim>\<open>_fingerprint\<close> hashes determines the submission: two submissions with the same
  payload have the same prompts (ids included) and the same priority. So a key conflict is missed
  only if the hash itself collides. The JSON text determines the value it was written from, and that
  value determines the submission.
\<close>

lemma priority_value_inj: "priority_value p = priority_value q \<Longrightarrow> p = q"
  by (cases p; cases q) auto

lemma json_of_opt_inj: "json_of_opt x = json_of_opt y \<longleftrightarrow> x = y"
  by (auto simp: json_of_opt_def split: option.splits)

lemma json_of_opt_wf [simp]: "json_wf (json_of_opt x)"
  by (simp add: json_of_opt_def split: option.split)

lemma prompt_values_inj:
  fixes ps qs :: "prompt_item list"
  shows
  "map (\<lambda>p. JList [json_of_opt (prompt_id p), JStr (prompt_text p)]) ps =
     map (\<lambda>p. JList [json_of_opt (prompt_id p), JStr (prompt_text p)]) qs \<longleftrightarrow> ps = qs"
  by (rule inj_map_eq_map) (auto intro!: injI simp: json_of_opt_inj)

lemma fingerprint_payload_inj:
  assumes "fingerprint_payload ps p = fingerprint_payload qs q"
  shows "ps = qs \<and> p = q"
  using assms priority_value_inj unfolding fingerprint_payload_def
  by (subst (asm) ascii.dumps_inject) (auto simp: prompt_values_inj)

text \<open>
  C40. The fingerprint payload is an injective encoding: two submissions have the same JSON payload exactly
  when they have the same prompts, with the same ids, in the same order, and the same priority.
  Quotes, backslashes, control and non-ASCII characters in prompts cannot make two submissions collide.
\<close>

theorem fingerprint_payload_injective:
  "fingerprint_payload ps p = fingerprint_payload qs q \<longleftrightarrow> ps = qs \<and> p = q"
  using fingerprint_payload_inj by blast

end
