(* ===== verification/Example_Run.thy ===== *)
theory Example_Run
  imports Engine_Facts Fingerprint
begin

text \<open>
  One concrete run of the engine, evaluated by the kernel: two prompts are submitted to an engine with
  two workers, the provider throttles the first call once, fails the second prompt, and answers the
  first one after its backoff. It shows that the hypotheses of the engine theorems are met by runs
  of the program.
\<close>

definition tick :: "rat \<Rightarrow> clock" where
  "tick t = \<lparr>clk_wall = t, clk_wall_next = t, clk_perf = t, clk_loop = t, clk_wall_each = \<lambda>_. t\<rparr>"

definition example_prompts :: "prompt_item list" where
  "example_prompts = [\<lparr>prompt_id = None, prompt_text = ''hello''\<rparr>, \<lparr>prompt_id = Some ''b'', prompt_text = ''world''\<rparr>]"

definition example_start :: "(clock \<times> engine_event) list" where
  "example_start =
     [(tick 0, Submit ''job-1'' example_prompts HIGH (Some ''key'')),
      (tick 0, RunWorker 0), (tick 0, RunWorker 1),
      (tick 1, ProviderReply 0 (Inl (RateLimitError (1 / 8))) 0)]"

definition example_finish :: "(clock \<times> engine_event) list" where
  "example_finish =
     [(tick 1, ProviderReply 1 (Inl (InferenceError ''500'')) 0),
      (tick 2, BackoffOver 0),
      (tick 3, ProviderReply 0 (Inr ''completion::hello'') 0)]"

definition example_settings :: settings where
  "example_settings =
     \<lparr>worker_pool_size = 2, max_queue_size = 10, global_max_concurrency = 2, adaptive_min_concurrency = 1,
      adaptive_increase_after = 5, adaptive_decrease_factor = 1 / 2, provider_max_rps = 0, provider_burst = 0,
      cost_per_1k_input_tokens = 1, cost_per_1k_output_tokens = 2, chars_per_token = 4, max_active_jobs = 1,
      overload_retry_after_seconds = 5, graceful_shutdown_seconds = 10, api_key = [], max_retries = 3,
      backoff_base_seconds = 1 / 4, backoff_max_seconds = 8, backoff_jitter = 1 / 8,
      mock_rate_limit_every = 7, mock_min_latency_ms = 5, mock_max_latency_ms = 25\<rparr>"

definition example_run :: "(clock \<times> engine_event) list \<Rightarrow> (engine \<times> ledger) option" where
  "example_run evs = run_events id evs (new_engine example_settings new_metrics, \<lambda>_. None)"

text \<open>What the simplifier unfolds to run the engine; the metrics and the floats stay unevaluated.\<close>

lemma show_nat_one: "show_nat (Suc 0) = ''1''"
  by code_simp

lemmas engine_exec =
  engine_step.simps
  new_engine_def new_limiter_def new_token_bucket_def empty_store_def empty_scheduler_def
  submit_with_idempotency_def admit_def register_job_def submitted_job_def new_job_def
  ensure_workers_def refresh_gauges_def find_by_idempotency_key_def store_create_def store_get_def
  get_job_def fresh_id_def active_jobs_def add_job_def work_items_def work_item_of_def
  worker_run_def lim_acquire_def pop_def drop_drained_def process_start_def start_call_def
  tb_pass_def set_phase_def worker_reply_def retry_turn_def compute_backoff_def on_retry_def
  store_mutate_def settle_def complete_item_def item_returned_def item_failed_def finalize_def finish_job_def
  worker_release_def lim_release_def estimate_tokens_def credit_success_def
  record_throttle_def record_success_def sched_active_jobs_def job_pending_def
  example_run_def example_start_def example_finish_def example_prompts_def tick_def example_settings_def
  show_nat_one Let_def

text \<open>The state half-way: one worker backs off, the other one awaits the provider.\<close>

lemma example_mid_value:
  "map_option (\<lambda>(e, G). (eng_workers e, eng_accepting e,
       map_option (\<lambda>j. (state j, total j, results j)) (get_job e ''job-1'')))
     (example_run example_start) =
   Some ([(0, AwaitBackoff ''job-1'' \<lparr>item_seq = 0, item_id = ''prompt-1'', item_prompt = ''hello''\<rparr> 1 0),
          (1, AwaitReply ''job-1'' \<lparr>item_seq = 1, item_id = ''b'', item_prompt = ''world''\<rparr> 1 0)], True,
         Some (RUNNING, 2, []))"
  by (simp add: engine_exec)

text \<open>The state at the end: the job is complete, both workers are at the loop head.\<close>

lemma example_done_value:
  "map_option (\<lambda>(e, G). (eng_workers e, eng_accepting e,
       map_option (\<lambda>j. (state j, total j, map fst (results j), retries j)) (get_job e ''job-1''),
       map_option job_id (find_by_idempotency_key (eng_store e) ''key'')))
     (example_run (example_start @ example_finish)) =
   Some ([(0, Ready), (1, Ready)], True, Some (COMPLETED, 2, [1, 0], 1), Some ''job-1'')"
  by (simp add: engine_exec)

lemma example_reachable:
  "example_run evs = Some (e, G) \<Longrightarrow> reachable id example_settings e G"
  unfolding example_run_def by (rule run_events_reachable [OF _ reachable.start])

lemma example_settings_ok: "live_settings_ok example_settings" "gate_settings_ok example_settings"
  by (simp_all add: live_settings_ok_def gate_settings_ok_def example_settings_def)

lemma example_mid:
  obtains e G j where "example_run example_start = Some (e, G)" "reachable id example_settings e G" "eng_accepting e"
    "eng_workers e =
       [(0, AwaitBackoff ''job-1'' \<lparr>item_seq = 0, item_id = ''prompt-1'', item_prompt = ''hello''\<rparr> 1 0),
        (1, AwaitReply ''job-1'' \<lparr>item_seq = 1, item_id = ''b'', item_prompt = ''world''\<rparr> 1 0)]"
    "get_job e ''job-1'' = Some j" "state j = RUNNING" "total j = 2" "results j = []"
  using example_mid_value example_reachable by (auto simp: map_option_eq_Some)

lemma example_done:
  obtains e G j where "example_run (example_start @ example_finish) = Some (e, G)"
    "reachable id example_settings e G" "eng_accepting e"
    "eng_workers e = [(0, Ready), (1, Ready)]" "get_job e ''job-1'' = Some j" "state j = COMPLETED" "total j = 2"
    "dict_keys (results j) = [1, 0]" "map_option job_id (find_by_idempotency_key (eng_store e) ''key'') = Some ''job-1''"
  using example_done_value example_reachable by (auto simp: map_option_eq_Some)

lemma run_events_split:
  assumes "run_events sha256 (xs @ ys) eG = Some eG'"
  obtains e G where "run_events sha256 xs eG = Some (e, G)" "run_events sha256 ys (e, G) = Some eG'"
proof -
  have "run_events sha256 (xs @ ys) eG = Option.bind (run_events sha256 xs eG) (run_events sha256 ys)"
    by (induction sha256 xs eG rule: run_events.induct) (auto split: option.split)
  with assms have "Option.bind (run_events sha256 xs eG) (run_events sha256 ys) = Some eG'" by simp
  then show thesis using that by (auto simp: bind_eq_Some_conv)
qed

lemma example_split:
  assumes "example_run (xs @ ys) = Some eG"
  obtains e1 G1 where "example_run xs = Some (e1, G1)" "run_events id ys (e1, G1) = Some eG"
  using assms unfolding example_run_def by (rule run_events_split)

end
