(* ===== verification/Engine_Metrics.thy ===== *)
theory Engine_Metrics
  imports Example_Run
begin

text \<open>
  The registry against the store: which counter shows which number of the jobs, and that the two agree
  in every reachable engine. A counter is compared through the number of its increments, so that the
  float it holds only matters at the end.
\<close>

datatype tracked = Submitted | Finished | Answered | Succeeding | Failing | Retried | Limited

fun shown :: "tracked \<Rightarrow> metric_registry \<Rightarrow> counter" where
  "shown Submitted m = m_jobs_submitted m"
| "shown Finished m = m_jobs_completed m"
| "shown Answered m = m_prompts_completed m"
| "shown Succeeding m = m_prompts_succeeded m"
| "shown Failing m = m_prompts_failed m"
| "shown Retried m = m_inference_retries m"
| "shown Limited m = m_inference_rate_limited m"

fun worth :: "tracked \<Rightarrow> job \<Rightarrow> nat" where
  "worth Submitted j = 1"
| "worth Finished j = (if state j = COMPLETED then 1 else 0)"
| "worth Answered j = nat (completed j)"
| "worth Succeeding j = nat (succeeded j)"
| "worth Failing j = nat (failed j)"
| "worth Retried j = nat (retries j)"
| "worth Limited j = nat (retries j)"

definition stat :: "tracked \<Rightarrow> job_store \<Rightarrow> nat" where
  "stat k st = (\<Sum>x\<leftarrow>jobs st. worth k (snd x))"

definition tallies_ok :: "job \<Rightarrow> bool" where
  "tallies_ok j \<longleftrightarrow> 0 \<le> completed j \<and> 0 \<le> succeeded j \<and> 0 \<le> failed j \<and> 0 \<le> retries j"

text \<open>\<open>m0\<close> is the registry the engine started with.\<close>

definition counts_ok :: "metric_registry \<Rightarrow> engine \<Rightarrow> bool" where
  "counts_ok m0 e \<longleftrightarrow> (\<forall>jid j. get_job e jid = Some j \<longrightarrow> tallies_ok j) \<and>
     (\<forall>k. shown k (eng_metrics e) = (ctr_inc1 ^^ stat k (eng_store e)) (shown k m0))"

subsection \<open>Changing one job, adding one\<close>

lemma counts_mutate:
  assumes "counts_ok m0 e" "store_ok (eng_store e)" "get_job e jid = Some j" "eng_store e' = store_mutate jid f (eng_store e)"
    "tallies_ok (f j)" "\<And>k. worth k (f j) = worth k j + d k"
    "\<And>k. shown k (eng_metrics e') = (ctr_inc1 ^^ d k) (shown k (eng_metrics e))"
  shows "counts_ok m0 e'"
proof -
  have sum: "stat k (eng_store e') + worth k j = stat k (eng_store e) + worth k (f j)" for k
    using dict_sum_mutate [of "jobs (eng_store e)" jid j "worth k" f] assms(2,3)
    by (simp add: stat_def assms(4) store_mutate_def store_ok_def get_job_def store_get_def)
  have "stat k (eng_store e') = d k + stat k (eng_store e)" for k using sum [of k] assms(6) [of k] by simp
  then show ?thesis
    using assms(1,3,5,7) by (auto simp: counts_ok_def funpow_add get_job_def assms(4) dict_simps split: if_splits)
qed

lemma counts_create:
  assumes "counts_ok m0 e" "get_job e (job_id j) = None" "eng_store e' = store_create j (eng_store e)" "tallies_ok j"
    "\<And>k. shown k (eng_metrics e') = (ctr_inc1 ^^ worth k j) (shown k (eng_metrics e))"
  shows "counts_ok m0 e'"
proof -
  have "jobs (eng_store e') = jobs (eng_store e) @ [(job_id j, j)]"
    using assms(2,3) by (simp add: store_create_def get_job_def store_get_def dict_set_fresh dict_get_None_keys Let_def split: option.split)
  then have "stat k (eng_store e') = worth k j + stat k (eng_store e)" for k by (simp add: stat_def)
  then show ?thesis
    using assms(1,4,5) by (auto simp: counts_ok_def funpow_add get_job_def assms(3) dict_simps split: if_splits)
qed

lemma counts_same:
  assumes "counts_ok m0 e" "eng_store e' = eng_store e" "\<And>k. shown k (eng_metrics e') = shown k (eng_metrics e)"
  shows "counts_ok m0 e'"
  using assms by (simp add: counts_ok_def get_job_def)

subsection \<open>What each piece does to the counters\<close>

lemma shown_gauges [simp]:
  "shown k (m_queue_depth_update f m) = shown k m" "shown k (m_active_jobs_update f m) = shown k m"
  "shown k (m_inflight_update f m) = shown k m" "shown k (m_concurrency_limit_update f m) = shown k m"
  "shown k (m_jobs_rejected_update g m) = shown k m" "shown k (m_jobs_cancelled_update g m) = shown k m"
  "shown k (m_idempotent_reuse_update g m) = shown k m" "shown k (m_retries_exhausted_update g m) = shown k m"
  "shown k (m_tokens_update g m) = shown k m" "shown k (m_cost_usd_update g m) = shown k m"
  "shown k (m_inference_latency_update h m) = shown k m" "shown k (m_job_duration_update h m) = shown k m"
  by (cases k; simp)+

lemma shown_frame [simp]:
  "shown k (eng_metrics (refresh_gauges e)) = shown k (eng_metrics e)"
  "shown k (eng_metrics (set_phase w ph e)) = shown k (eng_metrics e)"
  "shown k (eng_metrics (worker_release e)) = shown k (eng_metrics e)"
  "shown k (eng_metrics (ensure_workers e)) = shown k (eng_metrics e)"
  "shown k (eng_metrics (start_call w jid it n start clk e)) = shown k (eng_metrics e)"
  by (simp_all add: refresh_gauges_def set_phase_def worker_release_def ensure_workers_def start_call_def Let_def
      split: option.split prod.split)

lemma shown_worker_run [simp]: "shown k (eng_metrics (worker_run w clk e)) = shown k (eng_metrics e)"
  by (simp add: worker_run_def process_start_def Let_def split: option.split prod.split bool.split)

lemma shown_finalize [simp]:
  "shown k (eng_metrics (finalize jid st clk e)) =
     (ctr_inc1 ^^ (if k = Finished \<and> st = COMPLETED then 1 else 0)) (shown k (eng_metrics e))"
  by (cases k) (simp_all add: finalize_def Let_def split: option.split)

lemma shown_item_failed [simp]:
  "shown k (eng_metrics (snd (item_failed jid it exc e))) =
     (ctr_inc1 ^^ (if k = Failing then 1 else 0)) (shown k (eng_metrics e))"
  by (cases k) (simp_all add: item_failed_def Let_def)

lemma shown_on_retry [simp]:
  "shown k (eng_metrics (on_retry jid e)) =
     (ctr_inc1 ^^ (if k \<in> {Retried, Limited} then 1 else 0)) (shown k (eng_metrics e))"
  by (cases k) (simp_all add: on_retry_def Let_def)

lemma shown_answered [simp]:
  "shown k (m_prompts_completed_update ctr_inc1 m) = (ctr_inc1 ^^ (if k = Answered then 1 else 0)) (shown k m)"
  by (cases k) simp_all

lemma shown_complete_item:
  assumes "get_job (snd re) jid = Some j"
  shows "shown k (eng_metrics (complete_item jid it start clk re)) =
    (ctr_inc1 ^^ (if k = Answered \<or> k = Finished \<and> total j \<le> completed j + 1 \<and> state j = RUNNING then 1 else 0))
      (shown k (eng_metrics (snd re)))"
  using assms
  by (auto simp: complete_item_def get_job_def dict_simps Let_def case_prod_beta simp del: shown.simps)

text \<open>Settling an item: whatever the \<^verbatim>\<open>try\<close> statement did to job and counters alike, plus one answer.\<close>

lemma settle_counts:
  assumes "counts_ok m0 e" "store_ok (eng_store e)" "get_job e jid = Some j"
    and re: "eng_store (snd re) = store_mutate jid g (eng_store e)"
    and g: "completed (g j) = completed j" "total (g j) = total j" "state (g j) = state j" "tallies_ok (g j)"
    and d: "\<And>k. worth k (g j) = worth k j + d k" "\<And>k. shown k (eng_metrics (snd re)) = (ctr_inc1 ^^ d k) (shown k (eng_metrics e))"
  shows "counts_ok m0 (settle w jid it start clk re)"
proof (rule counts_mutate [OF assms(1-3)])
  have gj: "get_job (snd re) jid = Some (g j)" using assms(3) by (simp add: get_job_def re dict_simps)
  let ?f = "\<lambda>i. file_result it (fst re) (clk_wall clk) (g i)"
  let ?last = "total j \<le> completed j + 1 \<and> state j = RUNNING"
  show "eng_store (settle w jid it start clk re) = store_mutate jid ?f (eng_store e)"
    by (rule settle_store [OF assms(3) re])
  show "tallies_ok (?f j)" using g(4) by (auto simp: tallies_ok_def file_result_def finish_job_def Let_def)
  fix k
  have "0 \<le> completed (g j)" using g(4) by (simp add: tallies_ok_def)
  then have "worth k (?f j) = worth k (g j) + (if k = Answered \<or> k = Finished \<and> ?last then 1 else 0)"
    using g(1-3) by (cases k) (auto simp: file_result_def finish_job_def Let_def nat_add_distrib)
  then show "worth k (?f j) = worth k j + ((if k = Answered \<or> k = Finished \<and> ?last then 1 else 0) + d k)"
    using d(1) [of k] by simp
  show "shown k (eng_metrics (settle w jid it start clk re)) =
      (ctr_inc1 ^^ ((if k = Answered \<or> k = Finished \<and> ?last then 1 else 0) + d k)) (shown k (eng_metrics e))"
    using shown_complete_item [OF gj, of k it start clk] d(2) [of k] g(1-3) by (simp add: settle_def funpow_add del: funpow.simps)
qed

lemma item_failed_counts:
  assumes "counts_ok m0 e" "store_ok (eng_store e)" "get_job e jid = Some j"
  shows "counts_ok m0 (settle w jid it start clk (item_failed jid it exc e))"
proof (rule settle_counts [OF assms item_failed_frame(2), where d = "\<lambda>k. if k = Failing then 1 else 0"])
  have "tallies_ok j" using assms(1,3) by (auto simp: counts_ok_def)
  then show "tallies_ok (j\<lparr>failed := failed j + 1\<rparr>)" "worth k (j\<lparr>failed := failed j + 1\<rparr>) = worth k j + (if k = Failing then 1 else 0)" for k
    by (cases k; simp add: tallies_ok_def nat_add_distrib)+
qed simp_all

lemma item_returned_counts:
  assumes "counts_ok m0 e" "store_ok (eng_store e)" "get_job e jid = Some j"
  shows "counts_ok m0 (settle w jid it start clk (item_returned jid it out n e))"
proof (cases "chars_per_token (eng_settings e) = 0")
  case True
  let ?e = "e\<lparr>eng_limiter := record_success (eng_limiter e)\<rparr>"
  have "item_returned jid it out n e = item_failed jid it (ZeroDivisionError ''float division by zero'') ?e"
    using True by (simp add: item_returned_def estimate_tokens_def Let_def)
  moreover have "counts_ok m0 ?e" "get_job ?e jid = Some j" "store_ok (eng_store ?e)"
    using assms by (simp_all add: counts_ok_def get_job_def)
  ultimately show ?thesis using item_failed_counts [of m0 ?e] by simp
next
  case False
  let ?s = "eng_settings e"
  obtain a b where ab: "estimate_tokens ?s (item_prompt it) = Inr a" "estimate_tokens ?s out = Inr b"
    using False by (simp add: estimate_tokens_def)
  let ?g = "credit_success a b (token_cost ?s a b)"
  have ok: "tallies_ok j" using assms(1,3) by (auto simp: counts_ok_def)
  show ?thesis
  proof (rule settle_counts [OF assms, where g = ?g and d = "\<lambda>k. if k = Succeeding then 1 else 0"])
    show "eng_store (snd (item_returned jid it out n e)) = store_mutate jid ?g (eng_store e)"
      by (simp add: item_returned_def ab Let_def)
    fix k
    show "worth k (?g j) = worth k j + (if k = Succeeding then 1 else 0)"
      using ok by (cases k) (simp_all add: credit_success_def tallies_ok_def nat_add_distrib)
    show "shown k (eng_metrics (snd (item_returned jid it out n e))) =
        (ctr_inc1 ^^ (if k = Succeeding then 1 else 0)) (shown k (eng_metrics e))"
      by (cases k) (simp_all add: item_returned_def ab Let_def)
  qed (use ok in \<open>simp_all add: credit_success_def tallies_ok_def\<close>)
qed

lemma worker_reply_counts:
  assumes "counts_ok m0 e" "store_ok (eng_store e)" "get_job e jid = Some j"
  shows "counts_ok m0 (worker_reply w jid it n start reply u clk e)"
proof (cases "retry_turn (eng_settings e) u n reply")
  case (BackOff m delay)
  have ok: "tallies_ok j" using assms(1,3) by (auto simp: counts_ok_def)
  then have "worth k (j\<lparr>retries := retries j + 1\<rparr>) = worth k j + (if k \<in> {Retried, Limited} then 1 else 0)" for k
    by (cases k) (simp_all add: tallies_ok_def nat_add_distrib)
  with ok have "counts_ok m0 (set_phase w ph (on_retry jid e))" for ph
    using assms by (intro counts_mutate [OF assms, where f = "\<lambda>j. j\<lparr>retries := retries j + 1\<rparr>"
          and d = "\<lambda>k. if k \<in> {Retried, Limited} then 1 else 0"])
      (simp_all add: frame tallies_ok_def)
  then show ?thesis by (simp add: worker_reply_def BackOff)
qed (use assms item_returned_counts item_failed_counts in \<open>simp_all add: worker_reply_def\<close>)

subsection \<open>Submission, cancellation, shutdown\<close>

lemma submit_counts:
  assumes "counts_ok m0 e" "fresh_id uid e"
  shows "counts_ok m0 (snd (submit_with_idempotency sha256 clk uid ps prio key e))"
proof -
  have reg: "counts_ok m0 (register_job clk uid ps prio key fp e)" for fp
  proof (rule counts_create [OF assms(1)])
    let ?j = "submitted_job clk uid ps prio key fp"
    show "get_job e (job_id ?j) = None" using assms(2) by (simp add: fresh_id_def submitted_job_def new_job_def)
    show "eng_store (register_job clk uid ps prio key fp e) = store_create ?j (eng_store e)" by (simp add: frame)
    show "tallies_ok ?j" by (simp add: tallies_ok_def submitted_job_def new_job_def)
    show "shown k (eng_metrics (register_job clk uid ps prio key fp e)) = (ctr_inc1 ^^ worth k ?j) (shown k (eng_metrics e))" for k
    proof -
      have "shown k (eng_metrics (register_job clk uid ps prio key fp e)) = shown k (m_jobs_submitted_update ctr_inc1 (eng_metrics e))"
        by (simp add: register_job_def Let_def del: shown.simps)
      then show ?thesis by (cases k) (simp_all add: submitted_job_def new_job_def)
    qed
  qed
  have "counts_ok m0 (tally (m_idempotent_reuse_update ctr_inc1) e)" "counts_ok m0 (tally (m_jobs_rejected_update ctr_inc1) e)"
    using assms(1) by (rule counts_same; simp)+
  with assms(1) reg show ?thesis
    by (auto simp: submit_with_idempotency_def admit_def Let_def split: option.split)
qed

lemma replay_counts:
  assumes "counts_ok m0 e" "fresh_id uid e"
  shows "counts_ok m0 (snd (replay_failed sha256 clk uid jid prio e))"
  using assms submit_counts [OF assms] replay_effect [of sha256 clk uid jid prio e] by auto

lemma cancelled_counts:
  assumes "counts_ok m0 e" "store_ok (eng_store e)" "get_job e jid = Some j" "\<not> terminal (state j)"
    "eng_store e' = store_mutate jid (finish_job CANCELLED now) (eng_store e)" "\<And>k. shown k (eng_metrics e') = shown k (eng_metrics e)"
  shows "counts_ok m0 e'"
proof (rule counts_mutate [OF assms(1-3,5), where d = "\<lambda>_. 0"])
  have "tallies_ok j" using assms(1,3) by (auto simp: counts_ok_def)
  then show "tallies_ok (finish_job CANCELLED now j)" by (simp add: tallies_ok_def finish_job_def)
  show "worth k (finish_job CANCELLED now j) = worth k j + 0" for k
    using assms(4) by (cases k) (simp_all add: finish_job_def terminal_def)
qed (use assms(6) in simp)

lemma cancel_counts:
  assumes "counts_ok m0 e" "store_ok (eng_store e)"
  shows "counts_ok m0 (snd (cancel clk jid e))"
proof (cases "\<exists>j. get_job e jid = Some j \<and> \<not> terminal (state j)")
  case True
  then obtain j where j: "get_job e jid = Some j" "\<not> terminal (state j)" by blast
  show ?thesis
    by (rule cancelled_counts [OF assms j, where now = "clk_wall clk"]) (use j in \<open>simp_all add: cancel_def Let_def frame\<close>)
next
  case False
  then show ?thesis using assms(1) by (auto simp: cancel_def split: option.split)
qed

lemma interrupt_counts:
  assumes "counts_ok m0 e" "store_ok (eng_store e)" "distinct (map job_id js)"
    "\<forall>j \<in> set js. store_get (eng_store e) (job_id j) = Some j"
  shows "counts_ok m0 (fold (interrupt_job clk) js e)"
  using assms
proof (induction js arbitrary: e)
  case (Cons j js)
  let ?e = "interrupt_job clk j e"
  have j: "get_job e (job_id j) = Some j" using Cons.prems(4) by (simp add: get_job_def)
  have "counts_ok m0 ?e"
  proof (cases "state j \<in> {PENDING, RUNNING}")
    case True
    then show ?thesis
      by (intro cancelled_counts [OF Cons.prems(1,2) j, where now = "clk_wall_each clk (job_id j)"])
        (auto simp: interrupt_job_def frame terminal_def)
  qed (use Cons.prems(1) in \<open>simp add: interrupt_job_def\<close>)
  moreover have "store_ok (eng_store ?e)"
    using Cons.prems(2) by (simp add: interrupt_job_def frame store_mutate_ok keeps_identity_def finish_job_def)
  moreover have "\<forall>i \<in> set js. store_get (eng_store ?e) (job_id i) = Some i"
    using Cons.prems(3,4) by (auto simp: interrupt_job_def frame dict_simps image_iff)
  ultimately show ?case using Cons.IH Cons.prems(3) by simp
qed simp

lemma cancel_workers_shown: "shown k (eng_metrics (cancel_workers e)) = shown k (eng_metrics e)"
proof -
  have "shown k (eng_metrics (cancel_task w e)) = shown k (eng_metrics e)" for w e
    by (simp add: cancel_task_def cancel_worker_def Let_def split: option.split worker_phase.split)
  then have "shown k (eng_metrics (fold cancel_task ws e)) = shown k (eng_metrics e)" for ws
    by (induction ws arbitrary: e) simp_all
  then show ?thesis by (simp add: cancel_workers_def)
qed

lemma engine_step_counts:
  assumes counts: "counts_ok m0 e" and book: "book_inv G e" and st: "engine_step sha256 clk ev e = Some e'"
  shows "counts_ok m0 e'"
proof -
  have ok: "store_ok (eng_store e)" by (rule book_okD(1) [OF book])
  show ?thesis
  proof (cases ev)
    case (ProviderReply w reply u)
    then obtain jid it n start where w: "dict_get (eng_workers e) w = Some (AwaitReply jid it n start)"
      and e': "e' = worker_reply w jid it n start reply u clk e"
      using st by auto
    obtain j where "get_job e jid = Some j" using book_okD(5) [OF book w, of jid it] by (auto simp: get_job_def)
    then show ?thesis unfolding e' by (rule worker_reply_counts [OF counts ok])
  next
    case (RunWorker w)
    then show ?thesis
      using st worker_run_frame(1) [of w clk e] by (auto intro!: counts_same [OF counts] simp del: shown.simps)
  next
    case InterruptJobs
    then show ?thesis
      using st interrupt_counts [OF counts ok store_all_distinct [OF ok], of clk] store_all_iff [OF ok]
      by (auto simp: interrupt_jobs_def split: if_splits)
  next
    case (Submit uid ps prio key)
    then show ?thesis using st submit_counts [OF counts] by (auto split: if_splits)
  next
    case (Replay uid jid prio)
    then show ?thesis using st replay_counts [OF counts] by (auto split: if_splits)
  next
    case (Cancel jid)
    then show ?thesis using st cancel_counts [OF counts ok] by auto
  qed (use st in \<open>auto intro!: counts_same [OF counts] simp: frame shutdown_begin_def cancel_workers_shown
      simp del: shown.simps split: if_splits\<close>)
qed

lemma run_counts:
  assumes "run_events sha256 evs (e, G) = Some (e', G')" "reachable sha256 s e G" "gate_settings_ok s" "counts_ok m0 e"
  shows "counts_ok m0 e'"
  using assms
proof (induction evs arbitrary: e G)
  case (Cons ce evs)
  obtain clk ev e1 where "ce = (clk, ev)" and st: "engine_step sha256 clk ev e = Some e1"
    and run: "run_events sha256 evs (e1, ledger_step ev e G) = Some (e', G')"
    using Cons.prems(1) by (cases ce) (auto split: option.splits)
  have "counts_ok m0 e1" using engine_step_counts [OF Cons.prems(4) reachable_book [OF Cons.prems(2,3)] st] .
  then show ?case using Cons.IH [OF run reachable.step [OF Cons.prems(2) st] Cons.prems(3)] by blast
qed simp

lemma new_engine_counts: "counts_ok m (new_engine s m)"
proof -
  have "shown k (eng_metrics (new_engine s m)) = shown k m" for k by (simp add: new_engine_def Let_def del: shown.simps)
  then show ?thesis by (simp add: counts_ok_def new_engine_def get_job_def empty_store_def store_get_def stat_def Let_def del: shown.simps)
qed

text \<open>
  C10. The metrics tell the truth: after any run of a fresh engine the counters of submitted and completed jobs,
  of completed, succeeded and failed prompts, of retries and of observed 429s are exactly the numbers the
  jobs in the store add up to, as long as these are at most \<open>2^53\<close>.
\<close>

theorem metrics_match_store:
  assumes "run_events sha256 evs (new_engine s new_metrics, \<lambda>_. None) = Some (e, G)" "gate_settings_ok s"
    "\<forall>k. (\<Sum>j\<leftarrow>store_all (eng_store e). worth k j) \<le> 2 ^ 53"
  shows "ctr_value (shown k (eng_metrics e)) = of_nat (\<Sum>j\<leftarrow>store_all (eng_store e). worth k j)"
proof -
  have "counts_ok new_metrics e" using run_counts [OF assms(1) reachable.start assms(2) new_engine_counts] .
  moreover have "stat k (eng_store e) = (\<Sum>j\<leftarrow>store_all (eng_store e). worth k j)"
    by (simp add: stat_def store_all_def comp_def)
  ultimately have "shown k (eng_metrics e) = (ctr_inc1 ^^ (\<Sum>j\<leftarrow>store_all (eng_store e). worth k j)) (shown k new_metrics)"
    by (simp add: counts_ok_def del: shown.simps)
  moreover have "\<exists>name hlp. shown k new_metrics = new_counter name hlp" by (cases k) (auto simp: new_metrics_def)
  moreover have "int (\<Sum>j\<leftarrow>store_all (eng_store e). worth k j) \<le> 2 ^ 53"
    using assms(3) by (metis of_nat_le_iff of_nat_numeral of_nat_power)
  ultimately show ?thesis using counter_exact by metis
qed

theorem metrics_match_store_witness:
  "\<exists>e G. example_run (example_start @ example_finish) = Some (e, G) \<and>
     ctr_value (m_prompts_completed (eng_metrics e)) = 2 \<and> ctr_value (m_jobs_completed (eng_metrics e)) = 1 \<and>
     ctr_value (m_inference_retries (eng_metrics e)) = 1"
proof -
  have "map_option (\<lambda>(e, G). map (\<lambda>k. \<Sum>j\<leftarrow>store_all (eng_store e). worth k j)
        [Submitted, Finished, Answered, Succeeding, Failing, Retried, Limited])
      (example_run (example_start @ example_finish)) = Some [1, 1, 2, 1, 1, 1, 1]"
    by (simp add: engine_exec store_all_def)
  then obtain e G where run: "example_run (example_start @ example_finish) = Some (e, G)"
    and sums: "map (\<lambda>k. \<Sum>j\<leftarrow>store_all (eng_store e). worth k j)
        [Submitted, Finished, Answered, Succeeding, Failing, Retried, Limited] = [1, 1, 2, 1, 1, 1, 1]"
    by (auto simp: map_option_eq_Some simp del: worth.simps)
  have "(\<Sum>j\<leftarrow>store_all (eng_store e). worth k j) \<le> 2 ^ 53" for k
    using sums by (cases k) (simp_all del: worth.simps)
  then have "ctr_value (shown k (eng_metrics e)) = of_nat (\<Sum>j\<leftarrow>store_all (eng_store e). worth k j)" for k
    using metrics_match_store [OF run [unfolded example_run_def] example_settings_ok(2)] by blast
  from this [of Answered] this [of Finished] this [of Retried] run sums show ?thesis by (simp del: worth.simps)
qed

end
