(* ===== verification/Api.thy ===== *)
theory Api
  imports Engine
begin

text \<open>
  The HTTP surface of \<^verbatim>\<open>app/main.py\<close>. A handler is a function of the request data it reads and of the
  engine; it returns its response model (a record with the fields of the class in \<^verbatim>\<open>app/models.py\<close>) or
  the exception that leaves it, and the engine. None of the handlers but the event stream suspends
  between reading and changing the engine, so each is one atomic piece. Routing and the
  parsing of parameters belong to FastAPI (the JSON of the responses is in \<^verbatim>\<open>Api_Wire\<close>): the bounds declared with \<^verbatim>\<open>Query\<close>
  and the field constraints of the request models are predicates, which FastAPI checks before it
  calls the handler (an HTTP 422 otherwise). \<^verbatim>\<open>json.loads\<close> is an argument of the upload handler.
\<close>

subsection \<open>Requests and errors\<close>

record http_request =
  req_api_key :: "string option"
  req_idempotency_key :: "string option"
  req_forwarded_proto :: "string option"
  req_scheme :: string
  req_base_url :: string

text \<open>An \<^verbatim>\<open>HTTPException\<close> with its status, detail and headers, or an exception no handler catches.\<close>

datatype api_error =
    HTTPException int string "(string, string) dict"
  | Unhandled string

text \<open>\<^verbatim>\<open>expected\<close> is \<^verbatim>\<open>os.environ.get("API_KEY", "")\<close> at the time of the request.\<close>

definition require_api_key :: "string \<Rightarrow> http_request \<Rightarrow> api_error + unit" where
  "require_api_key expected req =
     (if expected \<noteq> [] \<and> req_api_key req \<noteq> Some expected
      then Inl (HTTPException 401 ''Invalid or missing API key.'' [])
      else Inr ())"

text \<open>A route of the versioned router: \<^verbatim>\<open>Depends(require_api_key)\<close> runs before the handler.\<close>

definition routed ::
  "string \<Rightarrow> http_request \<Rightarrow> (engine \<Rightarrow> (api_error + 'a) \<times> engine) \<Rightarrow> engine \<Rightarrow> (api_error + 'a) \<times> engine" where
  "routed expected req handler e =
     (case require_api_key expected req of Inl err \<Rightarrow> (Inl err, e) | Inr _ \<Rightarrow> handler e)"

text \<open>
  The middleware sets the context variable for the time of the call, puts it back whatever happens,
  and adds the header to a response. \<^verbatim>\<open>call_next\<close> gets the variable's value.
\<close>

definition request_id :: "string \<Rightarrow> string option \<Rightarrow> string" where
  "request_id uid header = (case header of None \<Rightarrow> uid | Some h \<Rightarrow> if h = [] then uid else h)"

definition request_id_middleware ::
  "string \<Rightarrow> string option \<Rightarrow> (string option \<Rightarrow> 'x + (string, string) dict \<times> 'b) \<Rightarrow> string option \<Rightarrow>
     ('x + (string, string) dict \<times> 'b) \<times> string option" where
  "request_id_middleware uid header call_next request_id_var =
     (let rid = request_id uid header in
      (map_sum id (apfst (dict_set ''X-Request-ID'' rid)) (call_next (Some rid)), request_id_var))"

subsection \<open>Acknowledgements\<close>

definition rstrip_slash :: "string \<Rightarrow> string" where
  "rstrip_slash s = rev (dropWhile (\<lambda>c. c = CHR ''/'') (rev s))"

text \<open>\<^verbatim>\<open>s.replace(old, new, 1)\<close>\<close>

fun replace_first :: "string \<Rightarrow> string \<Rightarrow> string \<Rightarrow> string" where
  "replace_first old new s =
     (if take (length old) s = old then new @ drop (length old) s
      else case s of [] \<Rightarrow> [] | c # cs \<Rightarrow> c # replace_first old new cs)"

declare replace_first.simps [simp del]

definition request_base :: "http_request \<Rightarrow> string" where
  "request_base req =
     (let proto = (case req_forwarded_proto req of Some p \<Rightarrow> p | None \<Rightarrow> req_scheme req) in
      replace_first (req_scheme req) proto (rstrip_slash (req_base_url req)))"

record submit_response =
  ack_job_id :: string
  ack_state :: job_state
  ack_total :: int
  ack_priority :: priority
  ack_idempotent_reuse :: bool
  ack_message :: string
  ack_status_url :: string
  ack_results_url :: string

definition ack :: "job \<Rightarrow> http_request \<Rightarrow> bool \<Rightarrow> submit_response" where
  "ack j req reused =
     (let base = request_base req in
      \<lparr>ack_job_id = job_id j, ack_state = state j, ack_total = total j, ack_priority = job_priority j,
       ack_idempotent_reuse = reused,
       ack_message = (if reused then ''Existing job returned (idempotent).''
                      else ''Batch accepted. Processing in the background.''),
       ack_status_url = base @ ''/v1/jobs/'' @ job_id j,
       ack_results_url = base @ ''/v1/jobs/'' @ job_id j @ ''/results''\<rparr>)"

definition overloaded_error :: "int \<Rightarrow> string \<Rightarrow> api_error" where
  "overloaded_error retry_after msg = HTTPException 503 msg [(''Retry-After'', show_int retry_after)]"

definition unknown_job :: "string \<Rightarrow> api_error" where
  "unknown_job jid = HTTPException 404 (''Unknown job_id: '' @ jid) []"

text \<open>
  What both submission handlers do with the outcome of \<^verbatim>\<open>submit_with_idempotency\<close>. The job object it
  returns is the one the store holds under the id.
\<close>

definition answer_submission ::
  "http_request \<Rightarrow> (submit_error + string \<times> bool) \<times> engine \<Rightarrow> (api_error + submit_response) \<times> engine" where
  "answer_submission req out =
     (case out of
        (Inl (OverloadedError retry_after msg), e) \<Rightarrow> (Inl (overloaded_error retry_after msg), e)
      | (Inl (IdempotencyConflictError msg), e) \<Rightarrow> (Inl (HTTPException 409 msg []), e)
      | (Inr (jid, reused), e) \<Rightarrow> (Inr (ack (the (get_job e jid)) req reused), e))"

subsection \<open>Health\<close>

record readiness =
  rdy_status :: string
  rdy_accepting :: bool
  rdy_active_jobs :: int
  rdy_max_active_jobs :: int
  rdy_saturated :: bool

definition saturated :: "engine \<Rightarrow> bool" where
  "saturated e \<longleftrightarrow> max_active_jobs (eng_settings e) \<le> active_jobs e"

definition readyz :: "engine \<Rightarrow> int \<times> readiness" where
  "readyz e =
     (let ready = (eng_accepting e \<and> \<not> saturated e) in
      (if ready then 200 else 503,
       \<lparr>rdy_status = (if ready then ''ready'' else ''not_ready''), rdy_accepting = eng_accepting e,
        rdy_active_jobs = active_jobs e, rdy_max_active_jobs = max_active_jobs (eng_settings e),
        rdy_saturated = saturated e\<rparr>))"

definition prometheus_metrics :: "engine \<Rightarrow> string" where
  "prometheus_metrics e = render_metrics (eng_metrics e)"

record capacity =
  cap_accepting :: bool
  cap_active_jobs :: int
  cap_max_active_jobs :: int
  cap_queue_depth :: int
  cap_max_queue_size :: int
  cap_inflight :: int
  cap_concurrency_limit :: int
  cap_global_max_concurrency :: int
  cap_saturated :: bool

definition system_capacity :: "engine \<Rightarrow> capacity" where
  "system_capacity e =
     (let s = eng_settings e in
      \<lparr>cap_accepting = eng_accepting e, cap_active_jobs = active_jobs e, cap_max_active_jobs = max_active_jobs s,
       cap_queue_depth = pending (eng_scheduler e), cap_max_queue_size = max_queue_size s,
       cap_inflight = py_int (py_value (gau_value (m_inflight (eng_metrics e)))),
       cap_concurrency_limit = lim_limit (eng_limiter e), cap_global_max_concurrency = global_max_concurrency s,
       cap_saturated = saturated e\<rparr>)"

subsection \<open>Listing and reading jobs\<close>

record job_summary =
  sum_job_id :: string
  sum_state :: job_state
  sum_priority :: priority
  sum_total :: int
  sum_completed :: int
  sum_succeeded :: int
  sum_failed :: int
  sum_created_at :: pyfloat

definition summary_of :: "job \<Rightarrow> job_summary" where
  "summary_of j =
     \<lparr>sum_job_id = job_id j, sum_state = state j, sum_priority = job_priority j, sum_total = total j,
      sum_completed = completed j, sum_succeeded = succeeded j, sum_failed = failed j,
      sum_created_at = created_at j\<rparr>"

record jobs_list =
  list_total :: int
  list_returned :: int
  list_limit :: nat
  list_offset :: nat
  list_jobs_page :: "job_summary list"

text \<open>\<^verbatim>\<open>Query(50, ge=1, le=500)\<close> and \<^verbatim>\<open>Query(0, ge=0)\<close>; of the results, \<^verbatim>\<open>le=1000\<close>.\<close>

definition page_query_ok :: "nat \<Rightarrow> nat \<Rightarrow> bool" where
  "page_query_ok most limit \<longleftrightarrow> 1 \<le> limit \<and> limit \<le> most"

text \<open>\<^verbatim>\<open>sorted(..., reverse=True)\<close> is stable: jobs created at the same time stay in store order.\<close>

definition selected_jobs :: "string option \<Rightarrow> engine \<Rightarrow> job list" where
  "selected_jobs st e =
     (let js = sort_key (\<lambda>j. - created_at j) (store_all (eng_store e)) in
      case st of
        None \<Rightarrow> js
      | Some t \<Rightarrow> if t = [] then js else filter (\<lambda>j. job_state_value (state j) = t) js)"

definition list_jobs :: "string option \<Rightarrow> nat \<Rightarrow> nat \<Rightarrow> engine \<Rightarrow> jobs_list" where
  "list_jobs st limit offset e =
     (let js = selected_jobs st e; page = page_of offset limit js in
      \<lparr>list_total = int (length js), list_returned = int (length page), list_limit = limit,
       list_offset = offset, list_jobs_page = map summary_of page\<rparr>)"

definition status_of :: "pyfloat \<Rightarrow> engine \<Rightarrow> job \<Rightarrow> job_snapshot" where
  "status_of now e j = snapshot now (int (engine_job_pending e (job_id j))) j"

definition job_status :: "pyfloat \<Rightarrow> string \<Rightarrow> engine \<Rightarrow> api_error + job_snapshot" where
  "job_status now jid e =
     (case get_job e jid of None \<Rightarrow> Inl (unknown_job jid) | Some j \<Rightarrow> Inr (status_of now e j))"

record job_results_response =
  jr_job_id :: string
  jr_state :: job_state
  jr_total :: int
  jr_succeeded :: int
  jr_failed :: int
  jr_returned :: int
  jr_limit :: nat
  jr_offset :: nat
  jr_results :: "inference_result list"

definition job_results :: "string \<Rightarrow> nat \<Rightarrow> nat \<Rightarrow> engine \<Rightarrow> api_error + job_results_response" where
  "job_results jid limit offset e =
     (case get_job e jid of
        None \<Rightarrow> Inl (unknown_job jid)
      | Some j \<Rightarrow>
          (let page = page_of offset limit (ordered_results j) in
           Inr \<lparr>jr_job_id = job_id j, jr_state = state j, jr_total = total j, jr_succeeded = succeeded j,
                jr_failed = failed j, jr_returned = int (length page), jr_limit = limit, jr_offset = offset,
                jr_results = page\<rparr>))"

record dead_letter_response =
  dl_job_id :: string
  dl_failed :: int
  dl_returned :: int
  dl_items :: "inference_result list"

definition job_dead_letter :: "string \<Rightarrow> nat \<Rightarrow> nat \<Rightarrow> engine \<Rightarrow> api_error + dead_letter_response" where
  "job_dead_letter jid limit offset e =
     (case get_job e jid of
        None \<Rightarrow> Inl (unknown_job jid)
      | Some j \<Rightarrow>
          (let page = page_of offset limit (dead_letter j) in
           Inr \<lparr>dl_job_id = job_id j, dl_failed = int (length (dead_letter j)),
                dl_returned = int (length page), dl_items = page\<rparr>))"

subsection \<open>Submitting\<close>

record batch_request =
  batch_prompts :: "prompt_item list"
  batch_priority :: priority

text \<open>The field constraints of \<^verbatim>\<open>BatchRequest\<close> and \<^verbatim>\<open>PromptItem\<close>.\<close>

definition batch_request_ok :: "batch_request \<Rightarrow> bool" where
  "batch_request_ok b \<longleftrightarrow> batch_prompts b \<noteq> [] \<and> (\<forall>p \<in> set (batch_prompts b). prompt_text p \<noteq> [])"

definition submit_batch ::
  "(string \<Rightarrow> string) \<Rightarrow> clock \<Rightarrow> string \<Rightarrow> batch_request \<Rightarrow> http_request \<Rightarrow> engine \<Rightarrow>
     (api_error + submit_response) \<times> engine" where
  "submit_batch sha256 clk uid payload req e =
     answer_submission req
       (submit_with_idempotency sha256 clk uid (batch_prompts payload) (batch_priority payload)
         (req_idempotency_key req) e)"

text \<open>\<^verbatim>\<open>PromptItem(id=i, prompt=p)\<close>: an optional string and a non-empty string, nothing is coerced.\<close>

definition make_prompt_item :: "json \<Rightarrow> json \<Rightarrow> api_error + prompt_item" where
  "make_prompt_item i p =
     (case (i, p) of
        (JNull, JStr t) \<Rightarrow> if t = [] then Inl (Unhandled ''ValidationError'') else Inr \<lparr>prompt_id = None, prompt_text = t\<rparr>
      | (JStr k, JStr t) \<Rightarrow> if t = [] then Inl (Unhandled ''ValidationError'') else Inr \<lparr>prompt_id = Some k, prompt_text = t\<rparr>
      | _ \<Rightarrow> Inl (Unhandled ''ValidationError''))"

definition bad_entry :: "nat \<Rightarrow> api_error" where
  "bad_entry i =
     HTTPException 400 (''Item '' @ show_nat i @ '' must be a string or an object with a '' @ [CHR 39] @
       ''prompt'' @ [CHR 39] @ '' field.'') []"

definition upload_entry :: "nat \<Rightarrow> json \<Rightarrow> api_error + prompt_item" where
  "upload_entry i entry =
     (case entry of
        JStr t \<Rightarrow> make_prompt_item (JStr (''prompt-'' @ show_nat (i + 1))) (JStr t)
      | JObj d \<Rightarrow>
          (case dict_get d ''prompt'' of
             None \<Rightarrow> Inl (bad_entry i)
           | Some p \<Rightarrow> make_prompt_item (case dict_get d ''id'' of None \<Rightarrow> JNull | Some v \<Rightarrow> v) p)
      | _ \<Rightarrow> Inl (bad_entry i))"

fun upload_entries :: "nat \<Rightarrow> json list \<Rightarrow> api_error + prompt_item list" where
  "upload_entries i [] = Inr []"
| "upload_entries i (x # xs) =
     (case upload_entry i x of
        Inl err \<Rightarrow> Inl err
      | Inr p \<Rightarrow> map_sum id (\<lambda>ps. p # ps) (upload_entries (i + 1) xs))"

definition upload_items :: "json \<Rightarrow> json" where
  "upload_items data =
     (case data of JObj d \<Rightarrow> (case dict_get d ''prompts'' of None \<Rightarrow> JNull | Some v \<Rightarrow> v) | _ \<Rightarrow> data)"

text \<open>The part of \<^verbatim>\<open>upload_batch\<close> before the engine is called.\<close>

definition upload_prompts :: "(string \<Rightarrow> json_failure + json) \<Rightarrow> string \<Rightarrow> api_error + prompt_item list" where
  "upload_prompts json_loads raw =
     (case json_loads raw of
        Inl (JSONDecodeError msg) \<Rightarrow> Inl (HTTPException 400 (''Invalid JSON: '' @ msg) [])
      | Inl (OtherFailure msg) \<Rightarrow> Inl (Unhandled msg)
      | Inr data \<Rightarrow>
          (case upload_items data of
             JList (x # xs) \<Rightarrow> upload_entries 0 (x # xs)
           | _ \<Rightarrow> Inl (HTTPException 400 ''Expected a non-empty JSON array of prompts (or {prompts: [...]}).'' [])))"

definition upload_batch ::
  "(string \<Rightarrow> json_failure + json) \<Rightarrow> (string \<Rightarrow> string) \<Rightarrow> clock \<Rightarrow> string \<Rightarrow> string \<Rightarrow> priority \<Rightarrow>
     http_request \<Rightarrow> engine \<Rightarrow> (api_error + submit_response) \<times> engine" where
  "upload_batch json_loads sha256 clk uid raw prio req e =
     (case upload_prompts json_loads raw of
        Inl err \<Rightarrow> (Inl err, e)
      | Inr prompts \<Rightarrow>
          answer_submission req
            (submit_with_idempotency sha256 clk uid prompts prio (req_idempotency_key req) e))"

subsection \<open>Replaying and cancelling\<close>

text \<open>
  An \<^verbatim>\<open>IdempotencyConflictError\<close> is not caught here; it cannot arise, since a replay has no key.
\<close>

definition api_replay_failed ::
  "(string \<Rightarrow> string) \<Rightarrow> clock \<Rightarrow> string \<Rightarrow> string \<Rightarrow> http_request \<Rightarrow> engine \<Rightarrow>
     (api_error + submit_response) \<times> engine" where
  "api_replay_failed sha256 clk uid jid req e =
     (case get_job e jid of
        None \<Rightarrow> (Inl (unknown_job jid), e)
      | Some _ \<Rightarrow>
          (case replay_failed sha256 clk uid jid None e of
             (None, e') \<Rightarrow> (Inl (HTTPException 409 ''No failed prompts to replay.'' []), e')
           | (Some (Inl (OverloadedError retry_after msg)), e') \<Rightarrow> (Inl (overloaded_error retry_after msg), e')
           | (Some (Inl (IdempotencyConflictError msg)), e') \<Rightarrow> (Inl (Unhandled msg), e')
           | (Some (Inr new), e') \<Rightarrow> (Inr (ack (the (get_job e' new)) req False), e')))"

definition cancel_job :: "clock \<Rightarrow> string \<Rightarrow> engine \<Rightarrow> (api_error + job_snapshot) \<times> engine" where
  "cancel_job clk jid e =
     (case cancel clk jid e of
        (None, e') \<Rightarrow> (Inl (unknown_job jid), e')
      | (Some False, e') \<Rightarrow> (Inl (HTTPException 409 ''Job has already finished.'' []), e')
      | (Some True, e') \<Rightarrow> (Inr (status_of (clk_wall_next clk) e' (the (get_job e' jid))), e'))"

end
