(* ===== verification/Api_Laws.thy ===== *)
theory Api_Laws
  imports Api Example_Run
begin

text \<open>
  Properties of the HTTP handlers: the three paginated endpoints share the contract \<^verbatim>\<open>paged_view\<close>; a
  submission is answered with 202, 409 or 503 and nothing half-done; readiness predicts admission;
  an uploaded file is a submission of its prompts.
\<close>

subsection \<open>Pagination\<close>

locale paged_view =
  fixes fetch :: "nat \<Rightarrow> nat \<Rightarrow> 'e \<Rightarrow> 'a list" and whole :: "'e \<Rightarrow> 'a list"
  assumes fetch_page: "fetch limit offset e = page_of offset limit (whole e)"
begin

lemma pages_prefix: "concat (map (\<lambda>k. fetch l (k * l) e) [0..<n]) = take (n * l) (whole e)"
proof (induction n)
  case (Suc n)
  have "take (n * l) (whole e) @ page_of (n * l) l (whole e) = take (n * l + l) (whole e)"
    unfolding page_of_def by (rule take_add [symmetric])
  with Suc show ?case by (simp add: fetch_page add.commute)
qed simp

lemma pages_whole: "length (whole e) \<le> n * l \<Longrightarrow> concat (map (\<lambda>k. fetch l (k * l) e) [0..<n]) = whole e"
  by (simp add: pages_prefix)

lemma page_length: "length (fetch l offset e) = min l (length (whole e) - offset)"
  by (simp add: fetch_page length_page_of)

end

definition results_page :: "string \<Rightarrow> nat \<Rightarrow> nat \<Rightarrow> engine \<Rightarrow> inference_result list" where
  "results_page jid limit offset e = (case job_results jid limit offset e of Inl _ \<Rightarrow> [] | Inr r \<Rightarrow> jr_results r)"

definition dead_letter_page :: "string \<Rightarrow> nat \<Rightarrow> nat \<Rightarrow> engine \<Rightarrow> inference_result list" where
  "dead_letter_page jid limit offset e = (case job_dead_letter jid limit offset e of Inl _ \<Rightarrow> [] | Inr r \<Rightarrow> dl_items r)"

interpretation results_view: paged_view "results_page jid"
  "\<lambda>e. case get_job e jid of None \<Rightarrow> [] | Some j \<Rightarrow> ordered_results j" for jid
  by unfold_locales (simp add: results_page_def job_results_def page_of_def Let_def split: option.split)

interpretation dead_letter_view: paged_view "dead_letter_page jid"
  "\<lambda>e. case get_job e jid of None \<Rightarrow> [] | Some j \<Rightarrow> dead_letter j" for jid
  by unfold_locales (simp add: dead_letter_page_def job_dead_letter_def page_of_def Let_def split: option.split)

interpretation jobs_view: paged_view "\<lambda>limit offset e. list_jobs_page (list_jobs st limit offset e)"
  "\<lambda>e. map summary_of (selected_jobs st e)" for st
  by unfold_locales (simp add: list_jobs_def page_of_def Let_def take_map drop_map)

text \<open>
  C22. A client that pages through a completed job gets everything once: the pages of any admissible size,
  fetched one after the other, join to one result per submitted prompt, in submission order, and the
  dead-letter pages join to the failed ones among them.
\<close>

theorem paging_returns_every_result:
  assumes "reachable sha256 s e G" "gate_settings_ok s" "get_job e jid = Some j" "state j = COMPLETED"
    "page_query_ok 1000 limit" "total j \<le> int (n * limit)"
  shows "\<exists>its. G jid = Some its \<and>
    (let rs = concat (map (\<lambda>k. results_page jid limit (k * limit) e) [0..<n]) in
      map (\<lambda>r. (res_id r, res_prompt r)) rs = map (\<lambda>it. (item_id it, item_prompt it)) its \<and>
      concat (map (\<lambda>k. dead_letter_page jid limit (k * limit) e) [0..<n]) = filter (\<lambda>r. \<not> res_success r) rs)"
proof -
  obtain its where its: "G jid = Some its" "job_inv its j" using reachable_job [OF assms(1-3)] by blast
  then have len: "length (ordered_results j) \<le> n * limit"
    using assms(4,6) by (auto simp: job_inv_def simp del: of_nat_mult)
  have "length (dead_letter j) \<le> n * limit"
    using len length_filter_le [of "\<lambda>r. \<not> res_success r" "ordered_results j"] by (simp add: dead_letter_def)
  then show ?thesis
    using completed_results [OF assms(1-4)] len results_view.pages_whole [of e jid n limit]
      dead_letter_view.pages_whole [of e jid n limit] assms(3)
    by (auto simp: dead_letter_def Let_def)
qed

theorem paging_returns_every_result_witness:
  "\<exists>e G j its. reachable id example_settings e G \<and> get_job e ''job-1'' = Some j \<and> state j = COMPLETED \<and>
     G ''job-1'' = Some its \<and>
     map (\<lambda>r. (res_id r, res_prompt r)) (concat (map (\<lambda>k. results_page ''job-1'' 1 (k * 1) e) [0..<2])) =
       map (\<lambda>it. (item_id it, item_prompt it)) its"
proof -
  obtain e G j where ex: "reachable id example_settings e G" "get_job e ''job-1'' = Some j" "state j = COMPLETED" "total j = 2"
    using example_done by metis
  have "page_query_ok 1000 1" "total j \<le> int (2 * 1)" by (simp_all add: page_query_ok_def ex)
  from paging_returns_every_result [OF ex(1) example_settings_ok(2) ex(2,3) this] ex show ?thesis
    unfolding Let_def by blast
qed

text \<open>
  C30. The job list is newest first and complete: paging through it gives the summaries of exactly the stored
  jobs in the requested state, ordered by descending creation time, jobs created at the same instant in
  the order they were stored, and the reported total is their number.
\<close>

theorem job_list_is_complete_and_sorted:
  assumes "list_total (list_jobs (Some t) limit 0 e) \<le> int (n * limit)" "t \<noteq> []"
  shows "\<exists>js. concat (map (\<lambda>k. list_jobs_page (list_jobs (Some t) limit (k * limit) e)) [0..<n]) = map summary_of js \<and>
    mset js = mset (filter (\<lambda>j. job_state_value (state j) = t) (store_all (eng_store e))) \<and>
    sorted_wrt (\<lambda>a b. created_at b \<le> created_at a) js \<and>
    (\<forall>c. filter (\<lambda>j. created_at j = c) js =
      filter (\<lambda>j. created_at j = c \<and> job_state_value (state j) = t) (store_all (eng_store e))) \<and>
    list_total (list_jobs (Some t) limit offset e) = int (length js)"
proof (intro exI conjI allI)
  let ?js = "selected_jobs (Some t) e" and ?key = "\<lambda>j. - created_at j"
  let ?st = "\<lambda>j. job_state_value (state j) = t"
  have js: "?js = filter ?st (sort_key ?key (store_all (eng_store e)))"
    using assms(2) by (simp add: selected_jobs_def Let_def)
  have "length (map summary_of ?js) \<le> n * limit" using assms(1) by (simp add: list_jobs_def Let_def del: of_nat_mult)
  then show "concat (map (\<lambda>k. list_jobs_page (list_jobs (Some t) limit (k * limit) e)) [0..<n]) = map summary_of ?js"
    by (rule jobs_view.pages_whole)
  show "mset ?js = mset (filter ?st (store_all (eng_store e)))" by (simp add: js)
  have "sorted (map ?key ?js)" unfolding js by (intro sorted_filter) simp
  then show "sorted_wrt (\<lambda>a b. created_at b \<le> created_at a) ?js" by (simp add: sorted_map)
  fix c
  have "filter (\<lambda>j. created_at j = c) ?js = filter ?st (filter (\<lambda>j. ?key j = - c) (sort_key ?key (store_all (eng_store e))))"
    by (simp add: js conj_commute)
  also have "filter (\<lambda>j. ?key j = - c) (sort_key ?key (store_all (eng_store e))) = filter (\<lambda>j. ?key j = - c) (store_all (eng_store e))"
    by (rule sort_key_stable)
  finally show "filter (\<lambda>j. created_at j = c) ?js = filter (\<lambda>j. created_at j = c \<and> ?st j) (store_all (eng_store e))"
    by (simp add: conj_commute)
  show "list_total (list_jobs (Some t) limit offset e) = int (length ?js)" by (simp add: list_jobs_def Let_def)
qed

theorem job_list_is_complete_and_sorted_witness:
  "\<exists>e G js. reachable id example_settings e G \<and>
     concat (map (\<lambda>k. list_jobs_page (list_jobs (Some ''completed'') 50 (k * 50) e)) [0..<1]) = map summary_of js \<and>
     mset js = mset (filter (\<lambda>j. job_state_value (state j) = ''completed'') (store_all (eng_store e)))"
proof -
  have "map_option (\<lambda>(e, G). list_total (list_jobs (Some ''completed'') 50 0 e))
      (example_run (example_start @ example_finish)) = Some 1"
    by (simp add: engine_exec list_jobs_def selected_jobs_def store_all_def)
  then obtain e G where ex: "example_run (example_start @ example_finish) = Some (e, G)"
    "list_total (list_jobs (Some ''completed'') 50 0 e) \<le> int (1 * 50)"
    by (auto simp: map_option_eq_Some)
  from job_list_is_complete_and_sorted [OF ex(2)] example_reachable [OF ex(1)] show ?thesis by fastforce
qed

subsection \<open>Submission over HTTP\<close>

text \<open>
  C20. Every answer to \<^verbatim>\<open>POST /batches\<close>: an acknowledgement names a stored job and reports its current
  state, and a new one is running with all its prompts queued; an error is 409, or 503 with a
  \<^verbatim>\<open>Retry-After\<close> header, and leaves everything but the metrics as it was. No exception escapes.
\<close>

theorem submit_batch_answers:
  assumes "reachable sha256 s e G" "gate_settings_ok s" "fresh_id uid e" "batch_request_ok payload"
    "submit_batch sha256 clk uid payload req e = (r, e')"
  shows "case r of
      Inl err \<Rightarrow> (\<exists>f. e' = tally f e) \<and>
        (\<exists>msg. err = HTTPException 409 msg [] \<or>
           err = HTTPException 503 msg [(''Retry-After'', show_int (overload_retry_after_seconds s))])
    | Inr a \<Rightarrow> \<exists>j. get_job e' (ack_job_id a) = Some j \<and> job_id j = ack_job_id a \<and> ack_state a = state j \<and>
        (if ack_idempotent_reuse a
         then (\<exists>f. e' = tally f e) \<and> request_fingerprint j = Some (fingerprint sha256 (batch_prompts payload) (batch_priority payload))
         else ack_job_id a = uid \<and> state j = RUNNING \<and> total j = int (length (batch_prompts payload)) \<and> 0 < total j \<and>
           items_of (eng_scheduler e') uid = work_items (batch_prompts payload))"
proof -
  let ?ps = "batch_prompts payload" and ?prio = "batch_priority payload" and ?key = "req_idempotency_key req"
  obtain out where out: "submit_with_idempotency sha256 clk uid ?ps ?prio ?key e = (out, e')"
    and r: "answer_submission req (out, e') = (r, e')"
    using assms(5) by (cases "submit_with_idempotency sha256 clk uid ?ps ?prio ?key e")
      (auto simp: submit_batch_def answer_submission_def split: sum.splits submit_error.splits)
  note cases = submit_cases [OF assms(1-3) out]
  have ne: "0 < length ?ps" using assms(4) by (simp add: batch_request_ok_def)
  have ids: "job_id j = jid" if "get_job e' jid = Some j" for jid j
    using that submit_stored_ids [OF assms(1-3) out] by blast
  show ?thesis
  proof (cases out)
    case (Inl err)
    then show ?thesis
      using cases r out reachable_settings [OF assms(1)] submit_retry_after [of sha256 clk uid ?ps ?prio ?key e]
      by (cases err) (auto simp: answer_submission_def overloaded_error_def)
  next
    case (Inr jb)
    obtain jid reused where jb: "jb = (jid, reused)" by fastforce
    with Inr have ack: "r = Inr (ack (the (get_job e' jid)) req reused)" using r by (simp add: answer_submission_def)
    show ?thesis
      using cases ne ids unfolding Inr jb ack by (cases reused) (force simp: ack_def Let_def get_job_def)+
  qed
qed

definition example_request :: http_request where
  "example_request = \<lparr>req_api_key = None, req_idempotency_key = None, req_forwarded_proto = Some ''https'',
     req_scheme = ''http'', req_base_url = ''http://test/''\<rparr>"

definition example_batch :: batch_request where
  "example_batch = \<lparr>batch_prompts = example_prompts, batch_priority = LOW\<rparr>"

lemma example_batch_ok: "batch_request_ok example_batch"
  by (simp add: batch_request_ok_def example_batch_def example_prompts_def)

theorem submit_batch_answers_witness:
  "\<exists>a e' j. submit_batch id (tick 9) ''job-2'' example_batch example_request (new_engine example_settings new_metrics) = (Inr a, e') \<and>
     ack_job_id a = ''job-2'' \<and> get_job e' ''job-2'' = Some j \<and> ack_state a = state j \<and> state j = RUNNING \<and>
     ack_status_url a = ''https://test/v1/jobs/job-2''"
proof -
  let ?e = "new_engine example_settings new_metrics"
  have fresh: "fresh_id ''job-2'' ?e" by (simp add: engine_exec)
  have url: "request_base example_request = ''https://test''" by code_simp
  obtain a e' where sub: "submit_batch id (tick 9) ''job-2'' example_batch example_request ?e = (Inr a, e')"
    and a: "\<not> ack_idempotent_reuse a" "ack_status_url a = ''https://test/v1/jobs/job-2''"
    using url by (simp add: submit_batch_def engine_exec example_batch_def example_request_def answer_submission_def ack_def)
  from submit_batch_answers [OF reachable.start example_settings_ok(2) fresh example_batch_ok sub] sub a
  show ?thesis by auto
qed

text \<open>
  Readiness is honest: for a batch that fits the queue and has no key, \<^verbatim>\<open>/readyz\<close> answers 200 exactly
  when submitting the batch now would be accepted as a new job, and 503 exactly when it would be refused.
\<close>

lemma readyz_predicts_admission:
  assumes "pending (eng_scheduler e) + int (length ps) \<le> max_queue_size (eng_settings e)"
  shows "(fst (readyz e) = 200 \<longleftrightarrow> fst (submit_with_idempotency sha256 clk uid ps prio None e) = Inr (uid, False)) \<and>
    (fst (readyz e) = 503 \<longleftrightarrow>
       (\<exists>n msg. fst (submit_with_idempotency sha256 clk uid ps prio None e) = Inl (OverloadedError n msg)))"
  using assms by (auto simp: readyz_def saturated_def submit_with_idempotency_def admit_def Let_def)

subsection \<open>File upload\<close>

text \<open>The JSON form of a request, as the client writes it into the file.\<close>

definition prompt_json :: "prompt_item \<Rightarrow> json" where
  "prompt_json p =
     JObj ((case prompt_id p of None \<Rightarrow> [] | Some k \<Rightarrow> [(''id'', JStr k)]) @ [(''prompt'', JStr (prompt_text p))])"

definition batch_json :: "prompt_item list \<Rightarrow> json" where
  "batch_json ps = JObj [(''prompts'', JList (map prompt_json ps))]"

lemma upload_entry_prompt: "prompt_text p \<noteq> [] \<Longrightarrow> upload_entry i (prompt_json p) = Inr p"
  by (cases p) (auto simp: upload_entry_def prompt_json_def make_prompt_item_def split: option.split)

lemma upload_entries_prompts:
  "\<forall>p \<in> set ps. prompt_text p \<noteq> [] \<Longrightarrow> upload_entries i (map prompt_json ps) = Inr ps"
  by (induction ps arbitrary: i) (simp_all add: upload_entry_prompt)

lemma upload_decoded:
  assumes "batch_request_ok payload"
    "json_loads raw \<in> {Inr (batch_json (batch_prompts payload)), Inr (JList (map prompt_json (batch_prompts payload)))}"
  shows "upload_batch json_loads sha256 clk uid raw (batch_priority payload) req e = submit_batch sha256 clk uid payload req e"
proof -
  obtain p ps where ps: "batch_prompts payload = p # ps"
    using assms(1) by (cases "batch_prompts payload") (auto simp: batch_request_ok_def)
  have "upload_prompts json_loads raw = upload_entries 0 (map prompt_json (batch_prompts payload))"
    using assms(2) by (auto simp: upload_prompts_def upload_items_def batch_json_def ps)
  also have "\<dots> = Inr (batch_prompts payload)"
    using assms(1) by (intro upload_entries_prompts) (simp add: batch_request_ok_def)
  finally show ?thesis by (simp add: upload_batch_def submit_batch_def)
qed

lemma batch_json_wf: "json_wf (batch_json ps)" "json_wf (JList (map prompt_json ps))"
  by (auto simp: batch_json_def prompt_json_def split: option.split)

text \<open>
  C27. Uploading a file is submitting its content: the JSON text of an admissible request, compact or indented, as
  an object with \<^verbatim>\<open>prompts\<close> or as the bare array, is answered by \<^verbatim>\<open>upload_batch\<close> as \<^verbatim>\<open>submit_batch\<close> answers the request
  itself, and leaves the same engine, for any \<^verbatim>\<open>json.loads\<close> that reads back what \<^verbatim>\<open>json.dumps\<close> writes.
\<close>

theorem upload_equals_submit:
  assumes "json_inverse json_loads" "batch_request_ok payload"
    "v \<in> {batch_json (batch_prompts payload), JList (map prompt_json (batch_prompts payload))}"
  shows "upload_batch json_loads sha256 clk uid (iterencode v indent 0) (batch_priority payload) req e =
    submit_batch sha256 clk uid payload req e"
proof (rule upload_decoded [OF assms(2)])
  have "json_wf v" using assms(3) batch_json_wf by auto
  then have "json_loads (iterencode v indent 0) = Inr v"
    using assms(1) by (simp add: json_inverse_def)
  with assms(3) show "json_loads (iterencode v indent 0) \<in>
      {Inr (batch_json (batch_prompts payload)), Inr (JList (map prompt_json (batch_prompts payload)))}" by auto
qed

theorem upload_equals_submit_witness:
  "upload_batch json_read id (tick 9) ''job-2'' (iterencode (batch_json example_prompts) (Some 4) 0) LOW example_request
     (new_engine example_settings new_metrics) =
   submit_batch id (tick 9) ''job-2'' example_batch example_request (new_engine example_settings new_metrics)"
  using upload_equals_submit [OF json_inverse_read example_batch_ok, of "batch_json example_prompts"]
  by (simp add: example_batch_def)

text \<open>
  What an entry at position \<open>i\<close> of an uploaded file stands for: a non-empty string is a prompt with a generated id, an
  object gives the text under \<^verbatim>\<open>prompt\<close> and, if there is one, the id under \<^verbatim>\<open>id\<close> (other fields are ignored).
\<close>

definition entry_for :: "nat \<Rightarrow> json \<Rightarrow> prompt_item \<Rightarrow> bool" where
  "entry_for i v p \<longleftrightarrow> prompt_text p \<noteq> [] \<and>
     (v = JStr (prompt_text p) \<and> prompt_id p = Some (''prompt-'' @ show_nat (i + 1)) \<or>
      (\<exists>d. v = JObj d \<and> dict_get d ''prompt'' = Some (JStr (prompt_text p)) \<and>
         (case prompt_id p of
            None \<Rightarrow> dict_get d ''id'' \<in> {None, Some JNull}
          | Some k \<Rightarrow> dict_get d ''id'' = Some (JStr k))))"

lemma upload_entry_iff: "upload_entry i v = Inr p \<longleftrightarrow> entry_for i v p"
  by (cases p)
    (auto simp: upload_entry_def make_prompt_item_def entry_for_def split: json.splits option.splits if_splits)

lemma upload_entry_error:
  "\<forall>p. \<not> entry_for i v p \<Longrightarrow> upload_entry i v =
     Inl (if (\<exists>t. v = JStr t) \<or> (\<exists>d. v = JObj d \<and> dict_get d ''prompt'' \<noteq> None) then Unhandled ''ValidationError'' else bad_entry i)"
  unfolding upload_entry_iff [symmetric]
  by (auto simp: upload_entry_def make_prompt_item_def split: json.splits option.splits if_splits)

lemma upload_entries_prefix:
  assumes "\<forall>k < length ps. entry_for (i + k) (vs ! k) (ps ! k)" "length ps \<le> length vs"
  shows "upload_entries i vs =
    (case upload_entries (i + length ps) (drop (length ps) vs) of Inl err \<Rightarrow> Inl err | Inr qs \<Rightarrow> Inr (ps @ qs))"
  using assms
proof (induction ps arbitrary: i vs)
  case Nil
  then show ?case by (simp split: sum.split)
next
  case (Cons p ps)
  obtain v ws where vs: "vs = v # ws" using Cons.prems(2) by (cases vs) auto
  have "upload_entry i v = Inr p" using Cons.prems(1) by (auto simp: upload_entry_iff vs dest: spec [of _ 0])
  moreover have "\<forall>k < length ps. entry_for (Suc i + k) (ws ! k) (ps ! k)" using Cons.prems(1) by (force simp: vs)
  ultimately show ?case using Cons.IH [of "Suc i" ws] Cons.prems(2) by (simp add: vs split: sum.split)
qed

text \<open>
  C29. Every uploaded file is judged by its first bad entry. Whether the file is a bare array or an object with
  \<^verbatim>\<open>prompts\<close>, and whether its entries are strings or objects: if all entries are good, uploading it is submitting
  exactly the prompts they stand for; an empty or missing array is answered with 400. Otherwise nothing
  changes, and the answer depends on the first entry that stands for no prompt: a string (the empty one) or
  an object with a \<^verbatim>\<open>prompt\<close> raises a \<^verbatim>\<open>ValidationError\<close> that nothing catches (an HTTP 500), anything else is
  answered with 400 naming its position.
\<close>

theorem upload_bad_entry:
  assumes "json_loads raw = Inr data" "data = JList vs \<or> (\<exists>d. data = JObj d \<and> dict_get d ''prompts'' = Some (JList vs))"
    "length ps \<le> length vs" "\<forall>i < length ps. entry_for i (vs ! i) (ps ! i)"
  shows "(vs = [] \<longrightarrow>
      upload_batch json_loads sha256 clk uid raw prio req e =
        (Inl (HTTPException 400 ''Expected a non-empty JSON array of prompts (or {prompts: [...]}).'' []), e)) \<and>
    (vs \<noteq> [] \<and> length ps = length vs \<longrightarrow>
      upload_batch json_loads sha256 clk uid raw prio req e =
        submit_batch sha256 clk uid \<lparr>batch_prompts = ps, batch_priority = prio\<rparr> req e) \<and>
    (length ps < length vs \<and> (\<forall>p. \<not> entry_for (length ps) (vs ! length ps) p) \<longrightarrow>
      upload_batch json_loads sha256 clk uid raw prio req e =
        (Inl (if (\<exists>t. vs ! length ps = JStr t) \<or> (\<exists>d. vs ! length ps = JObj d \<and> dict_get d ''prompt'' \<noteq> None)
              then Unhandled ''ValidationError''
              else HTTPException 400 (''Item '' @ show_nat (length ps) @ '' must be a string or an object with a '' @
                [CHR 39] @ ''prompt'' @ [CHR 39] @ '' field.'') []), e))"
proof -
  have items: "upload_items data = JList vs" using assms(2) by (auto simp: upload_items_def)
  have up: "upload_prompts json_loads raw = upload_entries 0 vs" if "vs \<noteq> []"
    using that by (cases vs) (simp_all add: upload_prompts_def assms(1) items)
  note prefix = upload_entries_prefix [of ps 0 vs, simplified, OF assms(4,3)]
  show ?thesis
  proof (intro conjI impI)
    assume "vs = []"
    then show "upload_batch json_loads sha256 clk uid raw prio req e =
        (Inl (HTTPException 400 ''Expected a non-empty JSON array of prompts (or {prompts: [...]}).'' []), e)"
      by (simp add: upload_batch_def upload_prompts_def assms(1) items)
  next
    assume "vs \<noteq> [] \<and> length ps = length vs"
    then show "upload_batch json_loads sha256 clk uid raw prio req e =
        submit_batch sha256 clk uid \<lparr>batch_prompts = ps, batch_priority = prio\<rparr> req e"
      using prefix up by (simp add: upload_batch_def submit_batch_def)
  next
    assume bad: "length ps < length vs \<and> (\<forall>p. \<not> entry_for (length ps) (vs ! length ps) p)"
    then have "drop (length ps) vs = vs ! length ps # drop (Suc (length ps)) vs" by (simp add: Cons_nth_drop_Suc)
    moreover have "vs \<noteq> []" using bad by auto
    ultimately have "upload_prompts json_loads raw =
        Inl (if (\<exists>t. vs ! length ps = JStr t) \<or> (\<exists>d. vs ! length ps = JObj d \<and> dict_get d ''prompt'' \<noteq> None)
             then Unhandled ''ValidationError'' else bad_entry (length ps))"
      using prefix up upload_entry_error [of "length ps" "vs ! length ps"] bad by simp
    then show "upload_batch json_loads sha256 clk uid raw prio req e =
        (Inl (if (\<exists>t. vs ! length ps = JStr t) \<or> (\<exists>d. vs ! length ps = JObj d \<and> dict_get d ''prompt'' \<noteq> None)
              then Unhandled ''ValidationError''
              else HTTPException 400 (''Item '' @ show_nat (length ps) @ '' must be a string or an object with a '' @
                [CHR 39] @ ''prompt'' @ [CHR 39] @ '' field.'') []), e)"
      by (simp add: upload_batch_def bad_entry_def)
  qed
qed

text \<open>The file \<^verbatim>\<open>{"prompts": ["hello", {"prompt": "world", "id": null}, 5]}\<close>, and the same without its last entry.\<close>

definition mixed_entries :: "json list" where
  "mixed_entries = [JStr ''hello'', JObj [(''prompt'', JStr ''world''), (''id'', JNull)]]"

definition mixed_prompts :: "prompt_item list" where
  "mixed_prompts = [\<lparr>prompt_id = Some ''prompt-1'', prompt_text = ''hello''\<rparr>, \<lparr>prompt_id = None, prompt_text = ''world''\<rparr>]"

theorem upload_bad_entry_witness:
  "upload_batch (\<lambda>_. Inr (JObj [(''prompts'', JList (mixed_entries @ [JNum (PyInt 5)]))])) id (tick 9) ''job-2'' ''file'' LOW
     example_request (new_engine example_settings new_metrics) =
   (Inl (bad_entry 2), new_engine example_settings new_metrics) \<and>
   upload_batch (\<lambda>_. Inr (JList mixed_entries)) id (tick 9) ''job-2'' ''file'' LOW
     example_request (new_engine example_settings new_metrics) =
   submit_batch id (tick 9) ''job-2'' \<lparr>batch_prompts = mixed_prompts, batch_priority = LOW\<rparr>
     example_request (new_engine example_settings new_metrics)"
proof
  have good: "\<forall>i < length mixed_prompts. entry_for i ((mixed_entries @ xs) ! i) (mixed_prompts ! i)" for xs
    using show_nat_one by (auto simp: mixed_prompts_def mixed_entries_def entry_for_def nth_Cons' less_Suc_eq)
  have len: "length mixed_prompts = 2" "length mixed_entries = 2" by (simp_all add: mixed_prompts_def mixed_entries_def)
  let ?bad = "mixed_entries @ [JNum (PyInt 5)]"
  have "?bad ! 2 = JNum (PyInt 5)" by (simp add: nth_append len)
  then show "upload_batch (\<lambda>_. Inr (JObj [(''prompts'', JList ?bad)])) id (tick 9) ''job-2'' ''file'' LOW
     example_request (new_engine example_settings new_metrics) =
     (Inl (bad_entry 2), new_engine example_settings new_metrics)"
    using upload_bad_entry [of "\<lambda>_. Inr (JObj [(''prompts'', JList ?bad)])" "''file''" _ ?bad mixed_prompts] good [of "[JNum (PyInt 5)]"]
    by (simp add: len entry_for_def bad_entry_def)
  show "upload_batch (\<lambda>_. Inr (JList mixed_entries)) id (tick 9) ''job-2'' ''file'' LOW
     example_request (new_engine example_settings new_metrics) =
   submit_batch id (tick 9) ''job-2'' \<lparr>batch_prompts = mixed_prompts, batch_priority = LOW\<rparr>
     example_request (new_engine example_settings new_metrics)"
    using upload_bad_entry [of "\<lambda>_. Inr (JList mixed_entries)" "''file''" _ mixed_entries mixed_prompts] good [of "[]"]
    by (simp add: len) (simp add: mixed_entries_def)
qed

end
