(* ===== verification/Api_Stream.thy ===== *)
theory Api_Stream
  imports Api_Laws
begin

text \<open>
  The Server-Sent Events stream of \<^verbatim>\<open>GET /jobs/{job_id}/events\<close>. The generator suspends at its \<^verbatim>\<open>yield\<close>s
  and at its sleep, and the engine runs on meanwhile. One turn of its loop therefore depends on two
  engine states: the one it finds when it wakes up, and the one it finds when it resumes after having
  yielded a progress event. The job object it holds is the live one; the snapshot is not.
\<close>

subsection \<open>Events and their text\<close>

datatype sse_event = Sse (sse_name: string) (sse_data: job_snapshot)

definition json_opt_float :: "pyfloat option \<Rightarrow> json" where
  "json_opt_float x = (case x of None \<Rightarrow> JNull | Some v \<Rightarrow> JNum (PyFlt v))"

definition json_cost :: "cost_view \<Rightarrow> json" where
  "json_cost c =
     JObj
       [(''input_tokens'', JNum (PyInt (cv_input_tokens c))), (''output_tokens'', JNum (PyInt (cv_output_tokens c))),
        (''total_tokens'', JNum (PyInt (cv_total_tokens c))),
        (''estimated_cost_usd'', JNum (PyFlt (cv_estimated_cost_usd c)))]"

text \<open>The dictionary \<^verbatim>\<open>snapshot\<close> returns, in its order, as a JSON value.\<close>

definition json_snapshot :: "job_snapshot \<Rightarrow> json" where
  "json_snapshot d =
     JObj
       [(''job_id'', JStr (snap_job_id d)), (''state'', JStr (job_state_value (snap_state d))),
        (''priority'', JStr (priority_value (snap_priority d))), (''total'', JNum (PyInt (snap_total d))),
        (''completed'', JNum (PyInt (snap_completed d))), (''succeeded'', JNum (PyInt (snap_succeeded d))),
        (''failed'', JNum (PyInt (snap_failed d))), (''pending'', JNum (PyInt (snap_pending d))),
        (''retries'', JNum (PyInt (snap_retries d))), (''progress'', JStr (snap_progress d)),
        (''percent'', JNum (PyFlt (snap_percent d))), (''cost'', json_cost (snap_cost d)),
        (''created_at'', JNum (PyFlt (snap_created_at d))), (''started_at'', json_opt_float (snap_started_at d)),
        (''finished_at'', json_opt_float (snap_finished_at d)),
        (''duration_seconds'', json_opt_float (snap_duration_seconds d))]"

definition sse :: "sse_event \<Rightarrow> string" where
  "sse ev = ''event: '' @ sse_name ev @ [CHR 10] @ ''data: '' @ json_dumps (json_snapshot (sse_data ev)) @ [CHR 10, CHR 10]"

subsection \<open>The generator\<close>

text \<open>
  What one turn finds: whether the client has gone, the time, the engine when it takes the snapshot, and
  the engine when it resumes after a progress event.
\<close>

record stream_view =
  view_disconnected :: bool
  view_now :: pyfloat
  view_engine :: engine
  view_resumed :: engine

text \<open>
  The events of a turn, and the new value of \<^verbatim>\<open>last\<close> or \<^term>\<open>None\<close> when the generator returns. The store
  never drops a job, so \<^verbatim>\<open>get_job\<close> finds it again.
\<close>

definition stream_turn :: "string \<Rightarrow> int \<Rightarrow> stream_view \<Rightarrow> sse_event list \<times> int option" where
  "stream_turn jid seen v =
     (if view_disconnected v then ([], None)
      else
        (let j = the (get_job (view_engine v) jid);
             snap = status_of (view_now v) (view_engine v) j;
             (evs, j1, seen1) =
               (if completed j \<noteq> seen
                then (let j1 = the (get_job (view_resumed v) jid) in ([Sse ''progress'' snap], j1, completed j1))
                else ([], j, seen)) in
         if job_state_value (state j1) \<in> {''completed'', ''failed'', ''cancelled''}
         then (evs @ [Sse (''job_'' @ job_state_value (state j1)) snap], None)
         else (evs, Some seen1)))"

fun job_stream :: "string \<Rightarrow> int \<Rightarrow> stream_view list \<Rightarrow> sse_event list" where
  "job_stream jid seen [] = []"
| "job_stream jid seen (v # vs) =
     (case stream_turn jid seen v of
        (evs, None) \<Rightarrow> evs
      | (evs, Some seen1) \<Rightarrow> evs @ job_stream jid seen1 vs)"

text \<open>
  The whole response: the engine at the request decides about the 404, the one the generator starts
  in gives the first event.
\<close>

definition job_events :: "string \<Rightarrow> engine \<Rightarrow> pyfloat \<Rightarrow> engine \<Rightarrow> stream_view list \<Rightarrow> api_error + sse_event list" where
  "job_events jid e now0 e0 vs =
     (case get_job e jid of
        None \<Rightarrow> Inl (unknown_job jid)
      | Some _ \<Rightarrow> Inr (Sse ''job_started'' (status_of now0 e0 (the (get_job e0 jid))) # job_stream jid (- 1) vs))"

subsection \<open>Streams over a run of the engine\<close>

inductive observed :: "(string \<Rightarrow> string) \<Rightarrow> engine \<times> ledger \<Rightarrow> engine list \<Rightarrow> bool" for sha256 where
  stop: "observed sha256 eG []"
| later: "run_events sha256 evs eG = Some (e1, G1) \<Longrightarrow> observed sha256 (e1, G1) es \<Longrightarrow> observed sha256 eG (e1 # es)"

inductive_cases observed_ConsE: "observed sha256 eG (e # es)"

abbreviation view_engines :: "stream_view list \<Rightarrow> engine list" where
  "view_engines vs \<equiv> concat (map (\<lambda>v. [view_engine v, view_resumed v]) vs)"

definition progress_counts :: "sse_event list \<Rightarrow> int list" where
  "progress_counts evs = map (\<lambda>ev. snap_completed (sse_data ev)) (filter (\<lambda>ev. sse_name ev = ''progress'') evs)"

lemma progress_counts_simps [simp]:
  "progress_counts [] = []"
  "progress_counts (Sse n d # evs) = (if n = ''progress'' then [snap_completed d] else []) @ progress_counts evs"
  "progress_counts (xs @ ys) = progress_counts xs @ progress_counts ys"
  by (simp_all add: progress_counts_def)

lemma terminal_value: "job_state_value st \<in> {''completed'', ''failed'', ''cancelled''} \<longleftrightarrow> terminal st"
  by (cases st) (simp_all add: terminal_def)

lemma snapshot_fields [simp]:
  "snap_completed (status_of now e j) = completed j" "snap_total (status_of now e j) = total j"
  "snap_job_id (status_of now e j) = job_id j" "snap_state (status_of now e j) = state j"
  by (simp_all add: status_of_def snapshot_def)

text \<open>The state the next observation finds: the job is there, evolved.\<close>

lemma observed_next:
  assumes "reachable sha256 s e G" "gate_settings_ok s" "get_job e jid = Some j" "observed sha256 (e, G) (e1 # es)"
  obtains G1 j1 where "reachable sha256 s e1 G1" "get_job e1 jid = Some j1" "job_evolves j j1" "observed sha256 (e1, G1) es"
proof -
  obtain evs G1 where run: "run_events sha256 evs (e, G) = Some (e1, G1)" and es: "observed sha256 (e1, G1) es"
    using assms(4) by (rule observed_ConsE)
  from run_evolves [OF run assms(1,2)] assms(3) obtain j1 where "get_job e1 jid = Some j1" "job_evolves j j1" "reachable sha256 s e1 G1"
    unfolding store_evolves_def get_job_def by blast
  with es that show thesis by blast
qed

lemma stream_turn_cases:
  assumes "get_job (view_engine v) jid = Some j" "get_job (view_resumed v) jid = Some j1" "seen \<le> completed j"
  defines "snap \<equiv> status_of (view_now v) (view_engine v) j"
  obtains (gone) "view_disconnected v" "stream_turn jid seen v = ([], None)"
  | (quiet) "completed j = seen" "\<not> terminal (state j)" "stream_turn jid seen v = ([], Some seen)"
  | (progress) "seen < completed j" "\<not> terminal (state j1)"
      "stream_turn jid seen v = ([Sse ''progress'' snap], Some (completed j1))"
  | (over) "completed j = seen" "terminal (state j)"
      "stream_turn jid seen v = ([Sse (''job_'' @ job_state_value (state j)) snap], None)"
  | (finish) "seen < completed j" "terminal (state j1)"
      "stream_turn jid seen v = ([Sse ''progress'' snap, Sse (''job_'' @ job_state_value (state j1)) snap], None)"
proof -
  consider "view_disconnected v" | "\<not> view_disconnected v" "completed j = seen" | "\<not> view_disconnected v" "seen < completed j"
    using assms(3) by linarith
  then show thesis
  proof cases
    case 1
    then show thesis by (intro gone) (simp_all add: stream_turn_def)
  next
    case 2
    then show thesis
      using assms(1) quiet over by (cases "terminal (state j)")
        (simp_all add: stream_turn_def Let_def snap_def terminal_value del: insert_iff)
  next
    case 3
    then show thesis
      using assms(1,2) progress finish by (cases "terminal (state j1)")
        (simp_all add: stream_turn_def Let_def snap_def terminal_value del: insert_iff)
  qed
qed

text \<open>
  What a stream from \<open>seen\<close> on looks like when it is watched up to the views \<open>vs\<close>: progress events with
  growing counts, then at most one final event, which is there as soon as a connected client's turn
  finds the job finished.
\<close>

definition stream_ok :: "string \<Rightarrow> job \<Rightarrow> int \<Rightarrow> stream_view list \<Rightarrow> sse_event list \<Rightarrow> bool" where
  "stream_ok jid j seen vs evs \<longleftrightarrow>
     sorted_wrt (<) (seen # progress_counts evs) \<and>
     (\<forall>ev \<in> set evs. snap_job_id (sse_data ev) = job_id j \<and> snap_total (sse_data ev) = total j) \<and>
     (\<exists>ps ts. evs = ps @ ts \<and> (\<forall>ev \<in> set ps. sse_name ev = ''progress'') \<and>
        (ts = [] \<or> (\<exists>d jl. ts = [Sse (''job_'' @ job_state_value (state jl)) d] \<and> terminal (state jl) \<and>
            get_job (view_resumed (last vs)) jid = Some jl)) \<and>
        ((\<forall>v \<in> set vs. \<not> view_disconnected v) \<and>
           (\<exists>v \<in> set vs. \<exists>jv. get_job (view_engine v) jid = Some jv \<and> terminal (state jv)) \<longrightarrow> ts \<noteq> []))"

lemma observed_last:
  assumes "reachable sha256 s e G" "gate_settings_ok s" "get_job e jid = Some j" "observed sha256 (e, G) es" "es \<noteq> []"
  shows "\<exists>jl. get_job (last es) jid = Some jl \<and> job_evolves j jl"
  using assms
proof (induction es arbitrary: e G j)
  case (Cons e1 es)
  obtain G1 j1 where n: "reachable sha256 s e1 G1" "get_job e1 jid = Some j1" "job_evolves j j1" "observed sha256 (e1, G1) es"
    using observed_next [OF Cons.prems(1-4)] .
  show ?case
  proof (cases "es = []")
    case False
    then obtain jl where "get_job (last es) jid = Some jl" "job_evolves j1 jl"
      using Cons.IH [OF n(1) Cons.prems(2) n(2,4)] by blast
    with n(3) False job_evolves_trans show ?thesis by auto
  qed (use n in simp)
qed simp

lemma stream_ok_step:
  assumes "stream_ok jid j' seen' vs evs" "vs = [] \<Longrightarrow> evs = []" "job_id j' = job_id j" "total j' = total j"
    "get_job (view_engine v) jid = Some ja" "\<not> terminal (state ja)"
    and pre: "xs = [] \<and> seen' = seen \<or> (\<exists>d. xs = [Sse ''progress'' d] \<and> seen < snap_completed d \<and> snap_completed d \<le> seen' \<and>
      snap_job_id d = job_id j \<and> snap_total d = total j)"
  shows "stream_ok jid j seen (v # vs) (xs @ evs)"
proof -
  have rest: "sorted_wrt (<) (seen' # progress_counts evs)"
    and ids: "\<forall>ev \<in> set evs. snap_job_id (sse_data ev) = job_id j \<and> snap_total (sse_data ev) = total j"
    using assms(1,3,4) by (simp_all add: stream_ok_def)
  obtain ps ts where ts: "evs = ps @ ts" "\<forall>ev \<in> set ps. sse_name ev = ''progress''"
    "ts = [] \<or> (\<exists>d jl. ts = [Sse (''job_'' @ job_state_value (state jl)) d] \<and> terminal (state jl) \<and>
       get_job (view_resumed (last vs)) jid = Some jl)"
    "(\<forall>v \<in> set vs. \<not> view_disconnected v) \<and>
       (\<exists>v \<in> set vs. \<exists>jv. get_job (view_engine v) jid = Some jv \<and> terminal (state jv)) \<longrightarrow> ts \<noteq> []"
    using assms(1) unfolding stream_ok_def by blast
  have "sorted_wrt (<) (seen # progress_counts (xs @ evs))" using pre rest by fastforce
  moreover have "\<forall>ev \<in> set (xs @ evs). snap_job_id (sse_data ev) = job_id j \<and> snap_total (sse_data ev) = total j"
    using pre ids by auto
  moreover have "xs @ evs = (xs @ ps) @ ts" "\<forall>ev \<in> set (xs @ ps). sse_name ev = ''progress''" using pre ts(1,2) by auto
  moreover have "ts = [] \<or> (\<exists>d jl. ts = [Sse (''job_'' @ job_state_value (state jl)) d] \<and> terminal (state jl) \<and>
       get_job (view_resumed (last (v # vs))) jid = Some jl)"
    using ts(1,3) assms(2) by (cases "vs = []") auto
  moreover have "(\<forall>w \<in> set (v # vs). \<not> view_disconnected w) \<and>
       (\<exists>w \<in> set (v # vs). \<exists>jv. get_job (view_engine w) jid = Some jv \<and> terminal (state jv)) \<longrightarrow> ts \<noteq> []"
    using ts(4) assms(5,6) by auto
  ultimately show ?thesis unfolding stream_ok_def by blast
qed

lemma stream_ok_final:
  assumes "get_job (view_resumed (last vs)) jid = Some jl" "terminal (state jl)"
    and pre: "xs = [] \<or> xs = [Sse ''progress'' d] \<and> seen < snap_completed d"
    and d: "snap_job_id d = job_id j" "snap_total d = total j"
  shows "stream_ok jid j seen vs (xs @ [Sse (''job_'' @ job_state_value (state jl)) d])"
proof -
  let ?final = "Sse (''job_'' @ job_state_value (state jl)) d"
  have "sorted_wrt (<) (seen # progress_counts (xs @ [?final]))" using pre by auto
  moreover have "\<forall>ev \<in> set xs. sse_name ev = ''progress''" using pre by auto
  moreover have "\<forall>ev \<in> set (xs @ [?final]). snap_job_id (sse_data ev) = job_id j \<and> snap_total (sse_data ev) = total j"
    using pre d by auto
  moreover have "\<exists>d jl'. [?final] = [Sse (''job_'' @ job_state_value (state jl')) d] \<and> terminal (state jl') \<and>
      get_job (view_resumed (last vs)) jid = Some jl'"
    using assms(1,2) by blast
  ultimately show ?thesis unfolding stream_ok_def by blast
qed

text \<open>One turn further: the job at the two observations of the turn, and at the last one of all.\<close>

lemma observed_turn:
  assumes "reachable sha256 s e G" "gate_settings_ok s" "get_job e jid = Some j"
    "observed sha256 (e, G) (view_engines (v # vs))"
  obtains ja Gb jb jl where "get_job (view_engine v) jid = Some ja" "job_evolves j ja"
    "reachable sha256 s (view_resumed v) Gb" "get_job (view_resumed v) jid = Some jb" "job_evolves ja jb"
    "observed sha256 (view_resumed v, Gb) (view_engines vs)"
    "get_job (view_resumed (last (v # vs))) jid = Some jl" "job_evolves jb jl"
proof -
  have obs: "observed sha256 (e, G) (view_engine v # view_resumed v # view_engines vs)" using assms(4) by simp
  obtain Ga ja where a: "reachable sha256 s (view_engine v) Ga" "get_job (view_engine v) jid = Some ja" "job_evolves j ja"
    "observed sha256 (view_engine v, Ga) (view_resumed v # view_engines vs)"
    using observed_next [OF assms(1-3) obs] .
  obtain Gb jb where b: "reachable sha256 s (view_resumed v) Gb" "get_job (view_resumed v) jid = Some jb" "job_evolves ja jb"
    "observed sha256 (view_resumed v, Gb) (view_engines vs)"
    using observed_next [OF a(1) assms(2) a(2,4)] .
  have "\<exists>jl. get_job (view_resumed (last (v # vs))) jid = Some jl \<and> job_evolves jb jl"
  proof (cases "vs = []")
    case False
    then have "last (view_engines vs) = view_resumed (last vs)" by (induction vs) auto
    with observed_last [OF b(1) assms(2) b(2,4)] False show ?thesis by auto
  qed (use b in simp)
  with a b that show thesis by blast
qed

lemma job_stream_ok:
  assumes "reachable sha256 s e G" "gate_settings_ok s" "get_job e jid = Some j" "seen \<le> completed j"
    "observed sha256 (e, G) (view_engines vs)"
  shows "stream_ok jid j seen vs (job_stream jid seen vs)"
  using assms
proof (induction vs arbitrary: e G j seen)
  case Nil
  then show ?case by (simp add: stream_ok_def)
next
  case (Cons v vs)
  obtain ja Gb jb jl where t: "get_job (view_engine v) jid = Some ja" "job_evolves j ja"
    "reachable sha256 s (view_resumed v) Gb" "get_job (view_resumed v) jid = Some jb" "job_evolves ja jb"
    "observed sha256 (view_resumed v, Gb) (view_engines vs)"
    and last: "get_job (view_resumed (last (v # vs))) jid = Some jl" "job_evolves jb jl"
    using observed_turn [OF Cons.prems(1-3,5)] .
  have same: "job_id ja = job_id j" "total ja = total j" "job_id jb = job_id j" "total jb = total j"
    "completed j \<le> completed ja" "completed ja \<le> completed jb" "terminal (state ja) \<Longrightarrow> state jb = state ja"
    and jl: "terminal (state jb) \<Longrightarrow> state jl = state jb"
    using t(2,5) last(2) by (auto simp: job_evolves_def)
  have IH: "stream_ok jid jb seen' vs (job_stream jid seen' vs)" if "seen' \<le> completed jb" for seen'
    using Cons.IH [OF t(3) Cons.prems(2) t(4) that t(6)] .
  have le: "seen \<le> completed ja" using Cons.prems(4) same by simp
  let ?snap = "status_of (view_now v) (view_engine v) ja"
  show ?case
  proof (rule stream_turn_cases [OF t(1,4) le])
    assume "view_disconnected v" "stream_turn jid seen v = ([], None)"
    then show ?thesis by (auto simp: stream_ok_def)
  next
    assume "\<not> terminal (state ja)" "stream_turn jid seen v = ([], Some seen)"
    then show ?thesis
      using stream_ok_step [OF IH [of seen] _ same(3,4) t(1), of "[]" seen] le same(6) by simp
  next
    assume p: "seen < completed ja" "\<not> terminal (state jb)" "stream_turn jid seen v = ([Sse ''progress'' ?snap], Some (completed jb))"
    then have "\<not> terminal (state ja)" using same(7) by auto
    then show ?thesis
      using stream_ok_step [OF IH [of "completed jb"] _ same(3,4) t(1), of "[Sse ''progress'' ?snap]" seen] p same by simp
  next
    assume "terminal (state ja)" "stream_turn jid seen v = ([Sse (''job_'' @ job_state_value (state ja)) ?snap], None)"
    then show ?thesis
      using stream_ok_final [OF last(1), of "[]" ?snap seen j] jl same by simp
  next
    assume p: "seen < completed ja" "terminal (state jb)"
      "stream_turn jid seen v = ([Sse ''progress'' ?snap, Sse (''job_'' @ job_state_value (state jb)) ?snap], None)"
    then show ?thesis
      using stream_ok_final [OF last(1), of "[Sse ''progress'' ?snap]" ?snap seen j] jl same by simp
  qed
qed

text \<open>
  C24. The event stream tells the job's life in order: started on any reachable engine and watched over any
  run, it yields \<^verbatim>\<open>job_started\<close>, then progress events of this job with strictly growing completed counts,
  then at most one final event, named after the terminal state the job keeps; and a client that
  stays connected gets that final event as soon as a turn of the stream finds the job finished.
\<close>

theorem event_stream_in_order:
  assumes "reachable sha256 s e G" "gate_settings_ok s" "get_job e jid = Some j"
    "observed sha256 (e, G) (e0 # view_engines vs)"
  shows "\<exists>d0 ps ts. job_events jid e now0 e0 vs = Inr (Sse ''job_started'' d0 # ps @ ts) \<and>
    (\<forall>ev \<in> set ps. sse_name ev = ''progress'' \<and> snap_job_id (sse_data ev) = job_id j) \<and>
    sorted_wrt (<) (map (\<lambda>ev. snap_completed (sse_data ev)) ps) \<and>
    (ts = [] \<or> (\<exists>d jl. ts = [Sse (''job_'' @ job_state_value (state jl)) d] \<and> terminal (state jl) \<and>
       get_job (view_resumed (last vs)) jid = Some jl)) \<and>
    ((\<forall>v \<in> set vs. \<not> view_disconnected v) \<and>
       (\<exists>v \<in> set vs. \<exists>jv. get_job (view_engine v) jid = Some jv \<and> terminal (state jv)) \<longrightarrow> ts \<noteq> [])"
proof -
  obtain G0 j0 where st: "reachable sha256 s e0 G0" "get_job e0 jid = Some j0" "job_evolves j j0"
    "observed sha256 (e0, G0) (view_engines vs)"
    using observed_next [OF assms(1-4)] .
  have "completed j0 = int (length (results j0))"
    using reachable_job [OF st(1) assms(2) st(2)] by (metis job_inv_def)
  then have ok: "stream_ok jid j0 (- 1) vs (job_stream jid (- 1) vs)"
    by (intro job_stream_ok [OF st(1) assms(2) st(2) _ st(4)]) simp
  then obtain ps ts where ts: "job_stream jid (- 1) vs = ps @ ts" "\<forall>ev \<in> set ps. sse_name ev = ''progress''"
    "ts = [] \<or> (\<exists>d jl. ts = [Sse (''job_'' @ job_state_value (state jl)) d] \<and> terminal (state jl) \<and>
       get_job (view_resumed (last vs)) jid = Some jl)"
    "(\<forall>v \<in> set vs. \<not> view_disconnected v) \<and>
       (\<exists>v \<in> set vs. \<exists>jv. get_job (view_engine v) jid = Some jv \<and> terminal (state jv)) \<longrightarrow> ts \<noteq> []"
    unfolding stream_ok_def by blast
  have "progress_counts ps = map (\<lambda>ev. snap_completed (sse_data ev)) ps"
    using ts(2) by (simp add: progress_counts_def filter_id_conv)
  then have "sorted_wrt (<) (map (\<lambda>ev. snap_completed (sse_data ev)) ps)"
    using ok by (simp add: stream_ok_def ts(1) sorted_wrt_append)
  moreover have "\<forall>ev \<in> set ps. snap_job_id (sse_data ev) = job_id j"
    using ok st(3) by (auto simp: stream_ok_def ts(1) job_evolves_def)
  moreover have "job_events jid e now0 e0 vs = Inr (Sse ''job_started'' (status_of now0 e0 j0) # ps @ ts)"
    using assms(3) st(2) by (simp add: job_events_def ts(1))
  ultimately show ?thesis using ts(2-4) by blast
qed

lemma example_prefix:
  assumes "example_run (xs @ ys) = Some (e', G')"
  obtains e G where "example_run xs = Some (e, G)" "run_events id ys (e, G) = Some (e', G')"
    "reachable id example_settings e G"
  using assms example_split [of xs ys "(e', G')"] example_reachable by metis

text \<open>The engine after one of the two prompts has been settled, and after both.\<close>

lemma example_stream_states:
  obtains e G e' G' j j' where "reachable id example_settings e G" "run_events id (tl example_finish) (e, G) = Some (e', G')"
    "get_job e ''job-1'' = Some j" "state j = RUNNING" "completed j = 1" "total j = 2"
    "get_job e' ''job-1'' = Some j'" "state j' = COMPLETED" "completed j' = 2"
proof -
  have one: "map_option (\<lambda>(e, G). map_option (\<lambda>j. (state j, completed j, total j)) (get_job e ''job-1''))
      (example_run (example_start @ [hd example_finish])) = Some (Some (RUNNING, 1, 2))"
    by (simp add: engine_exec)
  have two: "map_option (\<lambda>(e, G). map_option (\<lambda>j. (state j, completed j)) (get_job e ''job-1''))
      (example_run ((example_start @ [hd example_finish]) @ tl example_finish)) = Some (Some (COMPLETED, 2))"
    by (simp add: engine_exec)
  then obtain e' G' j' where fin: "example_run ((example_start @ [hd example_finish]) @ tl example_finish) = Some (e', G')"
    "get_job e' ''job-1'' = Some j'" "state j' = COMPLETED" "completed j' = 2"
    by (auto simp: map_option_eq_Some)
  obtain e G where "example_run (example_start @ [hd example_finish]) = Some (e, G)"
    "run_events id (tl example_finish) (e, G) = Some (e', G')" "reachable id example_settings e G"
    using example_prefix [OF fin(1)] .
  with one fin(2-4) that show thesis by (auto simp: map_option_eq_Some)
qed

theorem event_stream_in_order_witness:
  "\<exists>e G e' ps ts d0. reachable id example_settings e G \<and>
     job_events ''job-1'' e 0 e
       [\<lparr>view_disconnected = False, view_now = 0, view_engine = e, view_resumed = e\<rparr>,
        \<lparr>view_disconnected = False, view_now = 1, view_engine = e', view_resumed = e'\<rparr>] =
       Inr (Sse ''job_started'' d0 # ps @ ts) \<and> ts \<noteq> []"
proof -
  obtain e G e' G' j j' where ex: "reachable id example_settings e G" "run_events id (tl example_finish) (e, G) = Some (e', G')"
    "get_job e ''job-1'' = Some j" "get_job e' ''job-1'' = Some j'" "state j' = COMPLETED"
    using example_stream_states by metis
  let ?vs = "[\<lparr>view_disconnected = False, view_now = 0, view_engine = e, view_resumed = e\<rparr>,
        \<lparr>view_disconnected = False, view_now = 1, view_engine = e', view_resumed = e'\<rparr>]"
  have idle: "run_events id [] x = Some x" for x by simp
  have "observed id (e, G) (e # view_engines ?vs)"
    by (auto intro!: observed.intros intro: idle ex(2))
  from event_stream_in_order [OF ex(1) example_settings_ok(2) ex(3) this, of 0] ex(1,4,5)
  show ?thesis by (auto simp: terminal_def) blast
qed

text \<open>
  C26. The final event can carry stale data: the snapshot is taken before the progress event is yielded, the
  state is read after it. When the job finishes in between, the client receives \<^verbatim>\<open>job_completed\<close> with a
  snapshot that says \<^verbatim>\<open>running\<close> and has fewer completed prompts than the total, and no later event.
\<close>

theorem final_event_can_be_stale:
  "\<exists>e G e' G' evs d. reachable id example_settings e G \<and> run_events id evs (e, G) = Some (e', G') \<and>
     job_events ''job-1'' e 0 e [\<lparr>view_disconnected = False, view_now = 0, view_engine = e, view_resumed = e'\<rparr>] =
       Inr [Sse ''job_started'' d, Sse ''progress'' d, Sse ''job_completed'' d] \<and>
     snap_state d = RUNNING \<and> snap_completed d < snap_total d"
proof -
  obtain e G e' G' j j' where ex: "reachable id example_settings e G" "run_events id (tl example_finish) (e, G) = Some (e', G')"
    "get_job e ''job-1'' = Some j" "state j = RUNNING" "completed j = 1" "total j = 2"
    "get_job e' ''job-1'' = Some j'" "state j' = COMPLETED"
    using example_stream_states by metis
  then have "job_events ''job-1'' e 0 e [\<lparr>view_disconnected = False, view_now = 0, view_engine = e, view_resumed = e'\<rparr>] =
      Inr [Sse ''job_started'' (status_of 0 e j), Sse ''progress'' (status_of 0 e j), Sse ''job_completed'' (status_of 0 e j)]"
    by (simp add: job_events_def stream_turn_def Let_def)
  moreover have "snap_state (status_of 0 e j) = RUNNING" "snap_completed (status_of 0 e j) < snap_total (status_of 0 e j)"
    using ex by simp_all
  ultimately show ?thesis using ex(1,2) by blast
qed

end
