(* ===== verification/Selftest.thy ===== *)
theory Selftest
  imports Api_Stream
begin

text \<open>
  The built-in self-test of \<^verbatim>\<open>app/selftest.py\<close> and its endpoint. The coroutine submits two synthetic
  batches (one of them twice, under the same key) without suspending, then polls the engine with
  sleeps in between, and evaluates its checks. The polls are a list of observations, each a reading of
  \<^verbatim>\<open>time.perf_counter()\<close> and the engine of that moment; when the list ends before the polling does the
  outcome is \<^term>\<open>None\<close>. The job objects are the live ones, so the report reads them in the engine of the
  last observation.
\<close>

subsection \<open>Synthetic prompts\<close>

definition PROMPTS :: "string list" where
  "PROMPTS =
     [''What is machine learning?'',
      ''Explain transformer architecture'',
      ''What is a batch inference engine?'',
      ''Define latency vs throughput'',
      ''What is exponential backoff with jitter?'',
      ''Explain the AIMD congestion control algorithm'',
      ''What is a token bucket rate limiter?'',
      ''How does a weighted round-robin fair scheduler work?'',
      ''What is a dead letter queue?'',
      ''Why is idempotency important in distributed systems?'']"

definition make_prompts :: "string \<Rightarrow> nat \<Rightarrow> prompt_item list" where
  "make_prompts tag n =
     map (\<lambda>i. \<lparr>prompt_id = None,
               prompt_text = ''['' @ tag @ ''-'' @ show_nat (i + 1) @ ''] '' @ PROMPTS ! (i mod length PROMPTS)\<rparr>)
       [0..<n]"

definition clamp_n :: "int \<Rightarrow> nat" where
  "clamp_n n = nat (max 5 (min n 200))"

subsection \<open>Polling\<close>

definition unfinished :: "job \<Rightarrow> bool" where
  "unfinished j \<longleftrightarrow> state j \<in> {RUNNING, PENDING}"

text \<open>\<^verbatim>\<open>_poll\<close>: the job it returns and the engine in which it does.\<close>

fun poll :: "string \<Rightarrow> pyfloat \<Rightarrow> (pyfloat \<times> engine) list \<Rightarrow> (job option \<times> engine) option" where
  "poll jid deadline [] = None"
| "poll jid deadline ((now, e) # obs) =
     (case get_job e jid of
        None \<Rightarrow> Some (None, e)
      | Some j \<Rightarrow> if \<not> unfinished j \<or> deadline < now then Some (Some j, e) else poll jid deadline obs)"

text \<open>
  The polling loop of \<^verbatim>\<open>run_self_test\<close>: the job last read, the peak number of permits in use, and the
  engine in which the loop is left.
\<close>

fun watch :: "job \<Rightarrow> pyfloat \<Rightarrow> int \<Rightarrow> (pyfloat \<times> engine) list \<Rightarrow> (job \<times> int \<times> engine) option" where
  "watch j deadline peak [] = None"
| "watch j deadline peak ((now, e) # obs) =
     (let j1 = (case get_job e (job_id j) of None \<Rightarrow> j | Some c \<Rightarrow> c);
          peak1 = max peak (lim_in_use (eng_limiter e)) in
      if \<not> unfinished j1 \<or> deadline < now then Some (j1, peak1, e) else watch j1 deadline peak1 obs)"

subsection \<open>The test\<close>

text \<open>The values drawn and the clock readings taken along the way.\<close>

record self_test_inputs =
  st_run_id :: string
  st_uid :: string
  st_uid_dup :: string
  st_uid_fair :: string
  st_clk :: clock
  st_clk_dup :: clock
  st_clk_fair :: clock
  st_t0 :: pyfloat
  st_t_ack :: pyfloat
  st_t_watch :: pyfloat
  st_t_end :: pyfloat
  st_t_poll :: pyfloat

record self_test_checks =
  chk_immediate_ack :: bool
  chk_idempotency_roundtrip :: bool
  chk_all_prompts_aggregated :: bool
  chk_no_prompts_dropped :: bool
  chk_retry_recovery_observed :: bool
  chk_concurrency_cap_respected :: bool
  chk_queue_drained :: bool
  chk_fair_scheduling :: bool

record self_test_report =
  rep_status :: string
  rep_job_id :: string
  rep_prompts :: nat
  rep_duration_seconds :: pyfloat
  rep_throughput_rps :: pyfloat
  rep_ack_latency_ms :: pyfloat
  rep_succeeded :: int
  rep_failed :: int
  rep_retries :: int
  rep_rate_limit_handling :: string
  rep_peak_inflight_observed :: int
  rep_concurrency_cap :: int
  rep_fair_scheduling_job_id :: "string option"
  rep_checks :: self_test_checks

text \<open>Steps 1 to 3: the three submissions. The outcome is the two job ids and the idempotency check.\<close>

definition self_test_submit ::
  "(string \<Rightarrow> string) \<Rightarrow> self_test_inputs \<Rightarrow> nat \<Rightarrow> engine \<Rightarrow> (submit_error + string \<times> bool \<times> string) \<times> engine" where
  "self_test_submit sha256 inp n e =
     (let prompts = make_prompts ''st'' n; ikey = ''self-test-'' @ st_run_id inp in
      case submit_with_idempotency sha256 (st_clk inp) (st_uid inp) prompts LOW (Some ikey) e of
        (Inl err, e1) \<Rightarrow> (Inl err, e1)
      | (Inr (jid, _), e1) \<Rightarrow>
          (case submit_with_idempotency sha256 (st_clk_dup inp) (st_uid_dup inp) prompts LOW (Some ikey) e1 of
             (Inl err, e2) \<Rightarrow> (Inl err, e2)
           | (Inr (dup, reused), e2) \<Rightarrow>
               (case submit_with_idempotency sha256 (st_clk_fair inp) (st_uid_fair inp)
                       (make_prompts ''fair'' (max 5 (n div 5))) NORMAL (Some (''self-test-fair-'' @ st_run_id inp)) e2 of
                  (Inl err, e3) \<Rightarrow> (Inl err, e3)
                | (Inr (fair, _), e3) \<Rightarrow> (Inr (jid, reused \<and> dup = jid, fair), e3))))"

definition ack_ms :: "self_test_inputs \<Rightarrow> pyfloat" where
  "ack_ms inp = fl (fl (st_t_ack inp - st_t0 inp) * 1000)"

definition self_test_evaluate ::
  "self_test_inputs \<Rightarrow> nat \<Rightarrow> bool \<Rightarrow> int \<Rightarrow> job \<Rightarrow> job option \<Rightarrow> engine \<Rightarrow> self_test_checks" where
  "self_test_evaluate inp n idem peak j fair e =
     \<lparr>chk_immediate_ack = (ack_ms inp < 500), chk_idempotency_roundtrip = idem,
      chk_all_prompts_aggregated = (completed j = int n),
      chk_no_prompts_dropped = (succeeded j + failed j = int n),
      chk_retry_recovery_observed = (0 < retries j),
      chk_concurrency_cap_respected = (peak \<le> global_max_concurrency (eng_settings e)),
      chk_queue_drained = (pending (eng_scheduler e) = 0),
      chk_fair_scheduling =
        (case fair of None \<Rightarrow> False | Some f \<Rightarrow> state f = COMPLETED \<and> succeeded f = total f)\<rparr>"

definition must_pass :: "self_test_checks \<Rightarrow> bool" where
  "must_pass c \<longleftrightarrow>
     chk_immediate_ack c \<and> chk_idempotency_roundtrip c \<and> chk_all_prompts_aggregated c \<and> chk_no_prompts_dropped c \<and>
     chk_concurrency_cap_respected c \<and> chk_queue_drained c \<and> chk_fair_scheduling c"

text \<open>The returned dictionary; \<^verbatim>\<open>n / elapsed\<close> fails when no time has passed.\<close>

definition self_test_result ::
  "self_test_inputs \<Rightarrow> nat \<Rightarrow> bool \<Rightarrow> int \<Rightarrow> job \<Rightarrow> job option \<Rightarrow> engine \<Rightarrow> self_test_report result" where
  "self_test_result inp n idem peak j fair e =
     (let elapsed = fl (st_t_end inp - st_t0 inp); checks = self_test_evaluate inp n idem peak j fair e in
      if elapsed = 0 then Inl (ZeroDivisionError ''division by zero'')
      else
        Inr \<lparr>rep_status = (if must_pass checks then ''passed'' else ''failed''), rep_job_id = job_id j, rep_prompts = n,
             rep_duration_seconds = py_round elapsed 3,
             rep_throughput_rps = py_round (fl (of_nat n / elapsed)) 1,
             rep_ack_latency_ms = py_round (ack_ms inp) 1,
             rep_succeeded = succeeded j, rep_failed = failed j, rep_retries = retries j,
             rep_rate_limit_handling = (if 0 < retries j then ''observed_429s_and_recovered'' else ''no_429s_in_run''),
             rep_peak_inflight_observed = peak, rep_concurrency_cap = lim_limit (eng_limiter e),
             rep_fair_scheduling_job_id = map_option job_id fair, rep_checks = checks\<rparr>)"

text \<open>
  Steps 4 and 5, from the engine after the submissions on. \<^verbatim>\<open>_poll\<close> looks at the engine for the first time
  right after the loop, without suspending in between.
\<close>

definition self_test_finish ::
  "self_test_inputs \<Rightarrow> nat \<Rightarrow> string \<times> bool \<times> string \<Rightarrow> engine \<Rightarrow> (pyfloat \<times> engine) list \<Rightarrow> pyfloat \<Rightarrow>
     (pyfloat \<times> engine) list \<Rightarrow> self_test_report result option" where
  "self_test_finish inp n sub e obs now_poll obs_poll =
     (let (jid, idem, fair) = sub in
      case watch (the (get_job e jid)) (fl (st_t_watch inp + 60)) 0 obs of
        None \<Rightarrow> None
      | Some (j, peak, e1) \<Rightarrow>
          (case poll fair (fl (st_t_poll inp + 30)) ((now_poll, e1) # obs_poll) of
             None \<Rightarrow> None
           | Some (fj, e2) \<Rightarrow>
               Some (self_test_result inp n idem peak (case get_job e2 (job_id j) of None \<Rightarrow> j | Some c \<Rightarrow> c) fj e2)))"

text \<open>The whole coroutine: the first component of the outcome is the exception of a refused submission.\<close>

definition run_self_test ::
  "(string \<Rightarrow> string) \<Rightarrow> self_test_inputs \<Rightarrow> int \<Rightarrow> engine \<Rightarrow> (pyfloat \<times> engine) list \<Rightarrow> pyfloat \<Rightarrow>
     (pyfloat \<times> engine) list \<Rightarrow> submit_error + self_test_report result option" where
  "run_self_test sha256 inp n e obs now_poll obs_poll =
     (let m = clamp_n n in
      case self_test_submit sha256 inp m e of
        (Inl err, _) \<Rightarrow> Inl err
      | (Inr sub, e1) \<Rightarrow> Inr (self_test_finish inp m sub e1 obs now_poll obs_poll))"

text \<open>
  The endpoint's status code: 200 or 500 by the report, 503 by the handler for \<^verbatim>\<open>OverloadedError\<close>, and
  500 for what nothing catches.
\<close>

definition self_test_code :: "self_test_report result \<Rightarrow> int" where
  "self_test_code r = (case r of Inr rep \<Rightarrow> if rep_status rep = ''passed'' then 200 else 500 | Inl _ \<Rightarrow> 500)"

definition self_test_refused :: "submit_error \<Rightarrow> api_error" where
  "self_test_refused err =
     (case err of
        OverloadedError retry_after msg \<Rightarrow> HTTPException 503 msg [(''Retry-After'', show_int retry_after)]
      | IdempotencyConflictError msg \<Rightarrow> Unhandled msg)"

subsection \<open>Observations of a run\<close>

lemma observed_states:
  assumes "reachable sha256 s e G" "gate_settings_ok s" "observed sha256 (e, G) es"
  shows "sorted_wrt (\<lambda>a b. store_evolves (eng_store a) (eng_store b)) (e # es) \<and>
    (\<forall>e' \<in> set es. \<exists>G'. reachable sha256 s e' G')"
  using assms
proof (induction es arbitrary: e G)
  case (Cons e1 es)
  obtain evs G1 where run: "run_events sha256 evs (e, G) = Some (e1, G1)" "observed sha256 (e1, G1) es"
    using Cons.prems(3) by (rule observed_ConsE)
  have st: "store_evolves (eng_store e) (eng_store e1)" "reachable sha256 s e1 G1"
    using run_evolves [OF run(1) Cons.prems(1,2)] by blast+
  from Cons.IH [OF st(2) Cons.prems(2) run(2)] st store_evolves_trans show ?case by auto
qed simp

lemma evolved_job:
  assumes "store_evolves (eng_store e) (eng_store e')" "get_job e jid = Some j"
  obtains j' where "get_job e' jid = Some j'" "job_evolves j j'"
  using assms unfolding store_evolves_def get_job_def by blast

lemma watch_result:
  assumes "watch j deadline peak obs = Some (j1, peak1, e1)" "peak \<le> m" "job_id j = jid"
    "\<forall>(t, e) \<in> set obs. lim_in_use (eng_limiter e) \<le> m \<and> (\<exists>j'. get_job e jid = Some j' \<and> job_id j' = jid)"
  shows "peak1 \<le> m \<and> get_job e1 jid = Some j1 \<and> job_id j1 = jid \<and> e1 \<in> snd ` set obs \<and>
    ((\<forall>(t, e) \<in> set obs. t \<le> deadline) \<longrightarrow> \<not> unfinished j1)"
  using assms
proof (induction obs arbitrary: j peak)
  case (Cons te obs)
  obtain t e where te: "te = (t, e)" by fastforce
  obtain j' where j': "get_job e jid = Some j'" "job_id j' = jid" using Cons.prems(4) te by auto
  show ?case
  proof (cases "\<not> unfinished j' \<or> deadline < t")
    case True
    then show ?thesis using Cons.prems te j' by (auto simp: Let_def)
  next
    case False
    then have "watch j' deadline (max peak (lim_in_use (eng_limiter e))) obs = Some (j1, peak1, e1)"
      using Cons.prems(1,3) te j' by (simp add: Let_def)
    from Cons.IH [OF this _ j'(2)] Cons.prems(2,4) te show ?thesis by auto
  qed
qed simp

lemma poll_engine:
  "poll jid deadline obs = Some (r, e) \<Longrightarrow> e \<in> snd ` set obs \<and> r = get_job e jid"
  by (induction jid deadline obs rule: poll.induct) (auto split: option.splits if_splits)

subsection \<open>What the checks establish\<close>

lemma length_make_prompts [simp]: "length (make_prompts tag n) = n"
  by (simp add: make_prompts_def)

text \<open>The state after the three submissions: the duplicate was recognised, the primary job is stored.\<close>

lemma self_test_submit_effect:
  assumes "reachable sha256 s e G" "gate_settings_ok s" "fresh_id (st_uid inp) e" "fresh_id (st_uid_fair inp) e"
    "st_uid inp \<noteq> st_uid_fair inp" "find_by_idempotency_key (eng_store e) (''self-test-'' @ st_run_id inp) = None"
    "self_test_submit sha256 inp n e = (Inr (jid, idem, fair), e3)"
  shows "idem \<and> (\<exists>j. get_job e3 jid = Some j \<and> job_id j = jid \<and> total j = int n)"
proof -
  let ?ps = "make_prompts ''st'' n" and ?k = "''self-test-'' @ st_run_id inp"
  obtain b e1 where one: "submit_with_idempotency sha256 (st_clk inp) (st_uid inp) ?ps LOW (Some ?k) e = (Inr (jid, b), e1)"
    using assms(7) by (auto simp: self_test_submit_def Let_def split: prod.splits sum.splits)
  have ok: "store_ok (eng_store e)" using book_okD(1) reachable_book [OF assms(1,2)] by blast
  obtain f where two: "submit_with_idempotency sha256 (st_clk_dup inp) (st_uid_dup inp) ?ps LOW (Some ?k) e1 = (Inr (jid, True), tally f e1)"
    using resubmit_at_once [OF ok assms(3) _ one] by auto
  obtain b' where three: "submit_with_idempotency sha256 (st_clk_fair inp) (st_uid_fair inp)
      (make_prompts ''fair'' (max 5 (n div 5))) NORMAL (Some (''self-test-fair-'' @ st_run_id inp)) (tally f e1) = (Inr (fair, b'), e3)"
    and idem: idem
    using assms(7) one two by (auto simp: self_test_submit_def Let_def split: prod.splits sum.splits)
  have new: "\<not> b"
    using one assms(6) by (auto simp: submit_with_idempotency_def admit_def Let_def split: if_splits)
  with submit_cases [OF assms(1-3) one]
  obtain j where j: "jid = st_uid inp" "get_job e1 jid = Some j" "total j = int n"
    "\<And>k. k \<noteq> jid \<Longrightarrow> get_job e1 k = get_job e k"
    by auto
  have r1: "reachable sha256 s e1 (ledger_step (Submit (st_uid inp) ?ps LOW (Some ?k)) e G)"
    using reachable.step [OF assms(1), of "st_clk inp" "Submit (st_uid inp) ?ps LOW (Some ?k)" e1] assms(3) one by simp
  have ok1: "store_ok (eng_store (tally f e1))" using book_okD(1) reachable_book [OF r1 assms(2)] by simp
  have "fresh_id (st_uid_fair inp) (tally f e1)"
    using assms(4,5) j(1,4) by (simp add: fresh_id_def get_job_def)
  from submit_evolves [OF ok1 this, of sha256 "st_clk_fair inp" "make_prompts ''fair'' (max 5 (n div 5))" NORMAL
      "Some (''self-test-fair-'' @ st_run_id inp)"] three
  have "store_evolves (eng_store e1) (eng_store e3)" by simp
  then obtain j3 where "get_job e3 jid = Some j3" "job_evolves j j3" using j(2) by (rule evolved_job)
  moreover have "job_id j = jid" using store_ok_ids [of "eng_store e1"] ok1 j(2) by (simp add: get_job_def)
  ultimately show ?thesis using idem j(3) by (auto simp: job_evolves_def)
qed

text \<open>What the report is computed from: the engine at the end of the loop, and the one at the end of \<^verbatim>\<open>_poll\<close>.\<close>

lemma self_test_finish_effect:
  assumes "gate_settings_ok s" and j3: "get_job e3 jid = Some j3" "job_id j3 = jid"
    and srt: "sorted_wrt (\<lambda>a b. store_evolves (eng_store a) (eng_store b)) (e3 # map snd obs @ map snd obs_poll)"
    and reach: "\<And>e'. e' \<in> snd ` (set obs \<union> set obs_poll) \<Longrightarrow> \<exists>G'. reachable sha256 s e' G'"
    and fin: "self_test_finish inp n (jid, idem, fair) e3 obs now_poll obs_poll = Some (Inr rep)"
  obtains peak e1 j1 e2 j2 fj where "peak \<le> global_max_concurrency s" "e1 \<in> snd ` set obs" "get_job e1 jid = Some j1"
    "(\<forall>(t, e') \<in> set obs. t \<le> fl (st_t_watch inp + 60)) \<longrightarrow> \<not> unfinished j1"
    "e2 \<in> snd ` (set obs \<union> set obs_poll)" "get_job e2 jid = Some j2" "job_evolves j1 j2" "job_evolves j3 j2"
    "rep_checks rep = self_test_evaluate inp n idem peak j2 fj e2"
proof -
  have later: "\<exists>j'. get_job e' jid = Some j' \<and> job_evolves j3 j'" if "e' \<in> snd ` (set obs \<union> set obs_poll)" for e'
    using srt that evolved_job [OF _ j3(1), of e'] by (metis image_Un list.set_map set_append sorted_wrt.simps(2))
  obtain j1 peak e1 fj e2 where
    w: "watch j3 (fl (st_t_watch inp + 60)) 0 obs = Some (j1, peak, e1)"
    and p: "poll fair (fl (st_t_poll inp + 30)) ((now_poll, e1) # obs_poll) = Some (fj, e2)"
    and r: "self_test_result inp n idem peak (case get_job e2 (job_id j1) of None \<Rightarrow> j1 | Some c \<Rightarrow> c) fj e2 = Inr rep"
    using fin j3 by (auto simp: self_test_finish_def split: option.splits)
  have "\<forall>(t, e') \<in> set obs. lim_in_use (eng_limiter e') \<le> global_max_concurrency s \<and>
      (\<exists>j'. get_job e' jid = Some j' \<and> job_id j' = jid)"
    using reach reachable_in_use [OF _ assms(1)] later j3(2) by (fastforce simp: job_evolves_def)
  moreover have "0 \<le> global_max_concurrency s" using assms(1) by (simp add: gate_settings_ok_def)
  ultimately have wr: "peak \<le> global_max_concurrency s" "get_job e1 jid = Some j1" "job_id j1 = jid" "e1 \<in> snd ` set obs"
    "(\<forall>(t, e') \<in> set obs. t \<le> fl (st_t_watch inp + 60)) \<longrightarrow> \<not> unfinished j1"
    using watch_result [OF w _ j3(2)] by blast+
  have "e2 = e1 \<or> e2 \<in> snd ` set obs_poll" using poll_engine [OF p] by auto
  then have evo: "store_evolves (eng_store e1) (eng_store e2)" and in2: "e2 \<in> snd ` (set obs \<union> set obs_poll)"
    using srt wr(4) by (auto simp: sorted_wrt_append)
  obtain j2 where j2: "get_job e2 jid = Some j2" "job_evolves j3 j2" using later [OF in2] by blast
  have "job_evolves j1 j2" using evolved_job [OF evo wr(2)] j2(1) by (metis option.inject)
  moreover have "rep_checks rep = self_test_evaluate inp n idem peak j2 fj e2"
    using r j2(1) wr(3) by (auto simp: self_test_result_def Let_def split: if_splits)
  ultimately show thesis using that wr(1,2,4,5) in2 j2 by blast
qed

text \<open>
  C23. The self-test cannot cry wolf about the engine's invariants: run on any reachable engine with a new run
  id, whatever the engine does meanwhile, its report always has the idempotency and the concurrency
  check green, and its two aggregation checks agree; when the polling is not cut off by its deadline and
  the job is not cancelled, both are green. So a failed report can only come from the acknowledgement
  time, a deadline, a cancellation, prompts still queued, or failures in the second job.
\<close>

theorem self_test_checks_sound:
  assumes "reachable sha256 s e G" "gate_settings_ok s" "fresh_id (st_uid inp) e" "fresh_id (st_uid_fair inp) e"
    "st_uid inp \<noteq> st_uid_fair inp" "find_by_idempotency_key (eng_store e) (''self-test-'' @ st_run_id inp) = None"
    "self_test_submit sha256 inp n e = (Inr (jid, idem, fair), e3)"
    "observed sha256 (e, G) (e3 # map snd obs @ map snd obs_poll)"
    "self_test_finish inp n (jid, idem, fair) e3 obs now_poll obs_poll = Some (Inr rep)"
  shows "let c = rep_checks rep in
    chk_idempotency_roundtrip c \<and> chk_concurrency_cap_respected c \<and>
    (chk_all_prompts_aggregated c \<longleftrightarrow> chk_no_prompts_dropped c) \<and>
    ((\<forall>(t, e') \<in> set obs. t \<le> fl (st_t_watch inp + 60) \<and> (\<forall>j. get_job e' jid = Some j \<longrightarrow> state j \<noteq> CANCELLED)) \<longrightarrow>
       chk_all_prompts_aggregated c)"
proof -
  have idem: idem and "\<exists>j. get_job e3 jid = Some j \<and> job_id j = jid \<and> total j = int n"
    using self_test_submit_effect [OF assms(1-7)] by blast+
  then obtain j3 where j3: "get_job e3 jid = Some j3" "job_id j3 = jid" "total j3 = int n" by blast
  have srt: "sorted_wrt (\<lambda>a b. store_evolves (eng_store a) (eng_store b)) (e3 # map snd obs @ map snd obs_poll)"
    and reach: "\<And>e'. e' \<in> snd ` (set obs \<union> set obs_poll) \<Longrightarrow> \<exists>G'. reachable sha256 s e' G'"
    using observed_states [OF assms(1,2,8)] by (auto simp: image_Un)
  from self_test_finish_effect [OF assms(2) j3(1,2) srt reach assms(9)]
  obtain peak e1 j1 e2 j2 fj where fx: "peak \<le> global_max_concurrency s" "e1 \<in> snd ` set obs" "get_job e1 jid = Some j1"
    "(\<forall>(t, e') \<in> set obs. t \<le> fl (st_t_watch inp + 60)) \<longrightarrow> \<not> unfinished j1"
    "e2 \<in> snd ` (set obs \<union> set obs_poll)" "get_job e2 jid = Some j2" "job_evolves j1 j2" "job_evolves j3 j2"
    "rep_checks rep = self_test_evaluate inp n idem peak j2 fj e2" .
  obtain G1 G2 where rc: "reachable sha256 s e1 G1" "reachable sha256 s e2 G2" using reach fx(2,5) by blast
  obtain its1 where inv1: "job_inv its1 j1" using reachable_job [OF rc(1) assms(2) fx(3)] by blast
  obtain its2 where inv2: "job_inv its2 j2" using reachable_job [OF rc(2) assms(2) fx(6)] by blast
  have full: "completed j2 = int n" if "\<not> unfinished j1" "state j1 \<noteq> CANCELLED"
  proof -
    have "state j1 = COMPLETED" using inv1 that by (auto simp: job_inv_def unfinished_def)
    then have "state j2 = COMPLETED" using fx(7) by (simp add: job_evolves_def terminal_def)
    then show ?thesis using inv2 fx(8) j3(3) by (simp add: job_inv_def job_evolves_def)
  qed
  show ?thesis
    using fx(1-4,9) reachable_settings [OF rc(2)] job_inv_counts [OF inv2] full idem
    by (auto simp: self_test_evaluate_def Let_def)
qed

text \<open>A run with one prompt: the worker answers it, the second job is still queued at the deadline of its poll.\<close>

definition selftest_settings :: settings where
  "selftest_settings = example_settings\<lparr>max_active_jobs := 2\<rparr>"

definition selftest_inputs :: self_test_inputs where
  "selftest_inputs = \<lparr>st_run_id = ''r'', st_uid = ''job-1'', st_uid_dup = ''job-2'', st_uid_fair = ''job-3'',
     st_clk = tick 0, st_clk_dup = tick 0, st_clk_fair = tick 0, st_t0 = 0, st_t_ack = 0, st_t_watch = 0,
     st_t_end = 1, st_t_poll = 1\<rparr>"

definition selftest_events :: "(clock \<times> engine_event) list" where
  "selftest_events =
     [(tick 0, Submit ''job-1'' (make_prompts ''st'' 1) LOW (Some ''self-test-r'')),
      (tick 0, Submit ''job-2'' (make_prompts ''st'' 1) LOW (Some ''self-test-r'')),
      (tick 0, Submit ''job-3'' (make_prompts ''fair'' 5) NORMAL (Some ''self-test-fair-r''))]"

definition selftest_work :: "(clock \<times> engine_event) list" where
  "selftest_work = [(tick 0, RunWorker 0), (tick 1, ProviderReply 0 (Inr ''ok'') 0)]"

lemma selftest_submitted:
  "map_option (\<lambda>(e, G). (self_test_submit id selftest_inputs 1 (new_engine selftest_settings new_metrics) = (Inr (''job-1'', True, ''job-3''), e)))
     (run_events id selftest_events (new_engine selftest_settings new_metrics, \<lambda>_. None)) = Some True"
  by (simp add: engine_exec selftest_events_def selftest_inputs_def selftest_settings_def self_test_submit_def make_prompts_def PROMPTS_def)

lemma selftest_finished:
  "map_option (\<lambda>(e, G). (map_option (\<lambda>j. (state j, job_id j)) (get_job e ''job-1''), get_job e ''job-3'' \<noteq> None))
     (run_events id (selftest_events @ selftest_work) (new_engine selftest_settings new_metrics, \<lambda>_. None)) =
   Some (Some (COMPLETED, ''job-1''), True)"
  by (simp add: engine_exec selftest_events_def selftest_work_def selftest_settings_def make_prompts_def PROMPTS_def)

lemma selftest_floats: "fl 1 = 1" "fl 31 = 31" "fl 60 = 60"
  by code_simp+

theorem self_test_checks_sound_witness:
  "\<exists>e3 G3 e4 G4 rep. run_events id selftest_events (new_engine selftest_settings new_metrics, \<lambda>_. None) = Some (e3, G3) \<and>
     run_events id selftest_work (e3, G3) = Some (e4, G4) \<and>
     self_test_finish selftest_inputs 1 (''job-1'', True, ''job-3'') e3 [(1, e4)] 100 [] = Some (Inr rep) \<and>
     chk_all_prompts_aggregated (rep_checks rep) \<and> chk_no_prompts_dropped (rep_checks rep)"
proof -
  let ?e = "new_engine selftest_settings new_metrics"
  obtain e4 G4 j f where fin: "run_events id (selftest_events @ selftest_work) (?e, \<lambda>_. None) = Some (e4, G4)"
    and j: "get_job e4 ''job-1'' = Some j" "state j = COMPLETED" "job_id j = ''job-1''" and f: "get_job e4 ''job-3'' = Some f"
    using selftest_finished by (auto simp: map_option_eq_Some)
  obtain e3 G3 where run: "run_events id selftest_events (?e, \<lambda>_. None) = Some (e3, G3)" "run_events id selftest_work (e3, G3) = Some (e4, G4)"
    using run_events_split [OF fin] .
  have sub: "self_test_submit id selftest_inputs 1 ?e = (Inr (''job-1'', True, ''job-3''), e3)"
    using selftest_submitted run(1) by simp
  have s: "gate_settings_ok selftest_settings"
    by (simp add: selftest_settings_def example_settings_def gate_settings_ok_def)
  have new: "fresh_id (st_uid selftest_inputs) ?e" "fresh_id (st_uid_fair selftest_inputs) ?e"
    "st_uid selftest_inputs \<noteq> st_uid_fair selftest_inputs"
    "find_by_idempotency_key (eng_store ?e) (''self-test-'' @ st_run_id selftest_inputs) = None"
    by (simp_all add: engine_exec selftest_inputs_def)
  obtain j3 where j3: "get_job e3 ''job-1'' = Some j3" "job_id j3 = ''job-1''"
    using self_test_submit_effect [OF reachable.start s new sub] by blast
  obtain rep where rep: "self_test_finish selftest_inputs 1 (''job-1'', True, ''job-3'') e3 [(1, e4)] 100 [] = Some (Inr rep)"
    using j j3 f by (simp add: self_test_finish_def selftest_inputs_def selftest_floats unfinished_def self_test_result_def Let_def)
  have obs: "observed id (?e, \<lambda>_. None) (e3 # map snd [(1, e4)] @ map snd ([] :: (pyfloat \<times> engine) list))"
    using run by (auto intro!: observed.intros)
  from self_test_checks_sound [OF reachable.start s new sub obs rep] j
  have "chk_all_prompts_aggregated (rep_checks rep)" "chk_no_prompts_dropped (rep_checks rep)"
    by (auto simp: Let_def selftest_inputs_def selftest_floats)
  with run rep show ?thesis by blast
qed

end
