(* ===== verification/Timestamp.thy ===== *)
theory Timestamp
  imports PyFloat
begin

text \<open>
  The time stamp of a log line: \<^verbatim>\<open>time.gmtime\<close> (the proleptic Gregorian calendar from 1970 on, counted
  year by year and month by month), \<^verbatim>\<open>time.strftime\<close> with the format the formatter uses, and the order
  of the resulting strings. Fields of fixed width compare as strings the way the numbers do, so log lines
  sorted by their time stamp are sorted by time.
\<close>

subsection \<open>The calendar\<close>

record tm =
  tm_year :: nat
  tm_mon :: nat
  tm_mday :: nat
  tm_hour :: nat
  tm_min :: nat
  tm_sec :: nat

definition leap_year :: "nat \<Rightarrow> bool" where
  "leap_year y \<longleftrightarrow> 4 dvd y \<and> (100 dvd y \<longrightarrow> 400 dvd y)"

definition year_days :: "nat \<Rightarrow> nat" where
  "year_days y = (if leap_year y then 366 else 365)"

definition month_days :: "nat \<Rightarrow> nat list" where
  "month_days y = [31, if leap_year y then 29 else 28, 31, 30, 31, 30, 31, 31, 30, 31, 30, 31]"

lemma year_days_pos [simp]: "0 < year_days y"
  by (simp add: year_days_def)

text \<open>The year a number of days after the start of year \<open>y\<close> falls in, and the day of that year.\<close>

function find_year :: "nat \<Rightarrow> nat \<Rightarrow> nat \<times> nat" where
  "find_year y d = (if d < year_days y then (y, d) else find_year (y + 1) (d - year_days y))"
  by auto
termination
proof (relation "measure snd")
  fix y d assume "\<not> d < year_days y"
  then show "((y + 1, d - year_days y), (y, d)) \<in> measure snd"
    using year_days_pos [of y] by (simp del: year_days_pos)
qed simp

declare find_year.simps [simp del]

fun find_month :: "nat list \<Rightarrow> nat \<Rightarrow> nat \<Rightarrow> nat \<times> nat" where
  "find_month [] m d = (m, d)"
| "find_month (l # ls) m d = (if d < l then (m, d) else find_month ls (m + 1) (d - l))"

text \<open>\<^verbatim>\<open>gmtime\<close> drops the fraction of a second.\<close>

definition gmtime :: "pyfloat \<Rightarrow> tm" where
  "gmtime x =
     (let t = nat \<lfloor>x\<rfloor>; (y, yd) = find_year 1970 (t div 86400); (mo, md) = find_month (month_days y) 1 yd;
          s = t mod 86400 in
      \<lparr>tm_year = y, tm_mon = mo, tm_mday = md + 1, tm_hour = s div 3600, tm_min = s div 60 mod 60, tm_sec = s mod 60\<rparr>)"

subsection \<open>The text\<close>

text \<open>An integer padded with zeros to a width.\<close>

definition zero_pad :: "nat \<Rightarrow> nat \<Rightarrow> string" where
  "zero_pad w n = (let ds = show_nat n in replicate (w - length ds) (CHR ''0'') @ ds)"

definition strftime_utc :: "tm \<Rightarrow> string" where
  "strftime_utc t =
     zero_pad 4 (tm_year t) @ ''-'' @ zero_pad 2 (tm_mon t) @ ''-'' @ zero_pad 2 (tm_mday t) @ ''T'' @
     zero_pad 2 (tm_hour t) @ '':'' @ zero_pad 2 (tm_min t) @ '':'' @ zero_pad 2 (tm_sec t)"

definition timestamp :: "pyfloat \<Rightarrow> pyfloat \<Rightarrow> string" where
  "timestamp created msecs = strftime_utc (gmtime created) @ ''.'' @ zero_pad 3 (nat \<lfloor>msecs\<rfloor>) @ ''Z''"

subsection \<open>Lexicographic order\<close>

fun lex_less :: "('a \<Rightarrow> nat) \<Rightarrow> 'a list \<Rightarrow> 'a list \<Rightarrow> bool" where
  "lex_less f [] [] \<longleftrightarrow> False"
| "lex_less f [] (b # t) \<longleftrightarrow> True"
| "lex_less f (a # s) [] \<longleftrightarrow> False"
| "lex_less f (a # s) (b # t) \<longleftrightarrow> f a < f b \<or> f a = f b \<and> lex_less f s t"

text \<open>The order of Python strings.\<close>

abbreviation str_less :: "string \<Rightarrow> string \<Rightarrow> bool" where
  "str_less \<equiv> lex_less of_char"

abbreviation nats_less :: "nat list \<Rightarrow> nat list \<Rightarrow> bool" where
  "nats_less \<equiv> lex_less (\<lambda>n. n)"

lemma lex_less_irrefl [simp]: "\<not> lex_less f s s"
  by (induction s) auto

lemma lex_less_asym: "lex_less f s t \<Longrightarrow> \<not> lex_less f t s"
  by (induction f s t rule: lex_less.induct) auto

lemma lex_less_append:
  assumes "inj f" "length a = length b"
  shows "lex_less f (a @ s) (b @ t) \<longleftrightarrow> lex_less f a b \<or> a = b \<and> lex_less f s t"
  using assms(2) by (induction a b rule: list_induct2) (auto dest: injD [OF assms(1)])

lemmas str_less_append = lex_less_append [where f = of_char, OF inj_of_char]

text \<open>A map that is strictly monotone into a lexicographic order reflects it as well.\<close>

lemma lex_less_key:
  fixes key :: "'b :: linorder \<Rightarrow> 'a list"
  assumes "\<And>x y. x < y \<Longrightarrow> lex_less f (key x) (key y)"
  shows "lex_less f (key x) (key y) \<longleftrightarrow> x < y"
  using assms [of x y] assms [of y x] lex_less_asym [of f "key y" "key x"]
  by (cases x y rule: linorder_cases) auto

subsection \<open>Numerals of fixed width\<close>

fun digits :: "nat \<Rightarrow> nat \<Rightarrow> string" where
  "digits 0 n = []"
| "digits (Suc w) n = digits w (n div 10) @ [digit_char (n mod 10)]"

lemma length_digits [simp]: "length (digits w n) = w"
  by (induction w arbitrary: n) auto

lemma digits_0: "digits w 0 = replicate w (CHR ''0'')"
proof -
  have "digit_char 0 = CHR ''0''" by code_simp
  then show ?thesis by (induction w) (simp_all add: replicate_append_same)
qed

lemma show_nat_length: "n < 10 ^ w \<Longrightarrow> 0 < w \<Longrightarrow> length (show_nat n) \<le> w"
proof (induction n arbitrary: w rule: show_nat.induct)
  case (1 n)
  obtain v where v: "w = Suc v" using 1(3) by (cases w) auto
  show ?case
  proof (cases "n < 10")
    case False
    with 1(2) v have "0 < v" by (cases v) auto
    moreover have "n div 10 < 10 ^ v" using 1(2) v by (simp add: less_mult_imp_div_less)
    ultimately have "length (show_nat (n div 10)) \<le> v" using 1(1) False by blast
    with False v show ?thesis by (simp add: show_nat.simps [of n])
  qed (use v in \<open>simp add: show_nat.simps [of n]\<close>)
qed

lemma digits_show: "n < 10 ^ w \<Longrightarrow> 0 < w \<Longrightarrow> digits w n = replicate (w - length (show_nat n)) (CHR ''0'') @ show_nat n"
proof (induction n arbitrary: w rule: show_nat.induct)
  case (1 n)
  obtain v where v: "w = Suc v" using 1(3) by (cases w) auto
  show ?case
  proof (cases "n < 10")
    case True
    with v show ?thesis by (simp add: show_nat.simps [of n] digits_0)
  next
    case False
    with 1(2) v have "0 < v" by (cases v) auto
    moreover have "n div 10 < 10 ^ v" using 1(2) v by (simp add: less_mult_imp_div_less)
    ultimately show ?thesis using 1(1) [of v] False v by (simp add: show_nat.simps [of n])
  qed
qed

lemma zero_pad_digits: "n < 10 ^ w \<Longrightarrow> 0 < w \<Longrightarrow> zero_pad w n = digits w n"
  by (simp add: zero_pad_def digits_show Let_def)

lemma digit_char_less: "a < 10 \<Longrightarrow> b < 10 \<Longrightarrow> (of_char (digit_char a) :: nat) < of_char (digit_char b) \<longleftrightarrow> a < b"
  by (simp add: digit_char_def)

lemma div_mod_less: "m < n \<longleftrightarrow> m div k < n div k \<or> m div k = n div k \<and> m mod k < n mod (k :: nat)"
proof (cases "m div k" "n div k" rule: linorder_cases)
  case less
  then show ?thesis using div_le_mono [of n m k] by linarith
next
  case equal
  then show ?thesis using div_mult_mod_eq [of m k] div_mult_mod_eq [of n k] by (metis nat_add_left_cancel_less less_irrefl)
next
  case greater
  then show ?thesis using div_le_mono [of m n k] by linarith
qed

lemma div_mod_eq: "m = n \<longleftrightarrow> m div k = n div k \<and> m mod k = n mod (k :: nat)"
  by (metis div_mult_mod_eq)

lemma digit_char_inject: "a < 10 \<Longrightarrow> b < 10 \<Longrightarrow> digit_char a = digit_char b \<longleftrightarrow> a = b"
  by (metis digit_value_char)

lemma digits_inject: "m < 10 ^ w \<Longrightarrow> n < 10 ^ w \<Longrightarrow> digits w m = digits w n \<longleftrightarrow> m = n"
proof (induction w arbitrary: m n)
  case (Suc w)
  then have "digits w (m div 10) = digits w (n div 10) \<longleftrightarrow> m div 10 = n div 10"
    by (simp add: less_mult_imp_div_less)
  then show ?case by (simp add: digit_char_inject div_mod_eq [of m n 10])
qed simp

lemma digits_less: "m < 10 ^ w \<Longrightarrow> n < 10 ^ w \<Longrightarrow> str_less (digits w m) (digits w n) \<longleftrightarrow> m < n"
proof (induction w arbitrary: m n)
  case (Suc w)
  have bounds: "m div 10 < 10 ^ w" "n div 10 < 10 ^ w"
    using Suc.prems by (simp_all add: less_mult_imp_div_less)
  with Suc.IH [OF bounds] digits_inject [OF bounds] show ?case
    by (simp add: str_less_append digit_char_less div_mod_less [of m n 10])
qed simp

lemma zero_pad_append_less:
  assumes "m < 10 ^ w" "n < 10 ^ w" "0 < w"
  shows "str_less (zero_pad w m @ s) (zero_pad w n @ t) \<longleftrightarrow> m < n \<or> m = n \<and> str_less s t"
  using assms by (simp add: zero_pad_digits str_less_append digits_less digits_inject)

subsection \<open>The calendar is monotone\<close>

lemma find_year_ge: "y \<le> fst (find_year y d)"
  by (induction y d rule: find_year.induct) (subst find_year.simps, fastforce)

lemma find_year_bound: "snd (find_year y d) < year_days (fst (find_year y d))"
  by (induction y d rule: find_year.induct) (subst (1 2) find_year.simps, simp)

lemma find_year_mono: "d < d' \<Longrightarrow> nats_less [fst (find_year y d), snd (find_year y d)] [fst (find_year y d'), snd (find_year y d')]"
proof (induction y d arbitrary: d' rule: find_year.induct)
  case (1 y d)
  show ?case
  proof (cases "d < year_days y")
    case True
    then show ?thesis
      using 1(2) find_year_ge [of "y + 1" "d' - year_days y"]
      by (simp add: find_year.simps [of y d] find_year.simps [of y d'])
  next
    case False
    then show ?thesis
      using 1(1) [OF False, of "d' - year_days y"] 1(2)
      by (simp add: find_year.simps [of y d] find_year.simps [of y d'])
  qed
qed

lemma find_month_ge: "m \<le> fst (find_month ls m d)"
  by (induction ls m d rule: find_month.induct) auto

lemma find_month_bound:
  "d < sum_list ls \<Longrightarrow> fst (find_month ls m d) < m + length ls \<and> (\<exists>l \<in> set ls. snd (find_month ls m d) < l)"
  by (induction ls m d rule: find_month.induct) fastforce+

lemma find_month_mono:
  "d < d' \<Longrightarrow> nats_less [fst (find_month ls m d), snd (find_month ls m d)] [fst (find_month ls m d'), snd (find_month ls m d')]"
proof (induction ls m d arbitrary: d' rule: find_month.induct)
  case (2 l ls m d)
  then show ?case
    using find_month_ge [of "m + 1" ls "d' - l"] by (cases "d < l") auto
qed simp

lemma sum_month_days: "sum_list (month_days y) = year_days y"
  by (simp add: month_days_def year_days_def)

text \<open>The fields of a time, most significant first.\<close>

definition tm_fields :: "tm \<Rightarrow> nat list" where
  "tm_fields t = [tm_year t, tm_mon t, tm_mday t, tm_hour t, tm_min t, tm_sec t]"

definition date_fields :: "nat \<Rightarrow> nat list" where
  "date_fields d =
     (let (y, yd) = find_year 1970 d; (mo, md) = find_month (month_days y) 1 yd in [y, mo, md + 1])"

definition clock_fields :: "nat \<Rightarrow> nat list" where
  "clock_fields s = [s div 3600, s div 60 mod 60, s mod 60]"

lemma gmtime_fields: "tm_fields (gmtime x) = date_fields (nat \<lfloor>x\<rfloor> div 86400) @ clock_fields (nat \<lfloor>x\<rfloor> mod 86400)"
  by (simp add: tm_fields_def gmtime_def date_fields_def clock_fields_def Let_def split: prod.split)

lemma date_fields_mono: "d < d' \<Longrightarrow> nats_less (date_fields d) (date_fields d')"
proof -
  assume "d < d'"
  obtain y yd y' yd' where f: "find_year 1970 d = (y, yd)" "find_year 1970 d' = (y', yd')" by (metis surj_pair)
  with find_year_mono [OF \<open>d < d'\<close>, of 1970] have "y < y' \<or> y = y' \<and> yd < yd'" by auto
  with f find_month_mono [of yd yd' "month_days y" 1] show ?thesis
    by (auto simp: date_fields_def split: prod.splits)
qed

lemma clock_fields_mono: "s < s' \<Longrightarrow> nats_less (clock_fields s) (clock_fields s')"
proof -
  assume "s < s'"
  then have "s div 60 < s' div 60 \<or> s div 60 = s' div 60 \<and> s mod 60 < s' mod 60"
    using div_mod_less [of s s' 60] by simp
  moreover have "s div 60 < s' div 60 \<longleftrightarrow>
      s div 3600 < s' div 3600 \<or> s div 3600 = s' div 3600 \<and> s div 60 mod 60 < s' div 60 mod 60"
    using div_mod_less [of "s div 60" "s' div 60" 60] by (simp add: div_mult2_eq [of _ 60 60, simplified])
  ultimately show ?thesis
    by (auto simp: clock_fields_def div_mult2_eq [of _ 60 60, simplified])
qed

lemma fields_mono:
  fixes t t' :: nat
  assumes "t < t'"
  shows "nats_less (date_fields (t div 86400) @ clock_fields (t mod 86400))
    (date_fields (t' div 86400) @ clock_fields (t' mod 86400))"
proof -
  have "length (date_fields d) = length (date_fields d')" for d d'
    by (simp add: date_fields_def split: prod.split)
  moreover have "inj (\<lambda>n :: nat. n)" by simp
  ultimately show ?thesis
    using assms date_fields_mono clock_fields_mono
    by (auto simp: lex_less_append div_mod_less [of t t' 86400])
qed

lemma nat_floor_less: "0 \<le> x \<Longrightarrow> 0 \<le> (y :: pyfloat) \<Longrightarrow> nat \<lfloor>x\<rfloor> < nat \<lfloor>y\<rfloor> \<longleftrightarrow> \<lfloor>x\<rfloor> < \<lfloor>y\<rfloor>"
  by (rule nat_less_eq_zless) simp

lemma gmtime_order:
  assumes "0 \<le> x" "0 \<le> y"
  shows "nats_less (tm_fields (gmtime x)) (tm_fields (gmtime y)) \<longleftrightarrow> \<lfloor>x\<rfloor> < \<lfloor>y\<rfloor>"
  using lex_less_key [where key = "\<lambda>t. date_fields (t div 86400) @ clock_fields (t mod 86400)", OF fields_mono,
      of "nat \<lfloor>x\<rfloor>" "nat \<lfloor>y\<rfloor>"] nat_floor_less [OF assms]
  by (simp add: gmtime_fields del: zless_nat_conj)

lemma gmtime_bounds:
  "tm_mon (gmtime x) < 100" "tm_mday (gmtime x) < 100" "tm_hour (gmtime x) < 100" "tm_min (gmtime x) < 100"
  "tm_sec (gmtime x) < 100"
proof -
  let ?t = "nat \<lfloor>x\<rfloor>"
  obtain y yd where f: "find_year 1970 (?t div 86400) = (y, yd)" by (metis surj_pair)
  then have "yd < sum_list (month_days y)"
    using find_year_bound [of 1970 "?t div 86400"] by (simp add: sum_month_days)
  then have "fst (find_month (month_days y) 1 yd) < 13" "snd (find_month (month_days y) 1 yd) < 31"
    using find_month_bound [of yd "month_days y" 1] by (auto simp: month_days_def split: if_splits)
  with f show "tm_mon (gmtime x) < 100" "tm_mday (gmtime x) < 100"
    by (auto simp: gmtime_def Let_def split: prod.split)
  have "?t mod 86400 div 3600 < 24" by (simp add: less_mult_imp_div_less)
  with f show "tm_hour (gmtime x) < 100" by (simp add: gmtime_def Let_def split: prod.split)
  have "?t mod 86400 div 60 mod 60 < 60" "?t mod 86400 mod 60 < 60" by simp_all
  with f show "tm_min (gmtime x) < 100" "tm_sec (gmtime x) < 100"
    by (simp_all add: gmtime_def Let_def split: prod.split)
qed

lemma strftime_less:
  assumes "tm_year (gmtime x) < 10000" "tm_year (gmtime y) < 10000"
  shows "str_less (strftime_utc (gmtime x) @ s) (strftime_utc (gmtime y) @ t) \<longleftrightarrow>
    nats_less (tm_fields (gmtime x)) (tm_fields (gmtime y)) \<or>
    tm_fields (gmtime x) = tm_fields (gmtime y) \<and> str_less s t"
  using assms gmtime_bounds [of x] gmtime_bounds [of y]
  by (auto simp: strftime_utc_def zero_pad_append_less tm_fields_def)

lemma timestamp_order:
  assumes "0 \<le> x" "0 \<le> y" "tm_year (gmtime x) < 10000" "tm_year (gmtime y) < 10000"
    and "0 \<le> mx" "mx < 1000" "0 \<le> my" "my < 1000"
  shows "str_less (timestamp x mx) (timestamp y my) \<longleftrightarrow> \<lfloor>x\<rfloor> < \<lfloor>y\<rfloor> \<or> \<lfloor>x\<rfloor> = \<lfloor>y\<rfloor> \<and> \<lfloor>mx\<rfloor> < \<lfloor>my\<rfloor>"
proof -
  have "nat \<lfloor>mx\<rfloor> < 10 ^ 3" "nat \<lfloor>my\<rfloor> < 10 ^ 3"
    using assms by (simp_all add: nat_less_iff floor_less_iff)
  then have ms: "str_less (zero_pad 3 (nat \<lfloor>mx\<rfloor>) @ ''Z'') (zero_pad 3 (nat \<lfloor>my\<rfloor>) @ ''Z'') \<longleftrightarrow> \<lfloor>mx\<rfloor> < \<lfloor>my\<rfloor>"
    using nat_floor_less [OF assms(5,7)] by (simp add: zero_pad_append_less del: zless_nat_conj)
  have "tm_fields (gmtime x) = tm_fields (gmtime y) \<longleftrightarrow> \<lfloor>x\<rfloor> = \<lfloor>y\<rfloor>"
    using gmtime_order [OF assms(1,2)] gmtime_order [OF assms(2,1)]
    by (metis gmtime_fields lex_less_irrefl linorder_less_linear)
  with ms gmtime_order [OF assms(1,2)] show ?thesis
    by (simp add: timestamp_def strftime_less [OF assms(3,4)])
qed

end
