(* ===== verification/Logging.thy ===== *)
theory Logging
  imports Timestamp Json Models
begin

text \<open>
  Structured logging (\<^verbatim>\<open>logging_config.py\<close>): the request-id filter, the JSON formatter, the installation of the
  handler on the root logger, and the log calls of the program with their extra fields. A log record is what
  Python's \<^verbatim>\<open>logging\<close> hands to the handler: the rendered message, the formatted traceback when there is one, and
  its attribute dictionary, in which the standard attributes come first and the extra fields follow.
\<close>

subsection \<open>Records\<close>

text \<open>An attribute is a value JSON can encode, or an object of which \<^verbatim>\<open>default=str\<close> writes the string.\<close>

datatype log_value = Encodable json | Opaque string

primrec encoded :: "log_value \<Rightarrow> json" where
  "encoded (Encodable v) = v"
| "encoded (Opaque s) = JStr s"

record log_record =
  rec_name :: string
  rec_levelname :: string
  rec_levelno :: int
  rec_created :: pyfloat
  rec_msecs :: pyfloat
  rec_message :: string
  rec_attrs :: "(string, log_value) dict"
  rec_exc :: "string option"

text \<open>\<^verbatim>\<open>vars(logging.makeLogRecord({})).keys()\<close>.\<close>

definition standard_attributes :: "string list" where
  "standard_attributes =
     [''name'', ''msg'', ''args'', ''levelname'', ''levelno'', ''pathname'', ''filename'', ''module'', ''exc_info'',
      ''exc_text'', ''stack_info'', ''lineno'', ''funcName'', ''created'', ''msecs'', ''relativeCreated'', ''thread'',
      ''threadName'', ''processName'', ''process'', ''taskName'']"

definition RESERVED :: "string list" where
  "RESERVED = standard_attributes @ [''message'', ''asctime'', ''taskName'']"

text \<open>
  How \<^verbatim>\<open>Logger.makeRecord\<close> merges the extra fields: a \<^verbatim>\<open>KeyError\<close> (with the key) for a field that is an attribute
  already or is called \<^verbatim>\<open>message\<close> or \<^verbatim>\<open>asctime\<close>.
\<close>

definition merge_extra :: "(string, json) dict \<Rightarrow> log_record \<Rightarrow> string + log_record" where
  "merge_extra extra r =
     (case find (\<lambda>k. k \<in> {''message'', ''asctime''} \<or> k \<in> set (dict_keys (rec_attrs r))) (dict_keys extra) of
        Some k \<Rightarrow> Inl k
      | None \<Rightarrow> Inr (r\<lparr>rec_attrs := rec_attrs r @ map (map_prod id Encodable) extra\<rparr>))"

subsection \<open>Filter and formatter\<close>

text \<open>\<open>rid\<close> is the value of \<^verbatim>\<open>request_id_var\<close> in the current context. The filter lets every record pass.\<close>

definition request_id_filter :: "string option \<Rightarrow> log_record \<Rightarrow> log_record" where
  "request_id_filter rid r =
     (case rid of
        None \<Rightarrow> r
      | Some i \<Rightarrow> r\<lparr>rec_attrs := dict_set ''request_id'' (Encodable (JStr i)) (rec_attrs r)\<rparr>)"

definition log_header :: "log_record \<Rightarrow> (string, json) dict" where
  "log_header r =
     [(''ts'', JStr (timestamp (rec_created r) (rec_msecs r))), (''level'', JStr (rec_levelname r)),
      (''logger'', JStr (rec_name r)), (''msg'', JStr (rec_message r))]"

definition is_extra :: "string \<Rightarrow> bool" where
  "is_extra k \<longleftrightarrow> k \<notin> set RESERVED \<and> take 1 k \<noteq> ''_''"

text \<open>Assigning the fields that pass a test, one after the other.\<close>

definition merge_fields :: "('k \<Rightarrow> bool) \<Rightarrow> ('v \<Rightarrow> 'w) \<Rightarrow> ('k, 'v) dict \<Rightarrow> ('k, 'w) dict \<Rightarrow> ('k, 'w) dict" where
  "merge_fields P f d p = foldl (\<lambda>p (k, v). if P k then dict_set k (f v) p else p) p d"

definition log_payload :: "log_record \<Rightarrow> (string, json) dict" where
  "log_payload r =
     (let p = merge_fields is_extra encoded (rec_attrs r) (log_header r) in
      case rec_exc r of None \<Rightarrow> p | Some t \<Rightarrow> dict_set ''exc_info'' (JStr t) p)"

definition json_format :: "log_record \<Rightarrow> string" where
  "json_format r = json_dumps (JObj (log_payload r))"

text \<open>What the stream handler writes for a record: the formatted record and a newline.\<close>

definition json_handler :: "string option \<Rightarrow> log_record \<Rightarrow> string" where
  "json_handler rid r = json_format (request_id_filter rid r) @ [CHR 10]"

subsection \<open>The root logger\<close>

record root_logger =
  root_handlers :: "(string option \<Rightarrow> log_record \<Rightarrow> string) list"
  root_level :: int

datatype level_error = UnknownLevel string

definition level_number :: "string \<Rightarrow> int option" where
  "level_number l =
     map_of [(''CRITICAL'', 50), (''FATAL'', 50), (''ERROR'', 40), (''WARN'', 30), (''WARNING'', 30), (''INFO'', 20),
       (''DEBUG'', 10), (''NOTSET'', 0)] l"

text \<open>Upper case of ASCII letters; no level name has others.\<close>

definition upper_char :: "char \<Rightarrow> char" where
  "upper_char c = (let n = of_char c :: nat in if 97 \<le> n \<and> n \<le> 122 then char_of (n - 32) else c)"

definition wanted_level :: "string option \<Rightarrow> environment \<Rightarrow> string" where
  "wanted_level level env =
     map upper_char
       (case level of
          Some (c # cs) \<Rightarrow> c # cs
        | _ \<Rightarrow> (case env ''LOG_LEVEL'' of None \<Rightarrow> ''INFO'' | Some l \<Rightarrow> l))"

text \<open>The handlers are replaced before \<^verbatim>\<open>setLevel\<close> can raise.\<close>

definition setup_logging ::
  "string option \<Rightarrow> environment \<Rightarrow> root_logger \<Rightarrow> (level_error + unit) \<times> root_logger" where
  "setup_logging level env rt =
     (let l = wanted_level level env; rt1 = rt\<lparr>root_handlers := [json_handler]\<rparr> in
      case level_number l of
        None \<Rightarrow> (Inl (UnknownLevel l), rt1)
      | Some n \<Rightarrow> (Inr (), rt1\<lparr>root_level := n\<rparr>))"

text \<open>A record of a named logger goes to every handler of the root logger if its level reaches the root's.\<close>

definition log_output :: "root_logger \<Rightarrow> string option \<Rightarrow> log_record \<Rightarrow> string" where
  "log_output rt rid r =
     (if root_level rt \<le> rec_levelno r then concat (map (\<lambda>h. h rid r) (root_handlers rt)) else [])"

subsection \<open>The log calls of the program\<close>

datatype log_event =
    ServiceStarted string
  | ServiceStopped
  | JobSubmitted job priority
  | JobCancelled string int
  | ReplayedFailed string string int
  | ShutdownComplete int
  | WorkerError string string
  | PromptProcessed job work_item string int pyfloat pyfloat
  | JobFinished job job_state

definition get_logger :: "string option \<Rightarrow> string" where
  "get_logger name = (case name of None \<Rightarrow> ''batch_engine'' | Some n \<Rightarrow> n)"

fun event_logger :: "log_event \<Rightarrow> string" where
  "event_logger (ServiceStarted v) = get_logger (Some ''api'')"
| "event_logger ServiceStopped = get_logger (Some ''api'')"
| "event_logger _ = get_logger None"

fun event_message :: "log_event \<Rightarrow> string" where
  "event_message (ServiceStarted _) = ''service started''"
| "event_message ServiceStopped = ''service stopped''"
| "event_message (JobSubmitted _ _) = ''job submitted''"
| "event_message (JobCancelled _ _) = ''job cancelled''"
| "event_message (ReplayedFailed _ _ _) = ''replayed failed prompts''"
| "event_message (ShutdownComplete _) = ''shutdown complete''"
| "event_message (WorkerError _ _) = ''worker error processing item''"
| "event_message (PromptProcessed _ _ _ _ _ _) = ''prompt processed''"
| "event_message (JobFinished _ _) = ''job finished''"

fun event_extra :: "log_event \<Rightarrow> (string, json) dict" where
  "event_extra (ServiceStarted version) = [(''version'', JStr version)]"
| "event_extra ServiceStopped = []"
| "event_extra (JobSubmitted j prio) =
     [(''job_id'', JStr (job_id j)), (''total'', JNum (PyInt (total j))), (''priority'', JStr (priority_value prio))]"
| "event_extra (JobCancelled jid removed) = [(''job_id'', JStr jid), (''dropped_pending'', JNum (PyInt removed))]"
| "event_extra (ReplayedFailed jid new n) =
     [(''source_job'', JStr jid), (''new_job'', JStr new), (''count'', JNum (PyInt n))]"
| "event_extra (ShutdownComplete interrupted) = [(''interrupted_jobs'', JNum (PyInt interrupted))]"
| "event_extra (WorkerError jid trace) = [(''job_id'', JStr jid)]"
| "event_extra (PromptProcessed j item st n latency cost) =
     [(''job_id'', JStr (job_id j)), (''prompt_id'', JStr (item_id item)), (''status'', JStr st),
      (''attempts'', JNum (PyInt n)), (''latency_ms'', JNum (PyFlt (py_round (fl (latency * 1000)) 2))),
      (''cost_usd'', JNum (PyFlt (py_round cost 8)))]"
| "event_extra (JobFinished j st) =
     [(''job_id'', JStr (job_id j)), (''state'', JStr (job_state_value st)), (''succeeded'', JNum (PyInt (succeeded j))),
      (''failed'', JNum (PyInt (failed j))), (''retries'', JNum (PyInt (retries j))),
      (''cost_usd'', JNum (PyFlt (py_round (cost_usd j) 6)))]"

text \<open>Only the handler of an unexpected exception logs as an error, with the traceback.\<close>

fun event_trace :: "log_event \<Rightarrow> string option" where
  "event_trace (WorkerError jid trace) = Some trace"
| "event_trace _ = None"

definition event_record :: "(string, log_value) dict \<Rightarrow> pyfloat \<Rightarrow> pyfloat \<Rightarrow> log_event \<Rightarrow> log_record" where
  "event_record attrs created msecs ev =
     \<lparr>rec_name = event_logger ev,
      rec_levelname = (if event_trace ev = None then ''INFO'' else ''ERROR''),
      rec_levelno = (if event_trace ev = None then 20 else 40),
      rec_created = created, rec_msecs = msecs, rec_message = event_message ev,
      rec_attrs = attrs, rec_exc = event_trace ev\<rparr>"

definition log_call ::
  "(string, log_value) dict \<Rightarrow> pyfloat \<Rightarrow> pyfloat \<Rightarrow> log_event \<Rightarrow> string + log_record" where
  "log_call attrs created msecs ev = merge_extra (event_extra ev) (event_record attrs created msecs ev)"

subsection \<open>The fields of a line\<close>

lemma merge_fields_simps [simp]:
  "merge_fields P f [] p = p"
  "merge_fields P f ((k, v) # d) p = merge_fields P f d (if P k then dict_set k (f v) p else p)"
  by (simp_all add: merge_fields_def)

lemma merge_fields_append: "merge_fields P f (d @ d') p = merge_fields P f d' (merge_fields P f d p)"
  by (simp add: merge_fields_def)

lemma merge_fields_skip: "(\<And>k. k \<in> set (dict_keys d) \<Longrightarrow> \<not> P k) \<Longrightarrow> merge_fields P f d p = p"
  by (induction d) (auto simp: rev_image_eqI)

lemma merge_fields_ok: "dict_ok p \<Longrightarrow> dict_ok (merge_fields P f d p)"
  by (induction d arbitrary: p) auto

lemma merge_fields_get:
  assumes "dict_ok d"
  shows "dict_get (merge_fields P f d p) k =
    (case dict_get d k of Some v \<Rightarrow> if P k then Some (f v) else dict_get p k | None \<Rightarrow> dict_get p k)"
  using assms
proof (induction d arbitrary: p)
  case (Cons q d)
  obtain k' v where q: "q = (k', v)" by (cases q)
  with Cons.prems have "dict_get d k' = None" "dict_ok d" by (auto simp: dict_get_None_keys)
  with q Cons.IH show ?case by (auto simp: dict_simps split: option.split)
qed simp

lemma merge_fields_values:
  assumes "\<And>q. q \<in> set d \<Longrightarrow> Q (f (snd q))" "\<And>q. q \<in> set p \<Longrightarrow> Q (snd q)"
  shows "q \<in> set (merge_fields P f d p) \<Longrightarrow> Q (snd q)"
  using assms
proof (induction d arbitrary: p)
  case (Cons a d)
  obtain k v where a: "a = (k, v)" by (cases a)
  show ?case
  proof (rule Cons.IH)
    show "q \<in> set (merge_fields P f d (if P k then dict_set k (f v) p else p))" using Cons.prems(1) a by simp
    show "Q (f (snd q'))" if "q' \<in> set d" for q' using Cons.prems(2) that by simp
    show "Q (snd q')" if "q' \<in> set (if P k then dict_set k (f v) p else p)" for q'
      using that Cons.prems(2) [of a] Cons.prems(3) [of q'] a dict_set_mem [of q' k "f v" p] by (auto split: if_splits)
  qed
qed simp

lemma log_header_keys: "dict_keys (log_header r) = [''ts'', ''level'', ''logger'', ''msg'']"
  by (simp add: log_header_def)

lemma log_payload_ok: "dict_ok (log_payload r)"
  by (simp add: log_payload_def Let_def merge_fields_ok log_header_keys split: option.split)

lemma log_payload_wf:
  assumes "\<And>q. q \<in> set (rec_attrs r) \<Longrightarrow> json_wf (encoded (snd q))"
  shows "json_wf (JObj (log_payload r))"
proof -
  have "json_wf (snd q)" if "q \<in> set (merge_fields is_extra encoded (rec_attrs r) (log_header r))" for q
    by (rule merge_fields_values [where Q = json_wf, OF assms _ that]) (auto simp: log_header_def)
  then show ?thesis
    using log_payload_ok [of r] by (auto simp: log_payload_def Let_def split: option.splits dest: dict_set_mem)
qed

lemma request_id_filter_fields [simp]:
  "rec_exc (request_id_filter rid r) = rec_exc r" "log_header (request_id_filter rid r) = log_header r"
  by (simp_all add: request_id_filter_def log_header_def split: option.split)

lemma request_id_filter_ok: "dict_ok (rec_attrs r) \<Longrightarrow> dict_ok (rec_attrs (request_id_filter rid r))"
  by (simp add: request_id_filter_def split: option.split)

lemma request_id_filter_wf:
  assumes "\<And>q. q \<in> set (rec_attrs r) \<Longrightarrow> json_wf (encoded (snd q))"
  shows "q \<in> set (rec_attrs (request_id_filter rid r)) \<Longrightarrow> json_wf (encoded (snd q))"
  using assms [of q] by (auto simp: request_id_filter_def split: option.splits dest!: dict_set_mem)

lemma request_id_extra: "is_extra ''request_id''" "\<not> is_extra ''exc_info''" "\<not> is_extra ''msg''"
  by (simp_all add: is_extra_def RESERVED_def standard_attributes_def)

text \<open>
  The field a line has under a key: the traceback, the request id, an extra field, or a field of the header,
  in this order.
\<close>

definition line_field :: "string option \<Rightarrow> log_record \<Rightarrow> string \<Rightarrow> json option" where
  "line_field rid r k =
     (if k = ''exc_info'' then map_option JStr (rec_exc r)
      else if k = ''request_id'' \<and> rid \<noteq> None then map_option JStr rid
      else if is_extra k \<and> dict_get (rec_attrs r) k \<noteq> None then map_option encoded (dict_get (rec_attrs r) k)
      else dict_get (log_header r) k)"

lemma log_payload_get:
  assumes "dict_ok (rec_attrs r)"
  shows "dict_get (log_payload (request_id_filter rid r)) k = line_field rid r k"
proof -
  have attrs: "dict_get (rec_attrs (request_id_filter rid r)) k =
      (if k = ''request_id'' \<and> rid \<noteq> None then map_option (\<lambda>i. Encodable (JStr i)) rid else dict_get (rec_attrs r) k)"
    by (auto simp: request_id_filter_def dict_simps split: option.split)
  have "dict_get (log_payload (request_id_filter rid r)) k =
      (if k = ''exc_info'' \<and> rec_exc r \<noteq> None then map_option JStr (rec_exc r)
       else dict_get (merge_fields is_extra encoded (rec_attrs (request_id_filter rid r)) (log_header r)) k)"
    by (auto simp: log_payload_def dict_simps Let_def split: option.split)
  also have "\<dots> = line_field rid r k"
    using request_id_extra unfolding merge_fields_get [OF request_id_filter_ok [OF assms]] attrs line_field_def
    by (auto simp: log_header_def split: option.split)
  finally show ?thesis .
qed

subsection \<open>One line per record\<close>

subsection \<open>One line per record\<close>

definition attrs_wf :: "log_record \<Rightarrow> bool" where
  "attrs_wf r \<longleftrightarrow> dict_ok (rec_attrs r) \<and> (\<forall>v \<in> set (dict_values (rec_attrs r)). json_wf (encoded v))"

context json_reader
begin

lemma log_line_read:
  assumes "attrs_wf r"
  shows "json_handler rid r = json_format (request_id_filter rid r) @ [CHR 10]"
    and "list_all printable (json_format (request_id_filter rid r))"
    and "loads (json_format (request_id_filter rid r)) = Inr (JObj (log_payload (request_id_filter rid r)))"
proof -
  have "json_wf (encoded (snd q))" if "q \<in> set (rec_attrs (request_id_filter rid r))" for q
    by (rule request_id_filter_wf [OF _ that]) (use assms in \<open>auto simp: attrs_wf_def\<close>)
  then have "json_wf (JObj (log_payload (request_id_filter rid r)))" by (rule log_payload_wf)
  then show "list_all printable (json_format (request_id_filter rid r))"
    and "loads (json_format (request_id_filter rid r)) = Inr (JObj (log_payload (request_id_filter rid r)))"
    by (simp_all only: json_format_def json_dumps_printable loads_dumps)
qed (simp add: json_handler_def)

end

text \<open>
  C32. Each record becomes exactly one line of the log. Whatever the message, the extra fields, the request id or the
  traceback contain (newlines, quotes, control characters), the handler writes one line of printable ASCII and a
  newline, and reading that line as JSON gives an object with, under every key, the traceback, the request id
  of the current context, the extra field, or the header field, in this order of precedence. So no input can forge
  a second record, and no value is lost.
\<close>

theorem log_record_is_one_line:
  assumes "json_inverse loads" "attrs_wf r"
  shows "\<exists>line d. json_handler rid r = line @ [CHR 10] \<and> list_all printable line \<and>
    loads line = Inr (JObj d) \<and> dict_ok d \<and> (\<forall>k. dict_get d k = line_field rid r k)"
proof -
  have ok: "dict_ok (rec_attrs r)" using assms(2) by (simp add: attrs_wf_def)
  show ?thesis
    by (rule exI, rule exI, intro conjI allI)
      (rule json_reader.log_line_read [OF json_inverse_reader [OF assms(1)] assms(2)] log_payload_ok log_payload_get [OF ok])+
qed

definition hostile_record :: log_record where
  "hostile_record =
     \<lparr>rec_name = ''api'', rec_levelname = ''INFO'', rec_levelno = 20, rec_created = 1700000000, rec_msecs = 7,
      rec_message = ''login'' @ [CHR 10, CHR 34] @ ''}'',
      rec_attrs = [(''name'', Opaque ''api''), (''user'', Encodable (JStr [CHR 10])),
        (''latency_ms'', Encodable (JNum (PyFlt (fl (5 / 2))))), (''_hidden'', Opaque ''x'')],
      rec_exc = None\<rparr>"

theorem log_record_is_one_line_witness:
  "\<exists>line d. json_handler (Some ''r1'') hostile_record = line @ [CHR 10] \<and> list_all printable line \<and>
    json_read line = Inr (JObj d) \<and> dict_ok d \<and> (\<forall>k. dict_get d k = line_field (Some ''r1'') hostile_record k)"
proof -
  have "attrs_wf hostile_record" by (simp add: attrs_wf_def hostile_record_def fl_idem)
  from log_record_is_one_line [OF json_inverse_read this] show ?thesis .
qed

subsection \<open>The log calls, the set-up and the time stamps\<close>

lemma merge_extra_ok:
  assumes "\<And>k. k \<in> set (dict_keys extra) \<Longrightarrow> k \<notin> {''message'', ''asctime''} \<union> set (dict_keys (rec_attrs r))"
  shows "merge_extra extra r = Inr (r\<lparr>rec_attrs := rec_attrs r @ map (map_prod id Encodable) extra\<rparr>)"
proof -
  have "find (\<lambda>k. k \<in> {''message'', ''asctime''} \<or> k \<in> set (dict_keys (rec_attrs r))) (dict_keys extra) = None"
    unfolding find_None_iff using assms by blast
  then show ?thesis by (simp only: merge_extra_def option.case)
qed

lemma merge_fields_fresh:
  assumes "dict_ok (p @ d)" "\<And>k. k \<in> set (dict_keys d) \<Longrightarrow> is_extra k"
  shows "merge_fields is_extra encoded (map (map_prod id Encodable) d) p = p @ d"
  using assms by (induction d arbitrary: p) (auto simp: dict_set_fresh)

text \<open>Fields that collide with no attribute, no header field and no field the filter or the traceback adds.\<close>

definition extra_keys_ok :: "string list \<Rightarrow> bool" where
  "extra_keys_ok ks \<longleftrightarrow>
     distinct (ks @ [''ts'', ''level'', ''logger'', ''msg'', ''request_id'', ''exc_info'']) \<and> list_all is_extra ks"

lemma event_keys_ok: "extra_keys_ok (dict_keys (event_extra ev))"
  by (cases ev) (simp_all add: extra_keys_ok_def is_extra_def RESERVED_def standard_attributes_def)

lemma payload_of_extra:
  assumes ok: "extra_keys_ok (dict_keys extra)" and std: "dict_keys (rec_attrs r) = standard_attributes"
  shows "\<exists>r1. merge_extra extra r = Inr r1 \<and>
    log_payload (request_id_filter rid r1) =
      log_header r @ extra @ (case rid of None \<Rightarrow> [] | Some i \<Rightarrow> [(''request_id'', JStr i)]) @
      (case rec_exc r of None \<Rightarrow> [] | Some t \<Rightarrow> [(''exc_info'', JStr t)])"
proof -
  let ?r1 = "r\<lparr>rec_attrs := rec_attrs r @ map (map_prod id Encodable) extra\<rparr>"
  have reserved: "\<not> is_extra k" if "k \<in> set standard_attributes \<union> {''message'', ''asctime''}" for k
    using that by (auto simp: is_extra_def RESERVED_def)
  have extra: "is_extra k" if "k \<in> set (dict_keys extra)" for k
    using ok that by (auto simp: extra_keys_ok_def list_all_iff)
  have merge: "merge_extra extra r = Inr ?r1"
  proof (rule merge_extra_ok)
    fix k assume "k \<in> set (dict_keys extra)"
    then have "is_extra k" by (rule extra)
    then show "k \<notin> {''message'', ''asctime''} \<union> set (dict_keys (rec_attrs r))"
      unfolding std using reserved by blast
  qed
  have hdr: "log_header ?r1 = log_header r" by (simp add: log_header_def)
  define tail where "tail = (case rid of None \<Rightarrow> [] | Some i \<Rightarrow> [(''request_id'', JStr i)])"
  have no_rid: "''request_id'' \<notin> set (dict_keys (rec_attrs ?r1))"
    using ok std by (auto simp: extra_keys_ok_def standard_attributes_def)
  then have attrs: "rec_attrs (request_id_filter rid ?r1) = rec_attrs r @ map (map_prod id Encodable) (extra @ tail)"
    by (auto simp: request_id_filter_def tail_def dict_set_fresh split: option.split)
  have fresh: "dict_ok (log_header r @ extra @ tail)"
    using ok by (auto simp: log_header_def extra_keys_ok_def tail_def split: option.split)
  have "merge_fields is_extra encoded (rec_attrs (request_id_filter rid ?r1)) (log_header r) = log_header r @ extra @ tail"
    unfolding attrs merge_fields_append
    using merge_fields_skip [of "rec_attrs r" is_extra encoded "log_header r"] reserved std extra fresh request_id_extra(1)
    by (subst merge_fields_fresh) (auto simp: tail_def split: option.splits)
  moreover have "''exc_info'' \<notin> set (dict_keys (log_header r @ extra @ tail))"
    using ok by (auto simp: log_header_def extra_keys_ok_def tail_def split: option.split)
  ultimately have "log_payload (request_id_filter rid ?r1) =
      log_header r @ extra @ tail @ (case rec_exc r of None \<Rightarrow> [] | Some t \<Rightarrow> [(''exc_info'', JStr t)])"
    using hdr by (auto simp: log_payload_def Let_def dict_set_fresh split: option.split)
  with merge show ?thesis by (auto simp: tail_def)
qed

lemma digit_chars:
  "digit_char 0 = CHR ''0''" "digit_char (Suc 0) = CHR ''1''" "digit_char 7 = CHR ''7''" "digit_char 9 = CHR ''9''"
  by code_simp+

text \<open>
  C33. Every log call of the program is well formed. None of its extra fields clashes with an attribute of a log record, so
  \<^verbatim>\<open>logging\<close> raises no \<^verbatim>\<open>KeyError\<close> inside an engine operation, and the line it writes has exactly the
  header, the extra fields of the call in their order, the request id of the context if there is one, and
  the traceback of an unexpected exception; no extra field hides a field of the header.
\<close>

theorem program_log_calls_well_formed:
  assumes "dict_keys attrs = standard_attributes"
  shows "\<exists>r. log_call attrs created msecs ev = Inr r \<and>
    log_payload (request_id_filter rid r) =
      [(''ts'', JStr (timestamp created msecs)),
       (''level'', JStr (if event_trace ev = None then ''INFO'' else ''ERROR'')),
       (''logger'', JStr (event_logger ev)), (''msg'', JStr (event_message ev))] @
      event_extra ev @
      (case rid of None \<Rightarrow> [] | Some i \<Rightarrow> [(''request_id'', JStr i)]) @
      (case event_trace ev of None \<Rightarrow> [] | Some t \<Rightarrow> [(''exc_info'', JStr t)])"
  using payload_of_extra [OF event_keys_ok, of "event_record attrs created msecs ev" ev rid] assms
  by (simp add: log_call_def event_record_def log_header_def)

theorem program_log_calls_well_formed_witness:
  "\<exists>r. log_call (map (\<lambda>k. (k, Opaque k)) standard_attributes) 0 0 (WorkerError ''j1'' ''Traceback'') = Inr r \<and>
    log_payload (request_id_filter (Some ''r1'') r) =
      [(''ts'', JStr ''1970-01-01T00:00:00.000Z''), (''level'', JStr ''ERROR''), (''logger'', JStr ''batch_engine''),
       (''msg'', JStr ''worker error processing item''), (''job_id'', JStr ''j1''), (''request_id'', JStr ''r1''),
       (''exc_info'', JStr ''Traceback'')]"
proof -
  have "timestamp 0 0 = ''1970-01-01T00:00:00.000Z''"
    by (simp add: timestamp_def gmtime_def find_year.simps year_days_def leap_year_def month_days_def strftime_utc_def
        zero_pad_def show_nat.simps digit_chars) (simp add: numeral_2_eq_2)
  then show ?thesis
    using program_log_calls_well_formed
      [of "map (\<lambda>k. (k, Opaque k)) standard_attributes" 0 0 "WorkerError ''j1'' ''Traceback''" "Some ''r1''"]
    by (simp add: comp_def get_logger_def)
qed

text \<open>
  Setting up logging is idempotent: it succeeds exactly for a known level name (of any case), and then, however many times
  it has run and whatever handlers were there before, a record whose level reaches the configured one is written exactly
  once, and any other record not at all.
\<close>

lemma setup_logging_idempotent:
  assumes "setup_logging level env rt = (res, rt1)"
  shows "(res = Inr ()) = (level_number (wanted_level level env) \<noteq> None) \<and>
    (res = Inr () \<longrightarrow>
      setup_logging level env rt1 = (Inr (), rt1) \<and>
      log_output rt1 rid r =
        (if the (level_number (wanted_level level env)) \<le> rec_levelno r then json_handler rid r else []))"
  using assms by (auto simp: setup_logging_def log_output_def Let_def split: option.splits)

end
