(* ===== verification/Engine_Log.thy ===== *)
theory Engine_Log
  imports Logging Example_Run
begin

text \<open>
  The log as an audit trail: what every piece of the engine logs, and that the lines written about a job, in the order
  they are written, tell its whole history. Each function here follows the piece of \<^verbatim>\<open>engine.py\<close> of the same name and
  gives the logging calls that piece makes, with the objects they are given.
\<close>

subsection \<open>What the pieces log\<close>

definition submit_logs :: "priority \<Rightarrow> (submit_error + string \<times> bool) \<times> engine \<Rightarrow> log_event list" where
  "submit_logs prio out =
     (case out of
        (Inr (jid, False), e') \<Rightarrow> (case get_job e' jid of None \<Rightarrow> [] | Some j \<Rightarrow> [JobSubmitted j prio])
      | _ \<Rightarrow> [])"

definition cancel_logs :: "clock \<Rightarrow> string \<Rightarrow> engine \<Rightarrow> log_event list" where
  "cancel_logs clk jid e =
     (if fst (cancel clk jid e) = Some True then [JobCancelled jid (fst (remove_job jid (eng_scheduler e)))] else [])"

definition replay_logs ::
  "(string \<Rightarrow> string) \<Rightarrow> clock \<Rightarrow> string \<Rightarrow> string \<Rightarrow> priority option \<Rightarrow> engine \<Rightarrow> log_event list" where
  "replay_logs sha256 clk uid jid prio e =
     (case get_job e jid of
        None \<Rightarrow> []
      | Some j \<Rightarrow>
          if dead_letter j = [] then []
          else
            (let p = (case prio of Some p \<Rightarrow> p | None \<Rightarrow> job_priority j);
                 out = submit_with_idempotency sha256 clk uid (replay_prompts j) p None e in
             submit_logs p out @
               (case fst out of
                  Inl err \<Rightarrow> []
                | Inr (new, reused) \<Rightarrow> [ReplayedFailed jid new (int (length (replay_prompts j)))])))"

text \<open>
  After the \<^verbatim>\<open>try\<close> statement of \<^verbatim>\<open>_process\<close>: the line of the prompt, then, if it was the job's last one, the line of
  \<^verbatim>\<open>_finalize\<close>. \<^verbatim>\<open>status\<close> and \<^verbatim>\<open>cost\<close> keep their initial values unless the prompt succeeded.
\<close>

definition prompt_event :: "settings \<Rightarrow> work_item \<Rightarrow> pyfloat \<Rightarrow> inference_result \<Rightarrow> job \<Rightarrow> log_event" where
  "prompt_event s item latency r j =
     PromptProcessed j item (if res_success r then ''succeeded'' else ''failed'') (res_attempts r) latency
       (if res_success r then token_cost s (res_input_tokens r) (res_output_tokens r) else 0)"

definition complete_logs ::
  "string \<Rightarrow> work_item \<Rightarrow> pyfloat \<Rightarrow> clock \<Rightarrow> inference_result \<times> engine \<Rightarrow> log_event list" where
  "complete_logs jid item start clk re =
     (let (r, e) = re in
      case get_job e jid of
        None \<Rightarrow> []
      | Some j \<Rightarrow>
          (let j1 = j\<lparr>completed := completed j + 1, results := dict_set (item_seq item) r (results j)\<rparr> in
           prompt_event (eng_settings e) item (fl (clk_perf clk - start)) r j1 #
             (if total j1 \<le> completed j1 \<and> state j1 = RUNNING
              then [JobFinished (finish_job COMPLETED (clk_wall clk) j1) COMPLETED]
              else [])))"

definition reply_logs ::
  "string \<Rightarrow> work_item \<Rightarrow> int \<Rightarrow> pyfloat \<Rightarrow> string result \<Rightarrow> pyfloat \<Rightarrow> clock \<Rightarrow> engine \<Rightarrow> log_event list" where
  "reply_logs jid item attempt start reply u clk e =
     (case retry_turn (eng_settings e) u attempt reply of
        Return output n \<Rightarrow> complete_logs jid item start clk (item_returned jid item output n e)
      | Raise exc \<Rightarrow> complete_logs jid item start clk (item_failed jid item exc e)
      | BackOff n delay \<Rightarrow> [])"

definition interrupted_count :: "engine \<Rightarrow> int" where
  "interrupted_count e = int (length (filter (\<lambda>j. state j \<in> {PENDING, RUNNING}) (store_all (eng_store e))))"

fun step_logs :: "(string \<Rightarrow> string) \<Rightarrow> clock \<Rightarrow> engine_event \<Rightarrow> engine \<Rightarrow> log_event list" where
  "step_logs sha256 clk (Submit uid prompts prio key) e =
     submit_logs prio (submit_with_idempotency sha256 clk uid prompts prio key e)"
| "step_logs sha256 clk (Replay uid jid prio) e = replay_logs sha256 clk uid jid prio e"
| "step_logs sha256 clk (Cancel jid) e = cancel_logs clk jid e"
| "step_logs sha256 clk (ProviderReply w reply u) e =
     (case dict_get (eng_workers e) w of
        Some (AwaitReply jid item n start) \<Rightarrow> reply_logs jid item n start reply u clk e
      | _ \<Rightarrow> [])"
| "step_logs sha256 clk InterruptJobs e = [ShutdownComplete (interrupted_count e)]"
| "step_logs sha256 clk _ e = []"

text \<open>The log of a run.\<close>

fun run_logs :: "(string \<Rightarrow> string) \<Rightarrow> (clock \<times> engine_event) list \<Rightarrow> engine \<Rightarrow> log_event list" where
  "run_logs sha256 [] e = []"
| "run_logs sha256 ((clk, ev) # evs) e =
     (case engine_step sha256 clk ev e of
        None \<Rightarrow> []
      | Some e' \<Rightarrow> step_logs sha256 clk ev e @ run_logs sha256 evs e')"

subsection \<open>The lines about a job\<close>

text \<open>The job a line is filed under (its field \<^verbatim>\<open>job_id\<close>).\<close>

fun about :: "log_event \<Rightarrow> string option" where
  "about (JobSubmitted j prio) = Some (job_id j)"
| "about (JobCancelled jid n) = Some jid"
| "about (PromptProcessed j item st n latency cost) = Some (job_id j)"
| "about (JobFinished j st) = Some (job_id j)"
| "about (WorkerError jid trace) = Some jid"
| "about _ = None"

lemma about_is_job_id: "about ev = Some jid \<longleftrightarrow> dict_get (event_extra ev) ''job_id'' = Some (JStr jid)"
  by (cases ev) auto

definition lines_of :: "string \<Rightarrow> log_event list \<Rightarrow> log_event list" where
  "lines_of jid ls = filter (\<lambda>ev. about ev = Some jid) ls"

lemma lines_of_simps [simp]:
  "lines_of jid [] = []"
  "lines_of jid (ev # ls) = (if about ev = Some jid then ev # lines_of jid ls else lines_of jid ls)"
  "lines_of jid (ls @ ms) = lines_of jid ls @ lines_of jid ms"
  by (simp_all add: lines_of_def)

text \<open>What the lines of single prompts report: prompt id, status, attempts and cost.\<close>

fun outcome :: "log_event \<Rightarrow> (string \<times> string \<times> int \<times> pyfloat) list" where
  "outcome (PromptProcessed j item st n latency cost) = [(item_id item, st, n, py_round cost 8)]"
| "outcome _ = []"

definition outcomes :: "log_event list \<Rightarrow> (string \<times> string \<times> int \<times> pyfloat) list" where
  "outcomes ls = concat (map outcome ls)"

definition milestones :: "log_event list \<Rightarrow> log_event list" where
  "milestones ls = filter (\<lambda>ev. outcome ev = []) ls"

lemma outcomes_simps [simp]:
  "outcomes [] = []" "outcomes (ev # ls) = outcome ev @ outcomes ls" "outcomes (ls @ ms) = outcomes ls @ outcomes ms"
  "milestones [] = []" "milestones (ev # ls) = (if outcome ev = [] then ev # milestones ls else milestones ls)"
  "milestones (ls @ ms) = milestones ls @ milestones ms"
  by (simp_all add: outcomes_def milestones_def)

definition reported :: "inference_result \<Rightarrow> string \<times> string \<times> int \<times> pyfloat" where
  "reported r = (res_id r, if res_success r then ''succeeded'' else ''failed'', res_attempts r, res_cost_usd r)"

text \<open>
  The history of a job as its lines tell it: submitted, its results in the order they were filed, and its end:
  the last line of a completed job carries the job as it is in the store.
\<close>

definition trail :: "job \<Rightarrow> log_event list \<Rightarrow> bool" where
  "trail j ls \<longleftrightarrow>
     (\<exists>i rest. ls = JobSubmitted i (job_priority j) # rest \<and> total i = total j \<and>
        outcomes rest = map reported (dict_values (results j)) \<and>
        (if state j = COMPLETED
         then \<exists>ps. rest = ps @ [JobFinished j COMPLETED] \<and> milestones ps = []
         else milestones rest = [] \<or>
           state j = CANCELLED \<and> (\<exists>n. milestones rest = [JobCancelled (job_id j) n])))"

definition log_ok :: "log_event list \<Rightarrow> engine \<Rightarrow> bool" where
  "log_ok ls e \<longleftrightarrow>
     (\<forall>jid. case get_job e jid of None \<Rightarrow> lines_of jid ls = [] | Some j \<Rightarrow> trail j (lines_of jid ls))"

lemma log_same:
  assumes "log_ok ls e" "eng_store e' = eng_store e" "\<And>jid. lines_of jid new = []"
  shows "log_ok (ls @ new) e'"
  unfolding log_ok_def
proof
  fix k
  show "case get_job e' k of None \<Rightarrow> lines_of k (ls @ new) = [] | Some j \<Rightarrow> trail j (lines_of k (ls @ new))"
    using spec [OF assms(1) [unfolded log_ok_def], of k] assms(2,3) by (cases "get_job e' k") (simp_all add: get_job_def)
qed

lemma log_mutate:
  assumes "log_ok ls e" "get_job e jid = Some j" "eng_store e' = store_mutate jid f (eng_store e)"
    "\<And>k. k \<noteq> jid \<Longrightarrow> lines_of k new = []" "trail j (lines_of jid ls) \<Longrightarrow> trail (f j) (lines_of jid ls @ lines_of jid new)"
  shows "log_ok (ls @ new) e'"
  unfolding log_ok_def
proof
  fix k
  have "case get_job e k of None \<Rightarrow> lines_of k ls = [] | Some j \<Rightarrow> trail j (lines_of k ls)"
    using assms(1) by (simp add: log_ok_def)
  then show "case get_job e' k of None \<Rightarrow> lines_of k (ls @ new) = [] | Some j \<Rightarrow> trail j (lines_of k (ls @ new))"
    using assms(2-5) by (cases "k = jid") (auto simp: get_job_def dict_simps split: option.splits)
qed

lemma log_create:
  assumes "log_ok ls e" "get_job e (job_id j) = None" "eng_store e' = store_create j (eng_store e)"
    "\<And>k. k \<noteq> job_id j \<Longrightarrow> lines_of k new = []" "trail j (lines_of (job_id j) new)"
  shows "log_ok (ls @ new) e'"
  unfolding log_ok_def
proof
  fix k
  have "case get_job e k of None \<Rightarrow> lines_of k ls = [] | Some j \<Rightarrow> trail j (lines_of k ls)"
    using assms(1) by (simp add: log_ok_def)
  then show "case get_job e' k of None \<Rightarrow> lines_of k (ls @ new) = [] | Some j \<Rightarrow> trail j (lines_of k (ls @ new))"
    using assms(2-5) by (cases "k = job_id j") (auto simp: get_job_def dict_simps split: option.splits)
qed

subsection \<open>Each piece keeps the trail\<close>

text \<open>One more result, and the end of the job if it was the last.\<close>

lemma trail_result:
  assumes tr: "trail j ls" and st: "state j \<noteq> COMPLETED" and fresh: "dict_get (results j) (item_seq it) = None"
    and g: "results (g j) = results j" "state (g j) = state j" "total (g j) = total j" "job_id (g j) = job_id j"
      "job_priority (g j) = job_priority j"
    and ev: "outcome ev = [reported r]"
  shows "trail (file_result it r now (g j))
    (ls @ ev # (if total (g j) \<le> completed (g j) + 1 \<and> state (g j) = RUNNING
       then [JobFinished (file_result it r now (g j)) COMPLETED] else []))"
proof -
  obtain i rest where ls: "ls = JobSubmitted i (job_priority j) # rest" "total i = total j"
    "outcomes rest = map reported (dict_values (results j))"
    and ends: "milestones rest = [] \<or> state j = CANCELLED \<and> (\<exists>n. milestones rest = [JobCancelled (job_id j) n])"
    using tr st by (auto simp: trail_def)
  have "dict_set (item_seq it) r (results (g j)) = results j @ [(item_seq it, r)]"
    using fresh by (simp add: g dict_set_fresh dict_get_None_keys)
  then have "dict_values (results (file_result it r now (g j))) = dict_values (results j) @ [r]"
    by (simp add: file_result_def finish_job_def Let_def)
  moreover have "job_priority (file_result it r now (g j)) = job_priority j" "total (file_result it r now (g j)) = total j"
    "job_id (file_result it r now (g j)) = job_id j"
    "state (file_result it r now (g j)) =
       (if total (g j) \<le> completed (g j) + 1 \<and> state (g j) = RUNNING then COMPLETED else state j)"
    using g by (simp_all add: file_result_def finish_job_def Let_def)
  ultimately show ?thesis using ls ends ev st g by (auto simp: trail_def)
qed

text \<open>A submitted or cancelled job.\<close>

lemma trail_submitted:
  "job_priority j = prio \<Longrightarrow> results j = [] \<Longrightarrow> state j \<noteq> COMPLETED \<Longrightarrow> trail j [JobSubmitted j prio]"
  by (simp add: trail_def)

lemma trail_cancelled:
  "trail j ls \<Longrightarrow> \<not> terminal (state j) \<Longrightarrow> new \<in> {[], [JobCancelled (job_id j) n]} \<Longrightarrow>
     trail (finish_job CANCELLED now j) (ls @ new)"
  by (auto simp: trail_def finish_job_def terminal_def)

lemma submit_log_ok:
  assumes "log_ok ls e" "fresh_id uid e"
  shows "log_ok (ls @ submit_logs prio (submit_with_idempotency sha256 clk uid ps prio key e))
    (snd (submit_with_idempotency sha256 clk uid ps prio key e))"
proof (cases "fst (submit_with_idempotency sha256 clk uid ps prio key e)")
  case (Inl err)
  then have "eng_store (snd (submit_with_idempotency sha256 clk uid ps prio key e)) = eng_store e"
    by (auto simp: submit_with_idempotency_def admit_def Let_def split: if_splits option.splits)
  with Inl show ?thesis
    by (intro log_same [OF assms(1)]) (auto simp: submit_logs_def split: prod.split sum.split)
next
  case (Inr jb)
  let ?fp = "fingerprint sha256 ps prio"
  consider k where "fst (submit_with_idempotency sha256 clk uid ps prio key e) = Inr (k, True)"
      "eng_store (snd (submit_with_idempotency sha256 clk uid ps prio key e)) = eng_store e"
    | "submit_with_idempotency sha256 clk uid ps prio key e = (Inr (uid, False), register_job clk uid ps prio key ?fp e)"
    using Inr by (auto simp: submit_with_idempotency_def admit_def Let_def split: if_splits option.splits)
  then show ?thesis
  proof cases
    case 1
    then show ?thesis by (intro log_same [OF assms(1)]) (auto simp: submit_logs_def split: prod.split)
  next
    case 2
    let ?j = "submitted_job clk uid ps prio key ?fp" and ?e = "register_job clk uid ps prio key ?fp e"
    have id: "job_id ?j = uid" by (simp add: submitted_job_def new_job_def)
    have get: "get_job ?e uid = Some ?j" by (simp add: get_job_def frame dict_simps id)
    have "trail ?j [JobSubmitted ?j prio]" by (rule trail_submitted) (simp_all add: submitted_job_def new_job_def)
    with 2 get id assms(2) show ?thesis
      by (intro log_create [OF assms(1), where j = ?j]) (simp_all add: submit_logs_def frame fresh_id_def)
  qed
qed

lemma replay_log_ok:
  assumes "log_ok ls e" "fresh_id uid e"
  shows "log_ok (ls @ replay_logs sha256 clk uid jid prio e) (snd (replay_failed sha256 clk uid jid prio e))"
proof (cases "\<exists>j. get_job e jid = Some j \<and> dead_letter j \<noteq> []")
  case True
  then obtain j where j: "get_job e jid = Some j" "dead_letter j \<noteq> []" by blast
  let ?p = "case prio of Some p \<Rightarrow> p | None \<Rightarrow> job_priority j"
  let ?out = "submit_with_idempotency sha256 clk uid (replay_prompts j) ?p None e"
  let ?new = "case fst ?out of Inl err \<Rightarrow> [] | Inr (new, reused) \<Rightarrow> [ReplayedFailed jid new (int (length (replay_prompts j)))]"
  have "log_ok ((ls @ submit_logs ?p ?out) @ ?new) (snd ?out)"
    by (rule log_same [OF submit_log_ok [OF assms]]) (simp_all split: sum.split prod.split)
  moreover have "replay_logs sha256 clk uid jid prio e = submit_logs ?p ?out @ ?new"
    using j by (simp add: replay_logs_def Let_def)
  moreover have "snd (replay_failed sha256 clk uid jid prio e) = snd ?out"
    using j by (simp add: replay_failed_def submit_def)
  ultimately show ?thesis by simp
next
  case False
  then have "replay_logs sha256 clk uid jid prio e = []" "snd (replay_failed sha256 clk uid jid prio e) = e"
    by (auto simp: replay_logs_def replay_failed_def split: option.split)
  then show ?thesis using assms(1) by simp
qed

lemma cancel_log_ok:
  assumes "log_ok ls e" "store_ok (eng_store e)"
  shows "log_ok (ls @ cancel_logs clk jid e) (snd (cancel clk jid e))"
proof (cases "\<exists>j. get_job e jid = Some j \<and> \<not> terminal (state j)")
  case True
  then obtain j where j: "get_job e jid = Some j" "\<not> terminal (state j)" by blast
  then have "job_id j = jid" using store_ok_ids [OF assms(2)] by (auto simp: get_job_def)
  with j show ?thesis
    by (intro log_mutate [OF assms(1) j(1), where f = "finish_job CANCELLED (clk_wall clk)"])
      (auto simp: cancel_logs_def cancel_def frame Let_def intro: trail_cancelled)
next
  case False
  then have "cancel_logs clk jid e = []" "snd (cancel clk jid e) = e"
    by (auto simp: cancel_logs_def cancel_def split: option.split)
  then show ?thesis using assms(1) by simp
qed

lemma interrupt_log_ok:
  assumes "log_ok ls e" "distinct (map job_id js)" "\<forall>j \<in> set js. get_job e (job_id j) = Some j"
  shows "log_ok ls (fold (interrupt_job clk) js e)"
  using assms
proof (induction js arbitrary: e)
  case (Cons j js)
  let ?e = "interrupt_job clk j e"
  have j: "get_job e (job_id j) = Some j" using Cons.prems(3) by simp
  have "log_ok (ls @ []) ?e"
  proof (cases "state j \<in> {PENDING, RUNNING}")
    case True
    then have "\<not> terminal (state j)" by (auto simp: terminal_def)
    with True trail_cancelled [of j "lines_of (job_id j) ls" "[]"] show ?thesis
      by (intro log_mutate [OF Cons.prems(1) j, where f = "finish_job CANCELLED (clk_wall_each clk (job_id j))"])
        (auto simp: interrupt_job_def frame)
  qed (use Cons.prems(1) in \<open>simp add: interrupt_job_def\<close>)
  moreover have "\<forall>i \<in> set js. get_job ?e (job_id i) = Some i"
    using Cons.prems(2,3) by (auto simp: interrupt_job_def get_job_def frame dict_simps image_iff)
  ultimately show ?case using Cons.IH Cons.prems(2) by simp
qed simp

subsection \<open>Settling an item\<close>

lemma py_round_0 [simp]: "py_round 0 n = 0"
  using round_half_even_of_int [of 0] by (simp add: py_round_def del: round_half_even_of_int)

lemma prompt_event_outcome:
  "outcome (prompt_event (eng_settings e) it lat (fst (item_failed jid it exc e)) j) = [reported (fst (item_failed jid it exc e))]"
  "outcome (prompt_event (eng_settings e) it lat (fst (item_returned jid it out n e)) j) =
     [reported (fst (item_returned jid it out n e))]"
  by (simp_all add: prompt_event_def item_returned_def item_failed_def reported_def Let_def split: sum.split)

lemma item_returned_store:
  "\<exists>g. eng_store (snd (item_returned jid it out n e)) = store_mutate jid g (eng_store e) \<and>
     (\<forall>j. results (g j) = results j \<and> state (g j) = state j \<and> total (g j) = total j \<and> job_id (g j) = job_id j \<and>
       job_priority (g j) = job_priority j)"
proof (cases "\<exists>a b. estimate_tokens (eng_settings e) (item_prompt it) = Inr a \<and> estimate_tokens (eng_settings e) out = Inr b")
  case True
  then obtain a b where "estimate_tokens (eng_settings e) (item_prompt it) = Inr a" "estimate_tokens (eng_settings e) out = Inr b"
    by blast
  then show ?thesis
    by (intro exI [of _ "credit_success a b (token_cost (eng_settings e) a b)"])
      (simp add: item_returned_def credit_success_def Let_def)
next
  case False
  then show ?thesis
    by (intro exI [of _ "\<lambda>j. j\<lparr>failed := failed j + 1\<rparr>"]) (auto simp: item_returned_def frame Let_def split: sum.split)
qed

lemma complete_log_ok:
  assumes ok: "log_ok ls e" "store_ok (eng_store e)" and j: "get_job e jid = Some j" "state j \<noteq> COMPLETED"
    "dict_get (results j) (item_seq it) = None"
    and re: "eng_store (snd re) = store_mutate jid g (eng_store e)" "eng_settings (snd re) = eng_settings e"
    and g: "results (g j) = results j" "state (g j) = state j" "total (g j) = total j" "job_id (g j) = job_id j"
      "job_priority (g j) = job_priority j"
    and ev: "\<And>lat i. outcome (prompt_event (eng_settings e) it lat (fst re) i) = [reported (fst re)]"
  shows "log_ok (ls @ complete_logs jid it start clk re) (settle w jid it start clk re)"
proof (rule log_mutate [OF ok(1) j(1), where f = "\<lambda>j. file_result it (fst re) (clk_wall clk) (g j)"])
  have gj: "get_job (snd re) jid = Some (g j)" using j(1) by (simp add: get_job_def re dict_simps)
  have id: "job_id j = jid" using store_ok_ids [OF ok(2)] j(1) by (auto simp: get_job_def)
  show "eng_store (settle w jid it start clk re) = store_mutate jid (\<lambda>j. file_result it (fst re) (clk_wall clk) (g j)) (eng_store e)"
    by (rule settle_store [OF j(1) re(1)])
  let ?i = "(g j)\<lparr>completed := completed (g j) + 1, results := dict_set (item_seq it) (fst re) (results (g j))\<rparr>"
  let ?last = "total (g j) \<le> completed (g j) + 1 \<and> state (g j) = RUNNING"
  let ?j = "file_result it (fst re) (clk_wall clk) (g j)"
  have "?last \<Longrightarrow> finish_job COMPLETED (clk_wall clk) ?i = ?j" by (simp add: file_result_def)
  then have logs: "complete_logs jid it start clk re =
      prompt_event (eng_settings e) it (fl (clk_perf clk - start)) (fst re) ?i # (if ?last then [JobFinished ?j COMPLETED] else [])"
    using gj re(2) by (simp add: complete_logs_def case_prod_beta Let_def)
  have about: "about (prompt_event s it lat (fst re) ?i) = Some jid" "job_id ?j = jid" for s lat
    using g(4) id by (simp_all add: prompt_event_def file_result_def finish_job_def Let_def)
  then show "lines_of k (complete_logs jid it start clk re) = []" if "k \<noteq> jid" for k using that by (simp add: logs)
  have lines: "lines_of jid (complete_logs jid it start clk re) =
      prompt_event (eng_settings e) it (fl (clk_perf clk - start)) (fst re) ?i # (if ?last then [JobFinished ?j COMPLETED] else [])"
    using about by (simp add: logs)
  assume "trail j (lines_of jid ls)"
  from trail_result [where g = g, OF this j(2,3) g ev]
  show "trail ?j (lines_of jid ls @ lines_of jid (complete_logs jid it start clk re))" unfolding lines .
qed

lemma reply_log_ok:
  assumes ok: "log_ok ls e" "store_ok (eng_store e)" and j: "get_job e jid = Some j" "state j \<noteq> COMPLETED"
    "dict_get (results j) (item_seq it) = None"
  shows "log_ok (ls @ reply_logs jid it n start reply u clk e) (worker_reply w jid it n start reply u clk e)"
proof (cases "retry_turn (eng_settings e) u n reply")
  case (Return out m)
  obtain g where "eng_store (snd (item_returned jid it out m e)) = store_mutate jid g (eng_store e)"
    "results (g j) = results j \<and> state (g j) = state j \<and> total (g j) = total j \<and> job_id (g j) = job_id j \<and>
       job_priority (g j) = job_priority j"
    using item_returned_store [of jid it out m e] by blast
  then show ?thesis
    by (simp add: worker_reply_def reply_logs_def Return)
      (intro complete_log_ok [OF ok j, where g = g], simp_all add: frame prompt_event_outcome)
next
  case (Raise exc)
  then show ?thesis
    by (simp add: worker_reply_def reply_logs_def)
      (intro complete_log_ok [OF ok j item_failed_frame(2)], simp_all add: frame prompt_event_outcome)
next
  case (BackOff m delay)
  have "trail (j\<lparr>retries := retries j + 1\<rparr>) (lines_of jid ls @ lines_of jid [])" if "trail j (lines_of jid ls)"
    using that j(2) by (simp add: trail_def)
  then have "log_ok (ls @ []) (set_phase w ph (on_retry jid e))" for ph
    by (intro log_mutate [OF ok(1) j(1), where f = "\<lambda>j. j\<lparr>retries := retries j + 1\<rparr>"]) (simp_all add: frame)
  then show ?thesis by (simp add: worker_reply_def reply_logs_def BackOff)
qed

subsection \<open>The trail of a run\<close>

text \<open>A prompt with a worker has no result yet, so its job is not completed.\<close>

lemma flying_not_completed:
  assumes "book_ok b G st sc ws" "dict_ok ws" "dict_get ws w = Some ph" "phase_item ph = Some (jid, it)" "store_get st jid = Some j"
  shows "state j \<noteq> COMPLETED"
proof
  assume st: "state j = COMPLETED"
  obtain its where its: "G jid = Some its" "job_inv its j" using book_okD(6) [OF assms(1,5)] by (auto simp: job_book_def)
  have "item_seq it < length its" using book_okD(5) [OF assms(1,3,4)] its(1) by (auto simp: valid_item_def)
  then have "item_seq it \<in> set (dict_keys (results j))" using completed_keys [OF its(2) st] by simp
  with flying_fresh [OF assms] show False by (simp add: dict_get_None_keys)
qed

lemma engine_step_log_ok:
  assumes ls: "log_ok ls e" and pool: "pool_inv e" and book: "book_inv G e" and st: "engine_step sha256 clk ev e = Some e'"
  shows "log_ok (ls @ step_logs sha256 clk ev e) e'"
proof -
  have ok: "store_ok (eng_store e)" by (rule book_okD(1) [OF book])
  show ?thesis
  proof (cases ev)
    case (ProviderReply w reply u)
    then obtain jid it n start where w: "dict_get (eng_workers e) w = Some (AwaitReply jid it n start)"
      and e': "e' = worker_reply w jid it n start reply u clk e"
      using st by auto
    obtain j where j: "get_job e jid = Some j" using book_okD(5) [OF book w, of jid it] by (auto simp: get_job_def)
    have "dict_get (results j) (item_seq it) = None" "state j \<noteq> COMPLETED"
      using flying_fresh [OF book pool_dict_ok [OF pool] w, of jid it j]
        flying_not_completed [OF book pool_dict_ok [OF pool] w, of jid it j] j by (simp_all add: get_job_def)
    then show ?thesis using reply_log_ok [OF ls ok j] by (simp add: ProviderReply e' w)
  next
    case (Submit uid ps prio key)
    then show ?thesis using st submit_log_ok [OF ls] by (auto split: if_splits)
  next
    case (Replay uid jid prio)
    then show ?thesis using st replay_log_ok [OF ls] by (auto split: if_splits)
  next
    case (Cancel jid)
    then show ?thesis using st cancel_log_ok [OF ls ok] by auto
  next
    case InterruptJobs
    have "log_ok ls (interrupt_jobs clk e)"
      unfolding interrupt_jobs_def using store_all_distinct [OF ok] store_all_iff [OF ok]
      by (intro interrupt_log_ok [OF ls]) (auto simp: get_job_def)
    from log_same [OF this refl, of "[ShutdownComplete (interrupted_count e)]"] InterruptJobs st show ?thesis
      by (auto split: if_splits)
  next
    case (RunWorker w)
    then show ?thesis using st log_same [OF ls worker_run_frame(1), of "[]" w clk] by auto
  qed (use st log_same [OF ls, of _ "[]"] in \<open>auto simp: frame shutdown_begin_def split: if_splits\<close>)
qed

lemma run_log_ok:
  assumes "run_events sha256 evs (e, G) = Some (e', G')" "reachable sha256 s e G" "gate_settings_ok s" "log_ok ls e"
  shows "log_ok (ls @ run_logs sha256 evs e) e'"
  using assms
proof (induction evs arbitrary: e G ls)
  case (Cons ce evs)
  obtain clk ev e1 where ce: "ce = (clk, ev)" and st: "engine_step sha256 clk ev e = Some e1"
    and run: "run_events sha256 evs (e1, ledger_step ev e G) = Some (e', G')"
    using Cons.prems(1) by (cases ce) (auto split: option.splits)
  have "log_ok (ls @ step_logs sha256 clk ev e) e1"
    using engine_step_log_ok [OF Cons.prems(4) reachable_pool reachable_book st] Cons.prems(2,3) by blast
  from Cons.IH [OF run reachable.step [OF Cons.prems(2) st] Cons.prems(3) this] show ?case by (simp add: ce st)
qed simp

lemma new_engine_log_ok: "log_ok [] (new_engine s m)"
  by (simp add: log_ok_def new_engine_def get_job_def empty_store_def store_get_def Let_def)

text \<open>
  C11. The log is a complete audit trail: after any run of a fresh engine, the lines about a stored job are exactly its
  history. They begin with the line of its submission (with its total and priority); then comes one line
  per result, in the order the results were filed, with the result's id, status, attempts and cost; a
  completed job ends with a line that carries the job's final counters, nothing follows it, and no other
  job has such a line; only a cancelled job may have a cancellation line, and at most one. No line is about
  a job the store does not know.
\<close>

theorem log_is_audit_trail:
  assumes "run_events sha256 evs (new_engine s m, \<lambda>_. None) = Some (e, G)" "gate_settings_ok s"
  shows "case get_job e jid of
      None \<Rightarrow> lines_of jid (run_logs sha256 evs (new_engine s m)) = []
    | Some j \<Rightarrow> trail j (lines_of jid (run_logs sha256 evs (new_engine s m)))"
  using run_log_ok [OF assms(1) reachable.start assms(2) new_engine_log_ok] by (simp add: log_ok_def)

theorem log_is_audit_trail_witness:
  "\<exists>e G j ls. example_run (example_start @ example_finish) = Some (e, G) \<and> get_job e ''job-1'' = Some j \<and>
     state j = COMPLETED \<and> ls = run_logs id (example_start @ example_finish) (new_engine example_settings new_metrics) \<and>
     last (lines_of ''job-1'' ls) = JobFinished j COMPLETED \<and>
     outcomes (lines_of ''job-1'' ls) = map reported (dict_values (results j))"
proof -
  obtain e G j where ex: "example_run (example_start @ example_finish) = Some (e, G)" "get_job e ''job-1'' = Some j"
    "state j = COMPLETED"
    using example_done by metis
  from log_is_audit_trail [OF ex(1) [unfolded example_run_def] example_settings_ok(2), of "''job-1''"] ex
  show ?thesis by (auto simp: trail_def)
qed

end
