(* ===== verification/Engine_Drain.thy ===== *)
theory Engine_Drain
  imports Engine_Facts
begin

text \<open>
  The graceful half of a shutdown. Between \<^verbatim>\<open>self._accepting = False\<close> and the end of the grace period the workers go on,
  clients may still cancel jobs, and submissions are refused. Workers never look at \<^verbatim>\<open>_accepting\<close>, so the engine
  drains the way an accepting engine to which nothing is submitted does: a simulation that only
  differs in that flag. What is known of quiet accepting engines then holds when \<^verbatim>\<open>_await_workers\<close> returns.
\<close>

subsection \<open>Waiting for the workers\<close>

text \<open>
  \<^verbatim>\<open>_await_workers\<close>: the engines the loop finds at its successive turns; it returns at the first one without
  a live worker. The model keeps the workers that are not done.
\<close>

definition await_workers :: "engine list \<Rightarrow> engine option" where
  "await_workers turns = find (\<lambda>e. eng_workers e = []) turns"

text \<open>What may happen while the coroutine waits: everything but its own remaining steps.\<close>

fun drain_event :: "engine_event \<Rightarrow> bool" where
  "drain_event CancelWorkers = False"
| "drain_event InterruptJobs = False"
| "drain_event _ = True"

definition drains_to :: "(string \<Rightarrow> string) \<Rightarrow> engine \<times> ledger \<Rightarrow> engine \<Rightarrow> bool" where
  "drains_to sha256 eG e1 \<longleftrightarrow>
     (\<exists>evs G1. (\<forall>ce \<in> set evs. drain_event (snd ce)) \<and> run_events sha256 evs eG = Some (e1, G1))"

subsection \<open>The flag does not matter to the workers\<close>

abbreviation flagged :: "bool \<Rightarrow> engine \<Rightarrow> engine" where
  "flagged b e \<equiv> e\<lparr>eng_accepting := b\<rparr>"

abbreviation reopened :: "engine \<Rightarrow> engine" where
  "reopened \<equiv> flagged True"

named_theorems reopen \<open>operations that commute with setting the accepting flag\<close>

lemma reopen_basic [reopen]:
  "get_job (flagged b e) jid = get_job e jid"
  "set_phase w ph (flagged b e) = flagged b (set_phase w ph e)"
  "refresh_gauges (flagged b e) = flagged b (refresh_gauges e)"
  by (simp_all add: get_job_def set_phase_def refresh_gauges_def)

lemma reopen_updates [reopen]:
  "tally f (flagged b e) = flagged b (tally f e)"
  "with_job jid g (flagged b e) = flagged b (with_job jid g e)"
  "(flagged b e)\<lparr>eng_limiter := l\<rparr> = flagged b (e\<lparr>eng_limiter := l\<rparr>)"
  "(flagged b e)\<lparr>eng_scheduler := sc\<rparr> = flagged b (e\<lparr>eng_scheduler := sc\<rparr>)"
  "(flagged b e)\<lparr>eng_bucket := tb\<rparr> = flagged b (e\<lparr>eng_bucket := tb\<rparr>)"
  "(flagged b e)\<lparr>eng_active := a\<rparr> = flagged b (e\<lparr>eng_active := a\<rparr>)"
  "(flagged b e)\<lparr>eng_workers := ws\<rparr> = flagged b (e\<lparr>eng_workers := ws\<rparr>)"
  by simp_all

lemma reopen_release [reopen]: "worker_release (flagged b e) = flagged b (worker_release e)"
  by (simp add: worker_release_def set_phase_def Let_def split: prod.split option.split)

lemma reopen_finalize [reopen]: "finalize jid st clk (flagged b e) = flagged b (finalize jid st clk e)"
  by (simp add: finalize_def get_job_def Let_def split: option.split)

lemma reopen_start_call [reopen]: "start_call w jid it n start clk (flagged b e) = flagged b (start_call w jid it n start clk e)"
  by (simp add: start_call_def set_phase_def split: prod.split option.split)

lemma reopen_process_start [reopen]: "process_start w jid it clk (flagged b e) = flagged b (process_start w jid it clk e)"
  by (simp add: process_start_def reopen split: option.split)

lemma reopen_worker_run [reopen]: "worker_run w clk (flagged b e) = flagged b (worker_run w clk e)"
  unfolding worker_run_def by (simp add: reopen Let_def split: prod.split option.split bool.split)

lemma reopen_item_failed [reopen]: "item_failed jid it exc (flagged b e) = apsnd (flagged b) (item_failed jid it exc e)"
  by (simp add: item_failed_def Let_def)

lemma reopen_item_returned [reopen]: "item_returned jid it out n (flagged b e) = apsnd (flagged b) (item_returned jid it out n e)"
  by (simp add: item_returned_def item_failed_def Let_def split: sum.split)

lemma reopen_complete_item [reopen]:
  "complete_item jid it start clk (apsnd (flagged b) re) = flagged b (complete_item jid it start clk re)"
  by (cases re) (simp add: complete_item_def reopen get_job_def Let_def split: option.split)

lemma reopen_settle [reopen]: "settle w jid it start clk (apsnd (flagged b) re) = flagged b (settle w jid it start clk re)"
  by (simp add: settle_def reopen)

lemma reopen_worker_reply [reopen]:
  "worker_reply w jid it n start reply u clk (flagged b e) = flagged b (worker_reply w jid it n start reply u clk e)"
  by (simp add: worker_reply_def reopen on_retry_def Let_def split: retry_decision.split)

lemma reopen_cancel [reopen]: "snd (cancel clk jid (flagged b e)) = flagged b (snd (cancel clk jid e))"
  by (simp add: cancel_def reopen Let_def split: option.split)

subsection \<open>The simulation\<close>

lemma drain_step:
  assumes "engine_step sha256 clk ev e = Some e'" "drain_event ev" "\<not> eng_accepting e"
  shows "\<not> eng_accepting e'" "reopened e' = reopened e \<or> engine_step sha256 clk ev (reopened e) = Some (reopened e')"
proof -
  have self: "e = flagged False e" using assms(3) by simp
  have closed: "\<not> eng_accepting (worker_run w clk e)" "\<not> eng_accepting (worker_reply w jid it n start reply u clk e)"
    for w jid it n start reply u
    by (subst self, simp add: reopen)+
  have refused: "snd (submit_with_idempotency sha256 clk uid ps prio key e) = e" for uid ps prio key
    using assms(3) by (simp add: submit_with_idempotency_def)
  have "\<not> eng_accepting e' \<and>
    (reopened e' = reopened e \<or> engine_step sha256 clk ev (reopened e) = Some (reopened e'))"
  proof (cases ev)
    case (Submit uid ps prio key)
    then show ?thesis using assms refused by (auto split: if_splits)
  next
    case (Replay uid jid prio)
    then have "e' = e"
      using assms(1) refused by (auto simp: replay_failed_def submit_def split: if_splits option.splits)
    with assms(3) show ?thesis by simp
  next
    case (Cancel jid)
    then have "e' = snd (cancel clk jid e)" using assms(1) by simp
    with Cancel assms(3) cancel_effect [of clk jid e] show ?thesis by (auto simp: reopen frame)
  qed (use assms closed in \<open>auto simp: reopen frame shutdown_begin_def\<close>)
  then show "\<not> eng_accepting e'" "reopened e' = reopened e \<or> engine_step sha256 clk ev (reopened e) = Some (reopened e')"
    by blast+
qed

lemma drain_reachable:
  assumes "run_events sha256 evs (e, G) = Some (e1, G1)" "\<forall>ce \<in> set evs. drain_event (snd ce)"
    "\<not> eng_accepting e" "reachable sha256 s (reopened e) H"
  shows "\<exists>H1. reachable sha256 s (reopened e1) H1"
  using assms
proof (induction evs arbitrary: e G H)
  case (Cons ce evs)
  obtain clk ev e' where ce: "ce = (clk, ev)" "engine_step sha256 clk ev e = Some e'"
    and rest: "run_events sha256 evs (e', ledger_step ev e G) = Some (e1, G1)"
    using Cons.prems(1) by (cases ce) (auto split: option.splits)
  have ev: "drain_event ev" using Cons.prems(2) ce by simp
  from drain_step(2) [OF ce(2) ev Cons.prems(3)] obtain H' where "reachable sha256 s (reopened e') H'"
    using Cons.prems(4) reachable.step by metis
  with Cons.IH [OF rest _ drain_step(1) [OF ce(2) ev Cons.prems(3)]] Cons.prems(2) show ?case by simp
qed auto

lemma drained_jobs:
  assumes "reachable sha256 s e G" "live_settings_ok s" "eng_accepting e"
    and "drains_to sha256 (shutdown_begin e, G) e1" "eng_workers e1 = []"
  shows "pending (eng_scheduler e1) = 0"
    and "get_job e1 jid = Some j \<Longrightarrow> 0 < total j \<Longrightarrow>
      state j = COMPLETED \<and> completed j = total j \<or> state j = CANCELLED"
proof -
  obtain evs G1 where run: "run_events sha256 evs (shutdown_begin e, G) = Some (e1, G1)"
    and evs: "\<forall>ce \<in> set evs. drain_event (snd ce)"
    using assms(4) by (auto simp: drains_to_def)
  have start: "reopened (shutdown_begin e) = e" "\<not> eng_accepting (shutdown_begin e)"
    using assms(3) by (simp_all add: shutdown_begin_def)
  obtain H where H: "reachable sha256 s (reopened e1) H"
    using drain_reachable [OF run evs start(2)] assms(1) start(1) by auto
  have book: "book_inv H (reopened e1)"
    using reachable_book [OF H] assms(2) by (simp add: live_settings_ok_def)
  note live = reachable_live [OF H assms(2)]
  have q: "quiescent (reopened e1)" using assms(5) by (simp add: quiescent_def)
  show "pending (eng_scheduler e1) = 0" using quiescent_drained(2) [OF book live q] by simp
  show "state j = COMPLETED \<and> completed j = total j \<or> state j = CANCELLED"
    if "get_job e1 jid = Some j" "0 < total j"
    using quiescent_jobs [OF book live q, of jid j] that by (simp add: reopen)
qed

text \<open>Interrupting leaves the jobs alone that are over.\<close>

lemma interrupt_job_other:
  "job_id i \<noteq> jid \<or> state i \<notin> {PENDING, RUNNING} \<Longrightarrow> get_job (interrupt_job clk i e) jid = get_job e jid"
  by (auto simp: interrupt_job_def get_job_def frame dict_simps)

lemma interrupt_fold_other:
  "\<forall>i \<in> set js. job_id i \<noteq> jid \<or> state i \<notin> {PENDING, RUNNING} \<Longrightarrow>
     get_job (fold (interrupt_job clk) js e) jid = get_job e jid"
  by (induction js arbitrary: e) (simp_all add: interrupt_job_other)

lemma interrupt_keeps:
  assumes "store_ok (eng_store e)" "get_job e jid = Some j" "state j \<notin> {PENDING, RUNNING}"
  shows "get_job (interrupt_jobs clk e) jid = Some j"
proof -
  have "job_id i \<noteq> jid \<or> state i \<notin> {PENDING, RUNNING}" if "i \<in> set (store_all (eng_store e))" for i
    using that assms store_all_iff [OF assms(1), of i] by (auto simp: get_job_def)
  then show ?thesis using assms(2) by (simp add: interrupt_jobs_def interrupt_fold_other)
qed

lemma drained_store_ok:
  assumes "reachable sha256 s e G" "live_settings_ok s" "drains_to sha256 (shutdown_begin e, G) e1"
  shows "store_ok (eng_store e1)"
proof -
  obtain evs G1 where "run_events sha256 evs (shutdown_begin e, G) = Some (e1, G1)"
    using assms(3) by (auto simp: drains_to_def)
  moreover have "reachable sha256 s (shutdown_begin e) G"
    using reachable.step [OF assms(1), of _ ShutdownBegin] by simp
  ultimately have "reachable sha256 s e1 G1" by (rule run_events_reachable)
  then show ?thesis
    using book_okD(1) reachable_book assms(2) unfolding live_settings_ok_def by blast
qed

text \<open>
  If \<^verbatim>\<open>_await_workers\<close> returns within the grace period, then whatever the workers, cancelling clients and refused submissions
  did meanwhile, nothing is queued any more, there is no worker left to cancel, and every non-empty
  job has completed with all its prompts accounted for or been cancelled by its owner; the final loop of
  \<^verbatim>\<open>shutdown\<close> changes none of these jobs.
\<close>

lemma graceful_drain:
  assumes "reachable sha256 s e G" "live_settings_ok s" "eng_accepting e"
    and "\<forall>e' \<in> set turns. drains_to sha256 (shutdown_begin e, G) e'" "await_workers turns = Some e1"
  shows "pending (eng_scheduler e1) = 0 \<and> cancel_workers e1 = e1 \<and>
    (\<forall>jid j. get_job e1 jid = Some j \<and> 0 < total j \<longrightarrow>
       (state j = COMPLETED \<and> completed j = total j \<or> state j = CANCELLED) \<and>
       get_job (interrupt_jobs clk (cancel_workers e1)) jid = Some j)"
proof -
  have e1: "e1 \<in> set turns" "eng_workers e1 = []"
    using assms(5) by (auto simp: await_workers_def find_Some_iff)
  note drained = drained_jobs [OF assms(1-3) bspec [OF assms(4) e1(1)] e1(2)]
  have same: "cancel_workers e1 = e1" using e1(2) by (simp add: cancel_workers_def)
  have "store_ok (eng_store e1)" by (rule drained_store_ok [OF assms(1,2) bspec [OF assms(4) e1(1)]])
  from interrupt_keeps [OF this] drained same show ?thesis by fastforce
qed

end
