(* ===== verification/Service.thy ===== *)
theory Service
  imports Engine_Log Engine_Drain Api
begin

text \<open>
  The running service: the \<^verbatim>\<open>lifespan\<close> of the application (set up logging, build the engine from the environment, serve,
  shut down), the static health endpoints, and the contexts in which log lines are written. A
  worker task is created in the context of the request that spawns the pool (\<^verbatim>\<open>asyncio\<close> copies the context variables into a
  new task), so its log lines carry that request's id as long as the worker lives.
\<close>

subsection \<open>Start, health, stop\<close>

definition version :: string where
  "version = ''1.0.0''"

text \<open>
  \<^verbatim>\<open>BatchEngine()\<close> takes the settings, whose defaults were read from the environment when \<^verbatim>\<open>config.py\<close> was imported
  (\<open>imported\<close>); \<^verbatim>\<open>setup_logging\<close> reads the environment at the start (\<open>env\<close>). An unknown level name aborts the start.
\<close>

definition service_start ::
  "environment \<Rightarrow> environment \<Rightarrow> metric_registry \<Rightarrow> root_logger \<Rightarrow> (level_error + engine \<times> log_event list) \<times> root_logger" where
  "service_start imported env m rt =
     (case setup_logging None env rt of
        (Inl err, rt1) \<Rightarrow> (Inl err, rt1)
      | (Inr _, rt1) \<Rightarrow> (Inr (new_engine (get_settings imported) m, [ServiceStarted version]), rt1))"

text \<open>
  \<^verbatim>\<open>shutdown\<close> after its first statement (\<^verbatim>\<open>shutdown_begin\<close>): \<open>turns\<close> are the engines the wait for the workers finds, the last
  one the engine at the end of the grace period.
\<close>

definition graceful_shutdown :: "clock \<Rightarrow> engine list \<Rightarrow> engine \<times> log_event list" where
  "graceful_shutdown clk turns =
     (let e = cancel_workers (case await_workers turns of Some e1 \<Rightarrow> e1 | None \<Rightarrow> last turns) in
      (interrupt_jobs clk e, [ShutdownComplete (interrupted_count e)]))"

text \<open>The \<^verbatim>\<open>finally\<close> block of \<^verbatim>\<open>lifespan\<close>.\<close>

definition service_stop :: "clock \<Rightarrow> engine list \<Rightarrow> engine \<times> log_event list" where
  "service_stop clk turns = (let (e, logs) = graceful_shutdown clk turns in (e, logs @ [ServiceStopped]))"

definition healthz :: "(string, string) dict" where
  "healthz = [(''status'', ''ok''), (''version'', version)]"

definition livez :: "(string, string) dict" where
  "livez = [(''status'', ''alive'')]"

definition service_root :: "(string, string) dict" where
  "service_root = [(''service'', ''batch-inference-engine''), (''version'', version), (''docs'', ''/docs'')]"

lemma service_start_result:
  "service_start imported env m rt =
     (case level_number (wanted_level None env) of
        None \<Rightarrow> (Inl (UnknownLevel (wanted_level None env)), rt\<lparr>root_handlers := [json_handler]\<rparr>)
      | Some n \<Rightarrow> (Inr (new_engine (get_settings imported) m, [ServiceStarted version]),
          \<lparr>root_handlers = [json_handler], root_level = n\<rparr>))"
  by (cases rt) (simp add: service_start_def setup_logging_def Let_def split: option.split)

text \<open>An empty \<^verbatim>\<open>LOG_LEVEL\<close> is not the default level but no level at all.\<close>

lemma blank_log_level_prevents_start:
  "env ''LOG_LEVEL'' = Some [] \<Longrightarrow> fst (service_start imported env m rt) = Inl (UnknownLevel [])"
  by (simp add: service_start_result wanted_level_def level_number_def)

text \<open>
  C16. A service that starts and stops gracefully loses nothing: with a known (or no) log level it starts, with an engine
  that accepts work and has the settings of the environment it was imported in; and if it is stopped when a run has brought it to some accepting
  state and its workers finish within the grace period, then every non-empty job it acknowledged is completed or cancelled
  and unchanged by the stop, and the number of interrupted jobs it logs counts empty jobs only.
\<close>

theorem service_stops_gracefully:
  assumes start: "service_start imported env m rt = (Inr (e0, logs), rt1)" and ok: "live_settings_ok (get_settings imported)"
    and run: "run_events sha256 evs (e0, \<lambda>_. None) = Some (e, G)" "eng_accepting e"
    and turns: "\<forall>e' \<in> set turns. drains_to sha256 (shutdown_begin e, G) e'" "await_workers turns = Some e1"
  shows "level_number (wanted_level None env) = Some (root_level rt1) \<and> eng_accepting e0 \<and>
    eng_settings e0 = get_settings imported \<and> eng_workers (fst (service_stop clk turns)) = [] \<and>
    (\<forall>jid j. get_job e1 jid = Some j \<and> 0 < total j \<longrightarrow>
       get_job (fst (service_stop clk turns)) jid = Some j \<and>
       (state j = COMPLETED \<and> completed j = total j \<or> state j = CANCELLED)) \<and>
    snd (service_stop clk turns) =
      [ShutdownComplete (int (length (filter (\<lambda>j. total j \<le> 0 \<and> state j \<in> {PENDING, RUNNING}) (store_all (eng_store e1))))),
       ServiceStopped]"
proof -
  have e0: "e0 = new_engine (get_settings imported) m" "level_number (wanted_level None env) = Some (root_level rt1)"
    using start by (auto simp: service_start_result split: option.splits)
  have reach: "reachable sha256 (get_settings imported) e G"
    using run_events_reachable [OF run(1)] reachable.start e0(1) by blast
  note drained = graceful_drain [OF reach ok run(2) turns, of clk]
  then have same: "cancel_workers e1 = e1" by blast
  have stop: "service_stop clk turns = (interrupt_jobs clk e1, [ShutdownComplete (interrupted_count e1), ServiceStopped])"
    using turns(2) same by (simp add: service_stop_def graceful_shutdown_def)
  have e1: "eng_workers e1 = []" "e1 \<in> set turns" using turns(2) by (auto simp: await_workers_def find_Some_iff)
  have store: "store_ok (eng_store e1)" by (rule drained_store_ok [OF reach ok bspec [OF turns(1) e1(2)]])
  have "filter (\<lambda>j. state j \<in> {PENDING, RUNNING}) (store_all (eng_store e1)) =
      filter (\<lambda>j. total j \<le> 0 \<and> state j \<in> {PENDING, RUNNING}) (store_all (eng_store e1))"
    using drained store_all_iff [OF store] by (intro filter_cong refl) (fastforce simp: get_job_def)
  then have count: "interrupted_count e1 =
      int (length (filter (\<lambda>j. total j \<le> 0 \<and> state j \<in> {PENDING, RUNNING}) (store_all (eng_store e1))))"
    by (simp only: interrupted_count_def)
  have "eng_accepting e0" "eng_settings e0 = get_settings imported" by (simp_all add: e0(1) new_engine_def Let_def)
  with e0(2) drained same e1(1) show ?thesis by (auto simp: stop count frame)
qed

definition one_prompt :: "prompt_item list" where
  "one_prompt = [\<lparr>prompt_id = None, prompt_text = ''hi''\<rparr>]"

definition service_run :: "(clock \<times> engine_event) list" where
  "service_run = [(tick 0, Submit ''job-1'' one_prompt NORMAL None), (tick 0, RunWorker 0)]"

definition service_drain :: "(clock \<times> engine_event) list" where
  "service_drain = [(tick 1, ProviderReply 0 (Inl (InferenceError ''500'')) 0), (tick 1, RunWorker 0)]"

abbreviation default_engine :: engine where
  "default_engine \<equiv> new_engine (get_settings (\<lambda>_. None)) new_metrics"

lemmas service_exec = engine_exec service_run_def service_drain_def one_prompt_def get_settings_def get_int_def get_float_def

lemma service_run_value:
  "map_option (\<lambda>(e, G). (eng_accepting e, eng_workers e \<noteq> [])) (run_events id service_run (default_engine, \<lambda>_. None)) =
     Some (True, True)"
  by (simp add: service_exec)

lemma service_drain_value:
  "map_option (\<lambda>(e, G). (eng_workers e, map_option (\<lambda>j. (state j, total j)) (get_job e ''job-1'')))
     (run_events id (service_run @ [(tick 0, ShutdownBegin)] @ service_drain) (default_engine, \<lambda>_. None)) =
   Some ([], Some (COMPLETED, 1))"
  by (simp add: service_exec shutdown_begin_def)

theorem service_stops_gracefully_witness:
  "\<exists>e1 j turns. await_workers turns = Some e1 \<and> get_job (fst (service_stop (tick 9) turns)) ''job-1'' = Some j \<and>
     state j = COMPLETED \<and> completed j = 1 \<and> eng_workers (fst (service_stop (tick 9) turns)) = []"
proof -
  let ?rt = "\<lparr>root_handlers = [], root_level = 30\<rparr>"
  obtain e1 G1 j where all: "run_events id (service_run @ [(tick 0, ShutdownBegin)] @ service_drain) (default_engine, \<lambda>_. None) = Some (e1, G1)"
    and e1: "eng_workers e1 = []" and j: "get_job e1 ''job-1'' = Some j" "state j = COMPLETED" "total j = 1"
    using service_drain_value by (auto simp: map_option_eq_Some)
  obtain e G where e: "run_events id service_run (default_engine, \<lambda>_. None) = Some (e, G)"
    and acc: "eng_accepting e" "eng_workers e \<noteq> []"
    using service_run_value by (auto simp: map_option_eq_Some)
  have "run_events id service_drain (shutdown_begin e, G) = Some (e1, G1)"
    using all e by (auto elim!: run_events_split)
  then have "drains_to id (shutdown_begin e, G) e1"
    unfolding drains_to_def by (intro exI [of _ service_drain]) (simp add: service_drain_def)
  moreover have "drains_to id (shutdown_begin e, G) (shutdown_begin e)"
    unfolding drains_to_def by (intro exI [of _ "[]"]) simp
  ultimately have turns: "\<forall>e' \<in> set [shutdown_begin e, e1]. drains_to id (shutdown_begin e, G) e'" by simp
  have await: "await_workers [shutdown_begin e, e1] = Some e1"
    using acc e1 by (simp add: await_workers_def shutdown_begin_def)
  have level: "wanted_level None (\<lambda>_. None) = ''INFO''" by code_simp
  then have start: "service_start (\<lambda>_. None) (\<lambda>_. None) new_metrics ?rt =
      (Inr (default_engine, [ServiceStarted version]), \<lparr>root_handlers = [json_handler], root_level = 20\<rparr>)"
    by (simp add: service_start_result level_number_def)
  have ok: "live_settings_ok (get_settings (\<lambda>_. None))"
    using binary64.rnd_le [of 1 "4 / 5"]
    by (simp add: live_settings_ok_def gate_settings_ok_def get_settings_def get_int_def get_float_def)
  note stopped = service_stops_gracefully [OF start ok e acc(1) turns await, of "tick 9"]
  then have "\<forall>jid j. get_job e1 jid = Some j \<and> 0 < total j \<longrightarrow>
      get_job (fst (service_stop (tick 9) [shutdown_begin e, e1])) jid = Some j \<and>
      (state j = COMPLETED \<and> completed j = total j \<or> state j = CANCELLED)" by (elim conjE)
  from this [rule_format, of "''job-1''" j] j
  have "get_job (fst (service_stop (tick 9) [shutdown_begin e, e1])) ''job-1'' = Some j" "completed j = 1"
    by auto
  moreover have "eng_workers (fst (service_stop (tick 9) [shutdown_begin e, e1])) = []" using stopped by blast
  ultimately show ?thesis using await j(2) by blast
qed

subsection \<open>Request ids in the log\<close>

text \<open>
  The context each live worker runs in: tasks created by a step get the request id of that step, the others keep theirs.
\<close>

type_synonym contexts = "nat \<Rightarrow> string option"

definition spawn_contexts :: "string option \<Rightarrow> engine \<Rightarrow> engine \<Rightarrow> contexts \<Rightarrow> contexts" where
  "spawn_contexts rid e e' ctx w =
     (if dict_get (eng_workers e) w = None \<and> dict_get (eng_workers e') w \<noteq> None then rid else ctx w)"

text \<open>A run in which every event is handled in the context of a request, or of none.\<close>

fun run_in_context ::
  "(string \<Rightarrow> string) \<Rightarrow> (string option \<times> clock \<times> engine_event) list \<Rightarrow> engine \<times> contexts \<Rightarrow> (engine \<times> contexts) option" where
  "run_in_context sha256 [] ec = Some ec"
| "run_in_context sha256 ((rid, clk, ev) # evs) (e, ctx) =
     (case engine_step sha256 clk ev e of
        None \<Rightarrow> None
      | Some e' \<Rightarrow> run_in_context sha256 evs (e', spawn_contexts rid e e' ctx))"

definition two_prompts :: "prompt_item list" where
  "two_prompts = [\<lparr>prompt_id = None, prompt_text = ''a''\<rparr>, \<lparr>prompt_id = None, prompt_text = ''b''\<rparr>]"

text \<open>
  Two requests, each with a batch. The worker the first one spawned goes on with a prompt of the second batch, and the
  line it logs for that prompt carries the id of the first request.
\<close>

lemma worker_logs_under_spawning_request:
  "map_option (\<lambda>(e, ctx). (dict_get (eng_workers e) 0, ctx 0))
     (run_in_context id
       [(Some ''req-1'', tick 0, Submit ''job-1'' one_prompt NORMAL None), (None, tick 0, RunWorker 0),
        (Some ''req-2'', tick 0, Submit ''job-2'' two_prompts NORMAL None),
        (None, tick 1, ProviderReply 0 (Inl (InferenceError ''500'')) 0), (None, tick 1, RunWorker 0)]
       (default_engine, \<lambda>_. None)) =
   Some (Some (AwaitReply ''job-2'' \<lparr>item_seq = 0, item_id = ''prompt-1'', item_prompt = ''a''\<rparr> 1 1), Some ''req-1'')"
  by (simp add: service_exec two_prompts_def spawn_contexts_def)

end
