(* ===== verification/Prompt_Script.thy ===== *)
theory Prompt_Script
  imports Api_Laws
begin

text \<open>
  The generator of sample batches (\<^verbatim>\<open>scripts/generate_prompts.py\<close>): what it writes to its standard output for a
  command line, and that the file it writes is a batch the upload endpoint accepts.
\<close>

subsection \<open>The script\<close>

definition TOPICS :: "string list" where
  "TOPICS =
     [''summarize the French Revolution'', ''write a haiku about distributed systems'',
      ''explain backpressure in async pipelines'', ''translate '' @ [CHR 39] @ ''good morning'' @ [CHR 39] @ '' to Japanese'',
      ''describe the CAP theorem in one sentence'', ''list three uses for a worker pool'']"

text \<open>The number of prompts, or \<^term>\<open>None\<close> for the \<^verbatim>\<open>ValueError\<close> of \<^verbatim>\<open>int\<close>.\<close>

definition prompt_count :: "string list \<Rightarrow> int option" where
  "prompt_count argv = (if 1 < length argv then int_of_string (argv ! 1) else Some 1000)"

definition generated_entry :: "nat \<Rightarrow> json" where
  "generated_entry i =
     JObj [(''id'', JStr (''prompt-'' @ show_nat i)),
       (''prompt'', JStr (TOPICS ! (i mod length TOPICS) @ '' (#'' @ show_nat i @ '')''))]"

definition generate_prompts :: "string list \<Rightarrow> string option" where
  "generate_prompts argv =
     map_option (\<lambda>n. json_dump_indent 2 (JObj [(''prompts'', JList (map generated_entry [0..<nat n]))]))
       (prompt_count argv)"

subsection \<open>The batch it describes\<close>

definition generated_prompt :: "nat \<Rightarrow> prompt_item" where
  "generated_prompt i =
     \<lparr>prompt_id = Some (''prompt-'' @ show_nat i),
      prompt_text = TOPICS ! (i mod length TOPICS) @ '' (#'' @ show_nat i @ '')''\<rparr>"

lemma generated_entry_prompt: "generated_entry i = prompt_json (generated_prompt i)"
  by (simp add: generated_entry_def prompt_json_def generated_prompt_def json_of_opt_def)

lemma generated_batch_wf: "json_wf (JObj [(''prompts'', JList (map generated_entry [0..<n]))])"
  by (auto simp: generated_entry_def)

lemma generated_ids_distinct: "distinct (map (\<lambda>i. prompt_id (generated_prompt i)) [0..<n])"
  by (simp add: generated_prompt_def distinct_map inj_on_def)

lemma generated_batch_ok: "0 < n \<Longrightarrow> batch_request_ok \<lparr>batch_prompts = map generated_prompt [0..<n], batch_priority = prio\<rparr>"
  by (auto simp: batch_request_ok_def generated_prompt_def)

context json_reader
begin

lemma loads_generated:
  "generate_prompts argv = Some out \<Longrightarrow> prompt_count argv = Some n \<Longrightarrow>
     loads out = Inr (batch_json (map generated_prompt [0..<nat n]))"
  using loads_dump_indent [OF generated_batch_wf, of 2 "nat n"]
  by (auto simp: generate_prompts_def batch_json_def generated_entry_prompt comp_def)

end

text \<open>
  C28. The script and the service agree on the format: uploading what the script writes for \<open>n > 0\<close> prompts is
  submitting a request with exactly the prompts \<open>0\<close> to \<open>n - 1\<close>, with pairwise different ids, and the request is admissible;
  the file it writes for \<open>n \<le> 0\<close> is rejected with a 400 and changes nothing. (It holds for any JSON reader that
  reads back what \<^verbatim>\<open>json.dump\<close> writes.)
\<close>

theorem generated_batch_uploads:
  assumes "json_inverse loads" "generate_prompts argv = Some out" "prompt_count argv = Some n"
  shows "(0 < n \<longrightarrow>
      upload_batch loads sha256 clk uid out prio req e =
        submit_batch sha256 clk uid
          \<lparr>batch_prompts = map generated_prompt [0..<nat n], batch_priority = prio\<rparr> req e \<and>
      batch_request_ok \<lparr>batch_prompts = map generated_prompt [0..<nat n], batch_priority = prio\<rparr> \<and>
      distinct (map (\<lambda>i. prompt_id (generated_prompt i)) [0..<nat n])) \<and>
    (n \<le> 0 \<longrightarrow>
      upload_batch loads sha256 clk uid out prio req e =
        (Inl (HTTPException 400 ''Expected a non-empty JSON array of prompts (or {prompts: [...]}).'' []), e))"
proof -
  have read: "loads out = Inr (batch_json (map generated_prompt [0..<nat n]))"
    by (rule json_reader.loads_generated [OF json_inverse_reader [OF assms(1)] assms(2,3)])
  then show ?thesis
    using generated_batch_ok [of "nat n" prio] generated_ids_distinct
      upload_decoded [of "\<lparr>batch_prompts = map generated_prompt [0..<nat n], batch_priority = prio\<rparr>" loads out]
    by (auto simp: upload_batch_def upload_prompts_def upload_items_def batch_json_def)
qed

theorem generated_batch_uploads_witness:
  "\<exists>out. generate_prompts [''generate_prompts.py'', ''2''] = Some out \<and>
    upload_batch json_read id (tick 9) ''job-2'' out LOW example_request (new_engine example_settings new_metrics) =
      submit_batch id (tick 9) ''job-2'' \<lparr>batch_prompts = map generated_prompt [0..<2], batch_priority = LOW\<rparr>
        example_request (new_engine example_settings new_metrics)"
proof -
  have n: "prompt_count [''generate_prompts.py'', ''2''] = Some 2" by code_simp
  then obtain out where "generate_prompts [''generate_prompts.py'', ''2''] = Some out"
    by (simp add: generate_prompts_def)
  with generated_batch_uploads [OF json_inverse_read this n] show ?thesis by simp
qed

end
