(* ===== verification/Engine_Values.thy ===== *)
theory Engine_Values
  imports Engine_Facts
begin

text \<open>
  Laws of single jobs. Whatever a job's creation establishes and every assignment the engine makes to a job keeps, holds
  of every job in every state of a run. The locale \<^verbatim>\<open>job_law\<close> states this once for an arbitrary law, relative to
  what the readings of the clocks satisfy; its interpretation here is that every float a job stores
  is a binary64 number.
\<close>

definition all_jobs :: "(job \<Rightarrow> bool) \<Rightarrow> engine \<Rightarrow> bool" where
  "all_jobs P e \<longleftrightarrow> (\<forall>jid j. store_get (eng_store e) jid = Some j \<longrightarrow> P j)"

lemma all_jobs_mutate:
  assumes "all_jobs P e" "eng_store e' = store_mutate jid f (eng_store e)" "\<And>j. P j \<Longrightarrow> P (f j)"
  shows "all_jobs P e'"
  using assms by (auto simp: all_jobs_def dict_simps)

text \<open>The cost of a result: nothing for a failure, a rounded amount otherwise.\<close>

definition billed :: "inference_result \<Rightarrow> bool" where
  "billed r \<longleftrightarrow> res_cost_usd r = 0 \<or> (\<exists>c. res_cost_usd r = py_round c 8)"

locale job_law =
  fixes P :: "job \<Rightarrow> bool" and C :: "clock \<Rightarrow> bool"
  assumes submitted: "C clk \<Longrightarrow> P (submitted_job clk uid ps prio key fp)"
    and retried: "P j \<Longrightarrow> P (j\<lparr>retries := retries j + 1\<rparr>)"
    and failed_one: "P j \<Longrightarrow> P (j\<lparr>failed := failed j + 1\<rparr>)"
    and credited: "P j \<Longrightarrow> P (credit_success a b cost j)"
    and counted: "P j \<Longrightarrow> P (j\<lparr>completed := completed j + 1\<rparr>)"
    and filed: "P j \<Longrightarrow> billed r \<Longrightarrow> P (j\<lparr>results := dict_set k r (results j)\<rparr>)"
    and finished: "P j \<Longrightarrow> C clk \<Longrightarrow> P (finish_job st (clk_wall clk) j)"
    and each_reading: "C clk \<Longrightarrow> C (clk\<lparr>clk_wall := clk_wall_each clk jid\<rparr>)"
begin

lemma all_jobs_store: "eng_store e' = eng_store e \<Longrightarrow> all_jobs P e \<Longrightarrow> all_jobs P e'"
  by (simp add: all_jobs_def)

lemma finalize_law: "all_jobs P e \<Longrightarrow> C clk \<Longrightarrow> all_jobs P (finalize jid st clk e)"
  by (rule all_jobs_mutate [where f = "finish_job st (clk_wall clk)"]) (auto simp: frame finished)

lemma item_failed_law:
  assumes "all_jobs P e"
  shows "all_jobs P (snd (item_failed jid it exc e)) \<and> billed (fst (item_failed jid it exc e))"
proof
  have "eng_store (snd (item_failed jid it exc e)) = store_mutate jid (\<lambda>j. j\<lparr>failed := failed j + 1\<rparr>) (eng_store e)"
    by (simp add: item_failed_def Let_def)
  from all_jobs_mutate [OF assms this] show "all_jobs P (snd (item_failed jid it exc e))" by (simp add: failed_one)
qed (simp add: item_failed_def billed_def Let_def)

lemma item_returned_law:
  assumes "all_jobs P e"
  shows "all_jobs P (snd (item_returned jid it out n e)) \<and> billed (fst (item_returned jid it out n e))"
proof -
  let ?e = "e\<lparr>eng_limiter := record_success (eng_limiter e)\<rparr>"
  have "all_jobs P ?e" using assms by (simp add: all_jobs_def)
  note failed_case = item_failed_law [OF this]
  show ?thesis
  proof (cases "\<exists>a b. estimate_tokens (eng_settings e) (item_prompt it) = Inr a \<and> estimate_tokens (eng_settings e) out = Inr b")
    case True
    then obtain a b where "estimate_tokens (eng_settings e) (item_prompt it) = Inr a" "estimate_tokens (eng_settings e) out = Inr b"
      by blast
    note ab = this
    have "eng_store (snd (item_returned jid it out n e)) =
        store_mutate jid (credit_success a b (token_cost (eng_settings e) a b)) (eng_store e)"
      by (simp add: item_returned_def ab Let_def)
    from all_jobs_mutate [OF assms this] have "all_jobs P (snd (item_returned jid it out n e))" by (simp add: credited)
    moreover have "billed (fst (item_returned jid it out n e))"
      by (auto simp: item_returned_def ab billed_def Let_def)
    ultimately show ?thesis by blast
  next
    case False
    then show ?thesis using failed_case by (auto simp: item_returned_def Let_def split: sum.split)
  qed
qed

lemma settle_law:
  assumes "all_jobs P (snd re)" "billed (fst re)" "C clk"
  shows "all_jobs P (settle w jid it start clk re)"
proof -
  obtain r e where re: "re = (r, e)" by (cases re)
  define e1 where "e1 = with_job jid (\<lambda>j. j\<lparr>completed := completed j + 1\<rparr>) e"
  define e2 where "e2 = tally (m_inference_latency_update (his_observe (fl (clk_perf clk - start))) \<circ>
    m_prompts_completed_update ctr_inc1) e1"
  define e3 where "e3 = with_job jid (\<lambda>j. j\<lparr>results := dict_set (item_seq it) r (results j)\<rparr>) e2"
  have "all_jobs P e1" unfolding e1_def
    by (rule all_jobs_mutate [OF assms(1), where f = "\<lambda>j. j\<lparr>completed := completed j + 1\<rparr>"]) (auto simp: re counted)
  then have "all_jobs P e2" by (rule all_jobs_store [rotated]) (simp add: e2_def)
  then have e3: "all_jobs P e3"
    by (rule all_jobs_mutate [where f = "\<lambda>j. j\<lparr>results := dict_set (item_seq it) r (results j)\<rparr>"])
      (use assms(2) re in \<open>auto simp: e3_def filed\<close>)
  have "complete_item jid it start clk re = e3 \<or>
      complete_item jid it start clk re = refresh_gauges (finalize jid COMPLETED clk e3)"
    by (simp add: complete_item_def re e1_def e2_def e3_def Let_def split: option.split)
  then have "all_jobs P (complete_item jid it start clk re)"
    using e3 finalize_law [OF e3 assms(3), of jid COMPLETED] by (auto intro: all_jobs_store [rotated] simp: frame)
  then show ?thesis by (rule all_jobs_store [rotated]) (simp add: settle_def frame)
qed

lemma worker_reply_law:
  assumes "all_jobs P e" "C clk"
  shows "all_jobs P (worker_reply w jid it n start reply u clk e)"
proof (cases "retry_turn (eng_settings e) u n reply")
  case (Return out m)
  with item_returned_law [OF assms(1)] assms(2) show ?thesis by (simp add: worker_reply_def settle_law)
next
  case (Raise exc)
  with item_failed_law [OF assms(1)] assms(2) show ?thesis by (simp add: worker_reply_def settle_law)
next
  case (BackOff m delay)
  then have "eng_store (worker_reply w jid it n start reply u clk e) =
      store_mutate jid (\<lambda>j. j\<lparr>retries := retries j + 1\<rparr>) (eng_store e)"
    by (simp add: worker_reply_def set_phase_def on_retry_def Let_def)
  from all_jobs_mutate [OF assms(1) this] show ?thesis by (simp add: retried)
qed

lemma submit_law:
  assumes "all_jobs P e" "C clk"
  shows "all_jobs P (snd (submit_with_idempotency sha256 clk uid ps prio key e))"
proof (rule submit_effect [of sha256 clk uid ps prio key e])
  fix fp
  assume "snd (submit_with_idempotency sha256 clk uid ps prio key e) = register_job clk uid ps prio key fp e"
  with assms submitted [of clk uid ps prio key fp] show ?thesis
    by (auto simp: all_jobs_def frame dict_simps split: if_splits)
next
  fix f assume "snd (submit_with_idempotency sha256 clk uid ps prio key e) = tally f e"
  with assms(1) show ?thesis by (simp add: all_jobs_def)
qed

lemma interrupt_law: "all_jobs P e \<Longrightarrow> C clk \<Longrightarrow> all_jobs P (fold (interrupt_job clk) js e)"
  by (induction js arbitrary: e) (auto simp: interrupt_job_def finalize_law each_reading)

lemma step_law:
  assumes "engine_step sha256 clk ev e = Some e'" "all_jobs P e" "C clk"
  shows "all_jobs P e'"
proof (cases ev)
  case (Submit uid ps prio key)
  with assms submit_law [OF assms(2,3)] show ?thesis by (auto split: if_splits)
next
  case (Replay uid jid prio)
  with assms submit_law [OF assms(2,3)] replay_effect [of sha256 clk uid jid prio e] show ?thesis
    by (auto split: if_splits)
next
  case (Cancel jid)
  have "all_jobs P (finalize jid CANCELLED clk (e\<lparr>eng_scheduler := sc\<rparr>))" for sc
    using assms(2,3) by (intro finalize_law) (simp_all add: all_jobs_def)
  then show ?thesis
    using Cancel assms cancel_effect [of clk jid e] by (auto simp: all_jobs_def)
next
  case (ProviderReply w reply u)
  with assms worker_reply_law [OF assms(2,3)] show ?thesis by auto
next
  case InterruptJobs
  with assms interrupt_law [OF assms(2,3)] show ?thesis by (auto simp: interrupt_jobs_def split: if_splits)
qed (use assms worker_run_frame(1) in \<open>auto simp: all_jobs_def frame shutdown_begin_def split: if_splits\<close>)

lemma run_law:
  assumes "run_events sha256 evs (e, G) = Some (e', G')" "all_jobs P e" "\<forall>ce \<in> set evs. C (fst ce)"
  shows "all_jobs P e'"
  using assms
proof (induction evs arbitrary: e G)
  case (Cons ce evs)
  obtain clk ev e1 where ce: "ce = (clk, ev)" "engine_step sha256 clk ev e = Some e1"
    and rest: "run_events sha256 evs (e1, ledger_step ev e G) = Some (e', G')"
    using Cons.prems(1) by (cases ce) (auto split: option.splits)
  have "all_jobs P e1" using step_law [OF ce(2) Cons.prems(2)] Cons.prems(3) ce(1) by simp
  with Cons.IH [OF rest] Cons.prems(3) show ?case by simp
qed simp

end

subsection \<open>Floats\<close>

definition is_float :: "pyfloat \<Rightarrow> bool" where
  "is_float x \<longleftrightarrow> fl x = x"

definition clock_ok :: "clock \<Rightarrow> bool" where
  "clock_ok clk \<longleftrightarrow> is_float (clk_wall clk) \<and> is_float (clk_wall_next clk) \<and> (\<forall>jid. is_float (clk_wall_each clk jid))"

definition floats_ok :: "job \<Rightarrow> bool" where
  "floats_ok j \<longleftrightarrow>
     is_float (created_at j) \<and> is_float (cost_usd j) \<and> pred_option is_float (started_at j) \<and>
     pred_option is_float (finished_at j) \<and> (\<forall>k r. dict_get (results j) k = Some r \<longrightarrow> is_float (res_cost_usd r))"

lemma is_float_rounded [simp]: "is_float (fl x)" "is_float (py_round x n)" "is_float 0"
  by (simp_all add: is_float_def py_round_def fl_idem)

lemma billed_float: "billed r \<Longrightarrow> is_float (res_cost_usd r)"
  by (auto simp: billed_def)

interpretation stored_floats: job_law floats_ok clock_ok
proof unfold_locales
  fix j :: job and k r
  assume "floats_ok j" "billed r"
  then show "floats_ok (j\<lparr>results := dict_set k r (results j)\<rparr>)"
    by (auto simp: floats_ok_def dict_simps billed_float)
qed (auto simp: floats_ok_def clock_ok_def submitted_job_def new_job_def credit_success_def finish_job_def
    split: option.split)

lemma run_floats_ok:
  assumes "run_events sha256 evs (new_engine s m, \<lambda>_. None) = Some (e, G)" "\<forall>ce \<in> set evs. clock_ok (fst ce)"
    "get_job e jid = Some j"
  shows "floats_ok j"
proof -
  have "all_jobs floats_ok (new_engine s m)"
    by (simp add: all_jobs_def new_engine_def empty_store_def store_get_def Let_def)
  from stored_floats.run_law [OF assms(1) this assms(2)] assms(3) show ?thesis
    by (auto simp: all_jobs_def get_job_def)
qed

end
