(* ===== verification/Api_Wire.thy ===== *)
theory Api_Wire
  imports Api_Stream Engine_Values
begin

text \<open>
  What goes over the wire. The response models of \<^verbatim>\<open>models.py\<close> are schemas; the handlers' responses, as JSON values,
  conform to them in every run whose clocks return binary64 numbers, so validation never fails. The text of an event
  stream, read by a client that follows the \<^verbatim>\<open>text/event-stream\<close> format, gives back the events and their data.
\<close>

subsection \<open>Response models\<close>

datatype field_type =
    TStr
  | TInt
  | TFloat
  | TBool
  | TEnum "string list"
  | TOptional field_type
  | TList field_type
  | TModel "(string \<times> field_type) list"

text \<open>A value of a type; an object has exactly the fields of its model, in their order.\<close>

primrec conforms :: "field_type \<Rightarrow> json \<Rightarrow> bool" where
  "conforms TStr v = (case v of JStr _ \<Rightarrow> True | _ \<Rightarrow> False)"
| "conforms TInt v = (case v of JNum (PyInt _) \<Rightarrow> True | _ \<Rightarrow> False)"
| "conforms TFloat v = (case v of JNum (PyFlt x) \<Rightarrow> is_float x | _ \<Rightarrow> False)"
| "conforms TBool v = (case v of JBool _ \<Rightarrow> True | _ \<Rightarrow> False)"
| "conforms (TEnum cs) v = (case v of JStr s \<Rightarrow> s \<in> set cs | _ \<Rightarrow> False)"
| "conforms (TOptional t) v = (v = JNull \<or> conforms t v)"
| "conforms (TList t) v = (case v of JList xs \<Rightarrow> list_all (conforms t) xs | _ \<Rightarrow> False)"
| "conforms (TModel fs) v =
     (case v of
        JObj d \<Rightarrow> list_all2 (\<lambda>f p. fst f = fst p \<and> snd f (snd p)) (map (map_prod id conforms) fs) d
      | _ \<Rightarrow> False)"

definition JobState :: field_type where
  "JobState = TEnum (map job_state_value [PENDING, RUNNING, COMPLETED, FAILED, CANCELLED])"

definition Priority :: field_type where
  "Priority = TEnum (map priority_value [HIGH, NORMAL, LOW])"

definition SubmitResponse :: field_type where
  "SubmitResponse =
     TModel [(''job_id'', TStr), (''state'', JobState), (''total'', TInt), (''priority'', Priority),
       (''idempotent_reuse'', TBool), (''message'', TStr), (''status_url'', TStr), (''results_url'', TStr)]"

definition CostSummary :: field_type where
  "CostSummary =
     TModel [(''input_tokens'', TInt), (''output_tokens'', TInt), (''total_tokens'', TInt), (''estimated_cost_usd'', TFloat)]"

definition JobStatusResponse :: field_type where
  "JobStatusResponse =
     TModel [(''job_id'', TStr), (''state'', JobState), (''priority'', Priority), (''total'', TInt), (''completed'', TInt),
       (''succeeded'', TInt), (''failed'', TInt), (''pending'', TInt), (''retries'', TInt), (''progress'', TStr),
       (''percent'', TFloat), (''cost'', CostSummary), (''created_at'', TFloat), (''started_at'', TOptional TFloat),
       (''finished_at'', TOptional TFloat), (''duration_seconds'', TOptional TFloat)]"

definition InferenceResult :: field_type where
  "InferenceResult =
     TModel [(''id'', TStr), (''prompt'', TStr), (''success'', TBool), (''output'', TOptional TStr),
       (''error'', TOptional TStr), (''attempts'', TInt), (''input_tokens'', TInt), (''output_tokens'', TInt),
       (''cost_usd'', TFloat)]"

definition JobResultsResponse :: field_type where
  "JobResultsResponse =
     TModel [(''job_id'', TStr), (''state'', JobState), (''total'', TInt), (''succeeded'', TInt), (''failed'', TInt),
       (''returned'', TInt), (''limit'', TInt), (''offset'', TInt), (''results'', TList InferenceResult)]"

definition DeadLetterResponse :: field_type where
  "DeadLetterResponse =
     TModel [(''job_id'', TStr), (''failed'', TInt), (''returned'', TInt), (''items'', TList InferenceResult)]"

definition JobSummary :: field_type where
  "JobSummary =
     TModel [(''job_id'', TStr), (''state'', JobState), (''priority'', Priority), (''total'', TInt), (''completed'', TInt),
       (''succeeded'', TInt), (''failed'', TInt), (''created_at'', TFloat)]"

definition JobsListResponse :: field_type where
  "JobsListResponse =
     TModel [(''total'', TInt), (''returned'', TInt), (''limit'', TInt), (''offset'', TInt), (''jobs'', TList JobSummary)]"

lemmas response_models =
  SubmitResponse_def CostSummary_def JobStatusResponse_def InferenceResult_def JobResultsResponse_def
  DeadLetterResponse_def JobSummary_def JobsListResponse_def

subsection \<open>Responses as JSON values\<close>

definition json_int :: "int \<Rightarrow> json" where
  "json_int i = JNum (PyInt i)"

definition json_state :: "job_state \<Rightarrow> json" where
  "json_state st = JStr (job_state_value st)"

definition json_priority :: "priority \<Rightarrow> json" where
  "json_priority p = JStr (priority_value p)"

definition json_ack :: "submit_response \<Rightarrow> json" where
  "json_ack a =
     JObj [(''job_id'', JStr (ack_job_id a)), (''state'', json_state (ack_state a)), (''total'', json_int (ack_total a)),
       (''priority'', json_priority (ack_priority a)), (''idempotent_reuse'', JBool (ack_idempotent_reuse a)),
       (''message'', JStr (ack_message a)), (''status_url'', JStr (ack_status_url a)),
       (''results_url'', JStr (ack_results_url a))]"

definition json_result :: "inference_result \<Rightarrow> json" where
  "json_result r =
     JObj [(''id'', JStr (res_id r)), (''prompt'', JStr (res_prompt r)), (''success'', JBool (res_success r)),
       (''output'', json_of_opt (res_output r)), (''error'', json_of_opt (res_error r)),
       (''attempts'', json_int (res_attempts r)), (''input_tokens'', json_int (res_input_tokens r)),
       (''output_tokens'', json_int (res_output_tokens r)), (''cost_usd'', JNum (PyFlt (res_cost_usd r)))]"

definition json_job_results :: "job_results_response \<Rightarrow> json" where
  "json_job_results r =
     JObj [(''job_id'', JStr (jr_job_id r)), (''state'', json_state (jr_state r)), (''total'', json_int (jr_total r)),
       (''succeeded'', json_int (jr_succeeded r)), (''failed'', json_int (jr_failed r)),
       (''returned'', json_int (jr_returned r)), (''limit'', json_int (int (jr_limit r))),
       (''offset'', json_int (int (jr_offset r))), (''results'', JList (map json_result (jr_results r)))]"

definition json_dead_letter :: "dead_letter_response \<Rightarrow> json" where
  "json_dead_letter r =
     JObj [(''job_id'', JStr (dl_job_id r)), (''failed'', json_int (dl_failed r)), (''returned'', json_int (dl_returned r)),
       (''items'', JList (map json_result (dl_items r)))]"

definition json_summary :: "job_summary \<Rightarrow> json" where
  "json_summary s =
     JObj [(''job_id'', JStr (sum_job_id s)), (''state'', json_state (sum_state s)),
       (''priority'', json_priority (sum_priority s)), (''total'', json_int (sum_total s)),
       (''completed'', json_int (sum_completed s)), (''succeeded'', json_int (sum_succeeded s)),
       (''failed'', json_int (sum_failed s)), (''created_at'', JNum (PyFlt (sum_created_at s)))]"

definition json_jobs_list :: "jobs_list \<Rightarrow> json" where
  "json_jobs_list l =
     JObj [(''total'', json_int (list_total l)), (''returned'', json_int (list_returned l)),
       (''limit'', json_int (int (list_limit l))), (''offset'', json_int (int (list_offset l))),
       (''jobs'', JList (map json_summary (list_jobs_page l)))]"

subsection \<open>Conformance\<close>

lemma conforms_enums [simp]:
  "conforms JobState (json_state st)" "conforms JobState (JStr (job_state_value st))"
  "conforms Priority (json_priority p)" "conforms Priority (JStr (priority_value p))"
  by (cases st; simp add: JobState_def json_state_def; fail | cases p; simp add: Priority_def json_priority_def)+

lemma conforms_atoms [simp]:
  "conforms TStr (JStr s)" "conforms TBool (JBool b)" "conforms TInt (json_int i)" "conforms TInt (JNum (PyInt i))"
  "conforms TFloat (JNum (PyFlt y)) \<longleftrightarrow> is_float y" "conforms (TOptional TStr) (json_of_opt q)"
  "conforms (TOptional TFloat) (json_opt_float x) \<longleftrightarrow> pred_option is_float x"
  "conforms (TList t) (JList vs) \<longleftrightarrow> (\<forall>v \<in> set vs. conforms t v)"
  by (simp_all add: json_int_def json_of_opt_def json_opt_float_def list_all_iff split: option.split)

declare conforms.simps(1-7) [simp del]

lemma conforms_result [simp]: "conforms InferenceResult (json_result r) \<longleftrightarrow> is_float (res_cost_usd r)"
  by (simp add: InferenceResult_def json_result_def)

lemma conforms_snapshot:
  assumes "floats_ok j"
  shows "conforms JobStatusResponse (json_snapshot (snapshot now n j))"
  using assms
  by (auto simp: JobStatusResponse_def CostSummary_def json_snapshot_def json_cost_def snapshot_def cost_summary_def
      floats_ok_def Let_def split: option.split)

lemma conforms_summary: "floats_ok j \<Longrightarrow> conforms JobSummary (json_summary (summary_of j))"
  by (simp add: JobSummary_def json_summary_def summary_of_def floats_ok_def)

lemma conforms_ack: "conforms SubmitResponse (json_ack a)"
  by (simp add: SubmitResponse_def json_ack_def)

lemma ordered_results_float:
  assumes "floats_ok j" "r \<in> set (ordered_results j)"
  shows "is_float (res_cost_usd r)"
proof -
  obtain k where "k \<in> set (dict_keys (results j))" "r = the (dict_get (results j) k)"
    using assms(2) by (auto simp: ordered_results_def)
  then have "dict_get (results j) k = Some r" by (metis dict_get_None_keys option.collapse)
  with assms(1) show ?thesis by (auto simp: floats_ok_def)
qed

lemma page_of_mem: "x \<in> set (page_of offset limit xs) \<Longrightarrow> x \<in> set xs"
  by (auto simp: page_of_def dest: in_set_takeD in_set_dropD)

lemma conforms_job_results:
  assumes "\<And>j. get_job e jid = Some j \<Longrightarrow> floats_ok j"
  shows "job_results jid limit offset e = Inr r \<Longrightarrow> conforms JobResultsResponse (json_job_results r)"
    and "job_dead_letter jid limit offset e = Inr d \<Longrightarrow> conforms DeadLetterResponse (json_dead_letter d)"
  using assms ordered_results_float
  by (auto simp: job_results_def job_dead_letter_def JobResultsResponse_def DeadLetterResponse_def json_job_results_def
      json_dead_letter_def dead_letter_def Let_def dest!: page_of_mem split: option.splits)

lemma conforms_jobs_list:
  assumes "store_ok (eng_store e)" "\<And>jid j. get_job e jid = Some j \<Longrightarrow> floats_ok j"
  shows "conforms JobsListResponse (json_jobs_list (list_jobs st limit offset e))"
proof -
  have "floats_ok j" if "j \<in> set (page_of offset limit (selected_jobs st e))" for j
  proof -
    have "j \<in> set (store_all (eng_store e))"
      using page_of_mem [OF that] by (auto simp: selected_jobs_def Let_def split: option.splits if_splits)
    then show ?thesis using store_all_iff [OF assms(1), of j] assms(2) by (auto simp: get_job_def)
  qed
  then show ?thesis
    by (auto simp: JobsListResponse_def json_jobs_list_def list_jobs_def Let_def intro: conforms_summary)
qed

text \<open>
  The responses of the read endpoints and the acknowledgement have exactly the fields of their response models, and
  in every run in which the system clock returns binary64 numbers so are all their numbers declared as
  floats. (The arithmetic of the model does not overflow, so this bounds no magnitude.)
\<close>

lemma responses_conform_to_models:
  assumes "run_events sha256 evs (new_engine s m, \<lambda>_. None) = Some (e, G)" "gate_settings_ok s"
    "\<forall>ce \<in> set evs. clock_ok (fst ce)"
  shows "(job_status now jid e = Inr d \<longrightarrow> conforms JobStatusResponse (json_snapshot d)) \<and>
    (job_results jid limit offset e = Inr r \<longrightarrow> conforms JobResultsResponse (json_job_results r)) \<and>
    (job_dead_letter jid limit offset e = Inr l \<longrightarrow> conforms DeadLetterResponse (json_dead_letter l)) \<and>
    conforms JobsListResponse (json_jobs_list (list_jobs st limit offset e)) \<and>
    (fst (submit_batch sha256 clk uid payload req e) = Inr a \<longrightarrow> conforms SubmitResponse (json_ack a))"
proof -
  note floats = run_floats_ok [OF assms(1,3)]
  have "store_ok (eng_store e)"
    using book_okD(1) reachable_book [OF run_events_reachable [OF assms(1) reachable.start] assms(2)] by blast
  then have "conforms JobsListResponse (json_jobs_list (list_jobs st limit offset e))"
    by (rule conforms_jobs_list) (rule floats)
  moreover have "job_results jid limit offset e = Inr r \<longrightarrow> conforms JobResultsResponse (json_job_results r)"
    "job_dead_letter jid limit offset e = Inr l \<longrightarrow> conforms DeadLetterResponse (json_dead_letter l)"
    using conforms_job_results [of e jid] floats by blast+
  moreover have "job_status now jid e = Inr d \<longrightarrow> conforms JobStatusResponse (json_snapshot d)"
    using floats conforms_snapshot by (auto simp: job_status_def status_of_def split: option.splits)
  ultimately show ?thesis by (simp add: conforms_ack)
qed

lemma example_clocks_ok: "\<forall>ce \<in> set (example_start @ example_finish). clock_ok (fst ce)"
  by (simp add: example_start_def example_finish_def clock_ok_def tick_def is_float_def)

subsection \<open>A client of the event stream\<close>

fun split_lines :: "string \<Rightarrow> string list" where
  "split_lines [] = [[]]"
| "split_lines (c # s) =
     (if c = CHR 10 then [] # split_lines s
      else (case split_lines s of [] \<Rightarrow> [[c]] | l # ls \<Rightarrow> (c # l) # ls))"

definition field_value :: "string \<Rightarrow> string" where
  "field_value s = (case s of [] \<Rightarrow> [] | c # t \<Rightarrow> if c = CHR '' '' then t else s)"

text \<open>
  The lines of an event are collected until a blank line dispatches it, under its event name and with its
  data lines joined; an event without data is dropped, other fields are ignored.
\<close>

fun dispatch :: "string \<Rightarrow> string list \<Rightarrow> string list \<Rightarrow> (string \<times> string) list" where
  "dispatch name data [] = []"
| "dispatch name data (l # ls) =
     (if l = [] then (if data = [] then dispatch [] [] ls else (name, join_with [CHR 10] data) # dispatch [] [] ls)
      else if take 6 l = ''event:'' then dispatch (field_value (drop 6 l)) data ls
      else if take 5 l = ''data:'' then dispatch name (data @ [field_value (drop 5 l)]) ls
      else dispatch name data ls)"

definition event_source :: "string \<Rightarrow> (string \<times> string) list" where
  "event_source s = dispatch [] [] (split_lines s)"

lemma split_lines_line: "CHR 10 \<notin> set l \<Longrightarrow> split_lines (l @ CHR 10 # s) = l # split_lines s"
  by (induction l) auto

lemma event_source_frame:
  assumes "CHR 10 \<notin> set (sse_name ev)" "CHR 10 \<notin> set (json_dumps (json_snapshot (sse_data ev)))"
  shows "event_source (sse ev @ s) = (sse_name ev, json_dumps (json_snapshot (sse_data ev))) # event_source s"
proof -
  let ?d = "json_dumps (json_snapshot (sse_data ev))"
  have "split_lines (sse ev @ s) = (''event: '' @ sse_name ev) # (''data: '' @ ?d) # [] # split_lines s"
    using assms split_lines_line [of "''event: '' @ sse_name ev"] split_lines_line [of "''data: '' @ ?d"]
      split_lines_line [of "[]"]
    by (simp add: sse_def)
  then show ?thesis by (simp add: event_source_def field_value_def)
qed

lemma event_source_stream:
  assumes "\<And>ev. ev \<in> set evs \<Longrightarrow> CHR 10 \<notin> set (sse_name ev) \<and> CHR 10 \<notin> set (json_dumps (json_snapshot (sse_data ev)))"
  shows "event_source (concat (map sse evs)) = map (\<lambda>ev. (sse_name ev, json_dumps (json_snapshot (sse_data ev)))) evs"
  using assms
proof (induction evs)
  case Nil
  then show ?case by (simp add: event_source_def)
next
  case (Cons ev evs)
  then show ?case using event_source_frame [of ev "concat (map sse evs)"] by simp
qed

lemma json_opt_float_wf [simp]: "json_wf (json_opt_float x) \<longleftrightarrow> pred_option is_float x"
  by (simp add: json_opt_float_def is_float_def split: option.split)

lemma snapshot_wf: "conforms JobStatusResponse (json_snapshot d) \<Longrightarrow> json_wf (json_snapshot d)"
  by (simp add: JobStatusResponse_def CostSummary_def json_snapshot_def json_cost_def) (simp add: is_float_def)

lemma stream_turn_names: "ev \<in> set (fst (stream_turn jid seen v)) \<Longrightarrow> CHR 10 \<notin> set (sse_name ev)"
proof -
  have "CHR 10 \<notin> set (job_state_value st)" for st by (cases st) simp_all
  then show "ev \<in> set (fst (stream_turn jid seen v)) \<Longrightarrow> CHR 10 \<notin> set (sse_name ev)"
    by (auto simp: stream_turn_def Let_def split: if_splits)
qed

lemma job_stream_names: "ev \<in> set (job_stream jid seen vs) \<Longrightarrow> CHR 10 \<notin> set (sse_name ev)"
proof (induction vs arbitrary: seen)
  case (Cons v vs)
  then show ?case
    using stream_turn_names [of ev jid seen v] by (cases "stream_turn jid seen v") (auto split: option.splits)
qed simp

lemma job_events_names: "job_events jid e now0 e0 vs = Inr evs \<Longrightarrow> ev \<in> set evs \<Longrightarrow> CHR 10 \<notin> set (sse_name ev)"
  by (auto simp: job_events_def split: option.splits dest: job_stream_names)

text \<open>
  C25. The event stream decodes: a client that splits the response text into lines and dispatches events at blank lines
  gets exactly the events the generator yielded, in order, each under its name, and decoding the data of
  an event as JSON gives the snapshot it was made from, to the last digit of its floats. No snapshot can break the framing,
  because its text is a single line.
\<close>

theorem event_stream_decodes:
  assumes "json_inverse loads" "job_events jid e now0 e0 vs = Inr evs"
    "\<forall>ev \<in> set evs. conforms JobStatusResponse (json_snapshot (sse_data ev))"
  shows "map (map_prod id loads) (event_source (concat (map sse evs))) =
    map (\<lambda>ev. (sse_name ev, Inr (json_snapshot (sse_data ev)))) evs"
proof -
  have wf: "json_wf (json_snapshot (sse_data ev))" if "ev \<in> set evs" for ev
    using that assms(3) snapshot_wf by blast
  then have "event_source (concat (map sse evs)) = map (\<lambda>ev. (sse_name ev, json_dumps (json_snapshot (sse_data ev)))) evs"
    using job_events_names [OF assms(2)] json_dumps_printable printable_no_newline by (intro event_source_stream) blast
  then show ?thesis
    using wf json_reader.loads_dumps [OF json_inverse_reader [OF assms(1)]] by simp
qed

theorem event_stream_decodes_witness:
  "\<exists>e G evs. example_run example_start = Some (e, G) \<and> job_events ''job-1'' e 1 e [] = Inr evs \<and> length evs = 1 \<and>
     map (map_prod id json_read) (event_source (concat (map sse evs))) =
       map (\<lambda>ev. (sse_name ev, Inr (json_snapshot (sse_data ev)))) evs"
proof -
  obtain e G j where run: "example_run example_start = Some (e, G)" and j: "get_job e ''job-1'' = Some j"
    using example_mid by metis
  obtain ev where evs: "job_events ''job-1'' e 1 e [] = Inr [ev]" "sse_data ev = status_of 1 e j"
    using j by (simp add: job_events_def)
  have "\<forall>ce \<in> set example_start. clock_ok (fst ce)" using example_clocks_ok by simp
  then have "floats_ok j" using run_floats_ok [OF run [unfolded example_run_def] _ j] by blast
  then have "\<forall>ev \<in> set [ev]. conforms JobStatusResponse (json_snapshot (sse_data ev))"
    by (simp add: evs(2) status_of_def conforms_snapshot)
  note decoded = event_stream_decodes [OF json_inverse_read evs(1) this]
  show ?thesis
    by (rule exI [of _ e], rule exI [of _ G], rule exI [of _ "[ev]"]) (use run evs(1) decoded in simp)
qed

end
