(* ===== verification/Lifecycle.thy ===== *)
theory Lifecycle
  imports Example_Run
begin

text \<open>
  An abstract specification of the service, without queues, workers, permits, retries or clocks: jobs are
  created with the items that were asked for, results are filed one at a time under a free sequence
  number and must belong to the item of that number, a job completes only when all its results are
  there, and a running job may be cancelled. Every step of the engine is a sequence of such steps.
\<close>

record spec_job =
  sp_state :: job_state
  sp_items :: "work_item list"
  sp_results :: "nat \<rightharpoonup> inference_result"

type_synonym spec = "string \<rightharpoonup> spec_job"

definition belongs :: "work_item list \<Rightarrow> nat \<Rightarrow> inference_result \<Rightarrow> bool" where
  "belongs its k r \<longleftrightarrow> k < length its \<and> res_id r = item_id (its ! k) \<and> res_prompt r = item_prompt (its ! k)"

inductive spec_step :: "spec \<Rightarrow> spec \<Rightarrow> bool" where
  create: "S jid = None \<Longrightarrow> spec_step S (S(jid \<mapsto> \<lparr>sp_state = RUNNING, sp_items = its, sp_results = Map.empty\<rparr>))"
| file_one: "S jid = Some q \<Longrightarrow> sp_state q \<noteq> COMPLETED \<Longrightarrow> sp_results q k = None \<Longrightarrow> belongs (sp_items q) k r \<Longrightarrow>
    spec_step S (S(jid \<mapsto> q\<lparr>sp_results := (sp_results q)(k \<mapsto> r)\<rparr>))"
| complete: "S jid = Some q \<Longrightarrow> sp_state q = RUNNING \<Longrightarrow> dom (sp_results q) = {..<length (sp_items q)} \<Longrightarrow>
    spec_step S (S(jid \<mapsto> q\<lparr>sp_state := COMPLETED\<rparr>))"
| cancel_running: "S jid = Some q \<Longrightarrow> sp_state q = RUNNING \<Longrightarrow> spec_step S (S(jid \<mapsto> q\<lparr>sp_state := CANCELLED\<rparr>))"

abbreviation spec_steps :: "spec \<Rightarrow> spec \<Rightarrow> bool" where
  "spec_steps \<equiv> spec_step\<^sup>*\<^sup>*"

text \<open>The abstraction: what the store and the ledger say of each job.\<close>

definition abs_job :: "ledger \<Rightarrow> job \<Rightarrow> spec_job" where
  "abs_job G j = \<lparr>sp_state = state j, sp_items = the (G (job_id j)), sp_results = dict_get (results j)\<rparr>"

definition abs_engine :: "engine \<times> ledger \<Rightarrow> spec" where
  "abs_engine eG = (\<lambda>jid. map_option (abs_job (snd eG)) (get_job (fst eG) jid))"

subsection \<open>One job\<close>

text \<open>What the invariants give of a single abstract job, and how one may change.\<close>

definition spec_job_ok :: "spec_job \<Rightarrow> bool" where
  "spec_job_ok q \<longleftrightarrow> sp_state q \<in> {RUNNING, COMPLETED, CANCELLED} \<and> finite (dom (sp_results q)) \<and>
     (\<forall>k r. sp_results q k = Some r \<longrightarrow> belongs (sp_items q) k r) \<and>
     (sp_state q = COMPLETED \<longrightarrow> dom (sp_results q) = {..<length (sp_items q)})"

definition spec_job_le :: "spec_job \<Rightarrow> spec_job \<Rightarrow> bool" where
  "spec_job_le q q' \<longleftrightarrow> sp_items q' = sp_items q \<and> sp_results q \<subseteq>\<^sub>m sp_results q' \<and>
     (sp_state q = RUNNING \<or> sp_state q' = sp_state q)"

lemma spec_files:
  assumes "S jid = Some q" "sp_state q \<noteq> COMPLETED" "finite (dom R)" "sp_results q \<subseteq>\<^sub>m R"
    "\<forall>k r. R k = Some r \<longrightarrow> belongs (sp_items q) k r"
  shows "spec_steps S (S(jid \<mapsto> q\<lparr>sp_results := R\<rparr>))"
  using assms
proof (induction "card (dom R - dom (sp_results q))" arbitrary: S q)
  case 0
  then have "dom R \<subseteq> dom (sp_results q)" by simp
  then have "R = sp_results q"
    using 0 by (intro ext) (metis (no_types, lifting) domIff map_le_def option.exhaust subset_iff)
  then have "q\<lparr>sp_results := R\<rparr> = q" by simp
  with 0 show ?case by (simp add: map_upd_triv)
next
  case (Suc n)
  then have "dom R - dom (sp_results q) \<noteq> {}" by (metis card.empty nat.distinct(1))
  then obtain k r where k: "R k = Some r" "sp_results q k = None" by blast
  let ?q = "q\<lparr>sp_results := (sp_results q)(k \<mapsto> r)\<rparr>" and ?S = "S(jid \<mapsto> q\<lparr>sp_results := (sp_results q)(k \<mapsto> r)\<rparr>)"
  have one: "spec_step S ?S" using Suc.prems k by (intro spec_step.file_one) auto
  have "dom R - dom (sp_results ?q) = (dom R - dom (sp_results q)) - {k}" by auto
  then have "n = card (dom R - dom (sp_results ?q))"
    using Suc.hyps(2) Suc.prems(3) k by (simp add: card_Diff_singleton_if domIff)
  moreover have "sp_results ?q \<subseteq>\<^sub>m R" using Suc.prems(4) k by (auto simp: map_le_def)
  ultimately have "spec_steps ?S (?S(jid \<mapsto> ?q\<lparr>sp_results := R\<rparr>))" using Suc.prems by (intro Suc.hyps(1)) auto
  with one show ?case by (simp add: converse_rtranclp_into_rtranclp)
qed

lemma spec_job_steps:
  assumes "S jid = Some q" "spec_job_ok q" "spec_job_ok q'" "spec_job_le q q'"
  shows "spec_steps S (S(jid \<mapsto> q'))"
proof -
  let ?q = "q\<lparr>sp_results := sp_results q'\<rparr>"
  have q': "q' = ?q\<lparr>sp_state := sp_state q'\<rparr>" using assms(4) by (cases q; cases q') (simp add: spec_job_le_def)
  have fill: "spec_steps S (S(jid \<mapsto> ?q))"
  proof (cases "sp_state q = COMPLETED")
    case False
    then show ?thesis using assms by (intro spec_files) (auto simp: spec_job_le_def spec_job_ok_def)
  next
    case True
    have "dom (sp_results q') \<subseteq> dom (sp_results q)"
      using assms True by (auto simp: spec_job_ok_def spec_job_le_def belongs_def)
    then have "sp_results q' = sp_results q"
      using assms(4) unfolding spec_job_le_def by (metis map_le_antisym map_le_def domIff subset_iff)
    then show ?thesis using assms(1) by (simp add: map_upd_triv)
  qed
  have "spec_step\<^sup>=\<^sup>= (S(jid \<mapsto> ?q)) ((S(jid \<mapsto> ?q))(jid \<mapsto> ?q\<lparr>sp_state := sp_state q'\<rparr>))"
  proof (cases "sp_state q' = sp_state q")
    case True
    then have "?q\<lparr>sp_state := sp_state q'\<rparr> = ?q" by simp
    then show ?thesis by simp
  next
    case False
    then have "sp_state q = RUNNING" "sp_state q' \<in> {COMPLETED, CANCELLED}"
      using assms(3,4) by (auto simp: spec_job_le_def spec_job_ok_def)
    then show ?thesis
      using assms(3,4) spec_step.complete [of "S(jid \<mapsto> ?q)" jid ?q] spec_step.cancel_running [of "S(jid \<mapsto> ?q)" jid ?q]
      by (auto simp: spec_job_ok_def spec_job_le_def)
  qed
  then have "spec_steps (S(jid \<mapsto> ?q)) (S(jid \<mapsto> q'))" using q' by auto
  with fill show ?thesis by simp
qed

subsection \<open>The whole engine\<close>

lemma spec_map_steps:
  assumes "finite (dom T)" "dom S \<subseteq> dom T" "\<And>jid q'. T jid = Some q' \<Longrightarrow> spec_job_ok q'"
    "\<And>jid q q'. S jid = Some q \<Longrightarrow> T jid = Some q' \<Longrightarrow> spec_job_ok q \<and> spec_job_le q q'"
  shows "spec_steps S T"
proof -
  have "spec_steps S (\<lambda>k. if k \<in> A then T k else S k)" if "finite A" "A \<subseteq> dom T" for A
    using that
  proof (induction A)
    case (insert jid A)
    let ?U = "\<lambda>k. if k \<in> A then T k else S k"
    obtain q' where q': "T jid = Some q'" using insert.prems by auto
    have U: "?U jid = S jid" using insert.hyps(2) by simp
    have "spec_steps ?U (?U(jid \<mapsto> q'))"
    proof (cases "S jid")
      case None
      let ?q = "\<lparr>sp_state = RUNNING, sp_items = sp_items q', sp_results = Map.empty\<rparr>"
      have "spec_step ?U (?U(jid \<mapsto> ?q))" using U None by (intro spec_step.create) simp
      moreover have "spec_steps (?U(jid \<mapsto> ?q)) ((?U(jid \<mapsto> ?q))(jid \<mapsto> q'))"
        using assms(3) [OF q'] spec_job_steps [of "?U(jid \<mapsto> ?q)" jid ?q q']
        by (simp add: spec_job_ok_def spec_job_le_def)
      ultimately show ?thesis by (simp add: converse_rtranclp_into_rtranclp)
    next
      case (Some q)
      then show ?thesis using U assms(3) [OF q'] assms(4) [OF Some q'] spec_job_steps [of ?U jid q q'] by simp
    qed
    moreover have "?U(jid \<mapsto> q') = (\<lambda>k. if k \<in> insert jid A then T k else S k)" using q' by auto
    ultimately show ?case using insert by simp
  qed simp
  from this [OF assms(1) order_refl] have "spec_steps S (\<lambda>k. if k \<in> dom T then T k else S k)" .
  moreover have "(\<lambda>k. if k \<in> dom T then T k else S k) = T" using assms(2) by (auto simp: fun_eq_iff domIff)
  ultimately show ?thesis by simp
qed

lemma abs_job_ok:
  assumes "reachable sha256 s e G" "gate_settings_ok s" "get_job e jid = Some j"
  shows "spec_job_ok (abs_job G j)" "job_id j = jid"
proof -
  have "store_ok (eng_store e)" using book_okD(1) reachable_book [OF assms(1,2)] by blast
  then show id: "job_id j = jid" using store_ok_ids assms(3) by (auto simp: get_job_def)
  obtain its where its: "G jid = Some its" and inv: "job_inv its j" using reachable_job [OF assms] by blast
  have "dom (dict_get (results j)) = {..<length its}" if "state j = COMPLETED"
    using completed_keys [OF inv that] by (simp add: dom_map_of_conv_image_fst atLeast0LessThan)
  then show "spec_job_ok (abs_job G j)"
    using inv its id by (auto simp: spec_job_ok_def abs_job_def belongs_def job_inv_def finite_dom_map_of dest: map_of_SomeD)
qed

lemma ledger_keeps:
  assumes "get_job e jid = Some j" "engine_step sha256 clk ev e = Some e'"
  shows "ledger_step ev e G jid = G jid"
  using assms by (cases ev) (auto simp: fresh_id_def split: if_splits option.splits)

lemma abs_engine_finite: "finite (dom (abs_engine (e, G)))"
  by (simp add: abs_engine_def get_job_def store_get_def finite_dom_map_of dom_map_option_comp [unfolded comp_def])

text \<open>
  C4. Refinement: every step of the engine, whatever the event, the schedule and the provider's reply, is a
  sequence of steps of the abstract specification on what the store says: create, file one fitting
  result under a free number, complete when full, cancel while running. Nothing else can happen to jobs.
\<close>

theorem engine_refines_lifecycle:
  assumes "reachable sha256 s e G" "gate_settings_ok s" "engine_step sha256 clk ev e = Some e'"
  shows "spec_steps (abs_engine (e, G)) (abs_engine (e', ledger_step ev e G))"
proof (rule spec_map_steps)
  let ?G = "ledger_step ev e G"
  have reach: "reachable sha256 s e' ?G" using reachable.step [OF assms(1,3)] .
  have evo: "store_evolves (eng_store e) (eng_store e')"
    using engine_step_evolves [OF reachable_pool [OF assms(1,2)] reachable_book [OF assms(1,2)] assms(3)] .
  show "finite (dom (abs_engine (e', ?G)))" by (rule abs_engine_finite)
  show "dom (abs_engine (e, G)) \<subseteq> dom (abs_engine (e', ?G))"
    using evo unfolding store_evolves_def abs_engine_def get_job_def by (force simp: dom_def)
  show "spec_job_ok q'" if "abs_engine (e', ?G) jid = Some q'" for jid q'
    using that abs_job_ok(1) [OF reach assms(2)] by (auto simp: abs_engine_def)
  show "spec_job_ok q \<and> spec_job_le q q'" if qs: "abs_engine (e, G) jid = Some q" "abs_engine (e', ?G) jid = Some q'" for jid q q'
  proof -
    obtain j where j: "get_job e jid = Some j" "q = abs_job G j" using qs(1) by (auto simp: abs_engine_def)
    obtain j' where j': "get_job e' jid = Some j'" "q' = abs_job ?G j'" using qs(2) by (auto simp: abs_engine_def)
    have ev: "job_evolves j j'" using evo j(1) j'(1) unfolding store_evolves_def get_job_def by (metis option.inject)
    note ok = abs_job_ok [OF assms(1,2) j(1)] and ok' = abs_job_ok [OF reach assms(2) j'(1)]
    have "terminal (state j) \<or> state j = RUNNING" using ok(1) by (auto simp: spec_job_ok_def abs_job_def terminal_def)
    then have "spec_job_le q q'"
      using ev ok(2) ok'(2) ledger_keeps [OF j(1) assms(3), of G]
      by (auto simp: spec_job_le_def abs_job_def job_evolves_def map_le_def j(2) j'(2))
    with ok(1) j(2) show ?thesis by simp
  qed
qed

theorem engine_refines_lifecycle_witness:
  "\<exists>e G e'. reachable id example_settings e G \<and>
     engine_step id (tick 3) (ProviderReply 1 (Inr ''ok'') 0) e = Some e' \<and>
     spec_steps (abs_engine (e, G)) (abs_engine (e', G))"
proof -
  obtain e G where ex: "reachable id example_settings e G" "dict_get (eng_workers e) 1 =
      Some (AwaitReply ''job-1'' \<lparr>item_seq = 1, item_id = ''b'', item_prompt = ''world''\<rparr> 1 0)"
    using example_mid by (metis map_of_Cons_code(2) one_neq_zero)
  then obtain e' where st: "engine_step id (tick 3) (ProviderReply 1 (Inr ''ok'') 0) e = Some e'" by simp
  from engine_refines_lifecycle [OF ex(1) example_settings_ok(2) st] ex(1) st show ?thesis
    unfolding ledger_step.simps by blast
qed

end
