(* ===== verification/Client_Session.thy ===== *)
theory Client_Session
  imports Api_Laws Lifecycle
begin

text \<open>
  A client's session over HTTP, from the submission of a batch to the last page of its results, with anything going on in
  between: other clients, workers, replies of the provider.
\<close>

text \<open>The ledger entry of a stored job never changes.\<close>

lemma run_keeps_ledger:
  assumes "run_events sha256 evs (e, G) = Some (e', G')" "reachable sha256 s e G" "gate_settings_ok s" "get_job e jid \<noteq> None"
  shows "G' jid = G jid"
  using assms
proof (induction evs arbitrary: e G)
  case (Cons ce evs)
  obtain clk ev e1 where st: "engine_step sha256 clk ev e = Some e1"
    and rest: "run_events sha256 evs (e1, ledger_step ev e G) = Some (e', G')"
    using Cons.prems(1) by (cases ce) (auto split: option.splits)
  obtain j where j: "get_job e jid = Some j" using Cons.prems(4) by blast
  have "store_evolves (eng_store e) (eng_store e1)"
    using engine_step_evolves [OF reachable_pool reachable_book st] Cons.prems(2,3) by blast
  from this j have "get_job e1 jid \<noteq> None" by (rule store_evolves_job) simp
  with Cons.IH [OF rest reachable.step [OF Cons.prems(2) st] Cons.prems(3)] ledger_keeps [OF j st, of G] show ?case by simp
qed simp

text \<open>An acknowledged new batch: the engine after it, with the job in the store and the ledger.\<close>

lemma acknowledged_batch:
  assumes "reachable sha256 s e G" "gate_settings_ok s" "fresh_id uid e"
    "submit_batch sha256 clk uid payload req e = (Inr a, e1)" "\<not> ack_idempotent_reuse a"
  defines "G1 \<equiv> ledger_step (Submit uid (batch_prompts payload) (batch_priority payload) (req_idempotency_key req)) e G"
  shows "reachable sha256 s e1 G1 \<and> G1 uid = Some (work_items (batch_prompts payload)) \<and> ack_job_id a = uid \<and>
    (\<exists>j. get_job e1 uid = Some j \<and> total j = int (length (batch_prompts payload)))"
proof -
  let ?ps = "batch_prompts payload" and ?prio = "batch_priority payload" and ?key = "req_idempotency_key req"
  obtain jid where sub: "submit_with_idempotency sha256 clk uid ?ps ?prio ?key e = (Inr (jid, False), e1)"
    and a: "a = ack (the (get_job e1 jid)) req False"
    using assms(4,5) by (cases "submit_with_idempotency sha256 clk uid ?ps ?prio ?key e")
      (auto simp: submit_batch_def answer_submission_def ack_def Let_def split: sum.splits submit_error.splits)
  obtain j where j: "jid = uid" "get_job e1 uid = Some j" "total j = int (length ?ps)"
    using submit_cases [OF assms(1-3) sub] by auto
  have "job_id j = uid" using submit_stored_ids [OF assms(1-3) sub j(2)] .
  moreover have "reachable sha256 s e1 G1"
    using reachable.step [OF assms(1), of clk "Submit uid ?ps ?prio ?key" e1] assms(3) sub by (simp add: G1_def)
  ultimately show ?thesis using a j by (simp add: G1_def ack_def Let_def)
qed

text \<open>
  C3. From request to results: once \<^verbatim>\<open>POST /batches\<close> has acknowledged a new batch, then whatever happens afterwards, the status
  endpoint knows the job under the acknowledged id, with as many prompts as were sent; when the
  workers have nothing left to do it reports the job completed or cancelled; and when it reports
  it completed, the pages of the results endpoint join to one result per prompt of the request, in
  its order, each with the prompt's text and id.
\<close>

theorem batch_request_to_results:
  assumes start: "reachable sha256 s e G" "live_settings_ok s" "fresh_id uid e" "batch_request_ok payload"
    and ack: "submit_batch sha256 clk uid payload req e = (Inr a, e1)" "\<not> ack_idempotent_reuse a"
    and run: "run_events sha256 evs
      (e1, ledger_step (Submit uid (batch_prompts payload) (batch_priority payload) (req_idempotency_key req)) e G) = Some (e2, G2)"
    and pages: "page_query_ok 1000 limit" "length (batch_prompts payload) \<le> n * limit"
  shows "\<exists>d. job_status now (ack_job_id a) e2 = Inr d \<and> snap_total d = int (length (batch_prompts payload)) \<and>
    (eng_accepting e2 \<and> (\<forall>w ph. dict_get (eng_workers e2) w = Some ph \<longrightarrow> ph = Parked) \<longrightarrow>
       snap_state d \<in> {COMPLETED, CANCELLED}) \<and>
    (snap_state d = COMPLETED \<longrightarrow>
       (let rs = concat (map (\<lambda>k. results_page (ack_job_id a) limit (k * limit) e2) [0..<n]) in
          map res_prompt rs = map prompt_text (batch_prompts payload) \<and>
          map res_id rs = map item_id (work_items (batch_prompts payload))))"
proof -
  let ?ps = "batch_prompts payload"
  let ?G = "ledger_step (Submit uid ?ps (batch_priority payload) (req_idempotency_key req)) e G"
  have gate: "gate_settings_ok s" using start(2) by (simp add: live_settings_ok_def)
  obtain j1 where e1: "reachable sha256 s e1 ?G" "?G uid = Some (work_items ?ps)" "ack_job_id a = uid"
    and j1: "get_job e1 uid = Some j1" "total j1 = int (length ?ps)"
    using acknowledged_batch [OF start(1) gate start(3) ack] by blast
  have e2: "reachable sha256 s e2 G2" and evo: "store_evolves (eng_store e1) (eng_store e2)"
    using run_evolves [OF run e1(1) gate] by blast+
  obtain j where j: "get_job e2 uid = Some j" "job_evolves j1 j" using evo j1(1) by (rule store_evolves_job)
  have total: "total j = int (length ?ps)" "0 < total j"
    using j(2) j1(2) start(4) by (auto simp: job_evolves_def batch_request_ok_def)
  have G2: "G2 uid = Some (work_items ?ps)" using run_keeps_ledger [OF run e1(1) gate, of uid] j1(1) e1(2) by simp
  have ended: "state j \<in> {COMPLETED, CANCELLED}" if "eng_accepting e2" "quiescent e2"
    using quiescent_jobs [OF reachable_book [OF e2 gate] reachable_live [OF e2 start(2)] that(2,1) j(1) total(2)] by auto
  have "map res_prompt (ordered_results j) = map prompt_text ?ps \<and> map res_id (ordered_results j) = map item_id (work_items ?ps)"
    if "state j = COMPLETED"
  proof -
    have "map (\<lambda>r. (res_id r, res_prompt r)) (ordered_results j) = map (\<lambda>it. (item_id it, item_prompt it)) (work_items ?ps)"
      using completed_results [OF e2 gate j(1) that] G2 by auto
    from arg_cong [OF this, of "map fst"] arg_cong [OF this, of "map snd"] show ?thesis
      by (simp add: comp_def work_items_prompts [symmetric])
  qed
  moreover have "concat (map (\<lambda>k. results_page uid limit (k * limit) e2) [0..<n]) = ordered_results j" if "state j = COMPLETED"
  proof -
    obtain its where "G2 uid = Some its" "job_inv its j" using reachable_job [OF e2 gate j(1)] by blast
    then have "length (ordered_results j) \<le> n * limit" using that pages(2) total(1) by (auto simp: job_inv_def)
    then show ?thesis using results_view.pages_whole [of e2 uid n limit] j(1) by simp
  qed
  ultimately show ?thesis
    using j(1) total(1) ended by (simp add: job_status_def status_of_def snapshot_def e1(3) quiescent_def Let_def)
qed

definition session_request :: http_request where
  "session_request = example_request\<lparr>req_idempotency_key := Some ''key''\<rparr>"

definition session_batch :: batch_request where
  "session_batch = \<lparr>batch_prompts = example_prompts, batch_priority = HIGH\<rparr>"

theorem batch_request_to_results_witness:
  "\<exists>a e1 e2 d. submit_batch id (tick 0) ''job-1'' session_batch session_request (new_engine example_settings new_metrics) = (Inr a, e1) \<and>
     job_status 4 (ack_job_id a) e2 = Inr d \<and> snap_state d = COMPLETED \<and>
     map res_prompt (concat (map (\<lambda>k. results_page (ack_job_id a) 1 (k * 1) e2) [0..<2])) = [''hello'', ''world'']"
proof -
  let ?e = "new_engine example_settings new_metrics"
  let ?sub = "Submit ''job-1'' example_prompts HIGH (Some ''key'')"
  have fresh: "fresh_id ''job-1'' ?e" by (simp add: engine_exec)
  have ok: "batch_request_ok session_batch" using example_batch_ok by (simp add: session_batch_def example_batch_def batch_request_ok_def)
  obtain a e1 where sub: "submit_batch id (tick 0) ''job-1'' session_batch session_request ?e = (Inr a, e1)"
    and a: "\<not> ack_idempotent_reuse a" "ack_job_id a = ''job-1''"
    by (simp add: submit_batch_def engine_exec session_batch_def session_request_def answer_submission_def ack_def)
  then have e1: "e1 = snd (submit_with_idempotency id (tick 0) ''job-1'' example_prompts HIGH (Some ''key'') ?e)"
    by (auto simp: submit_batch_def answer_submission_def session_batch_def session_request_def
        split: sum.splits prod.splits submit_error.splits)
  obtain e2 G2 j where run: "example_run (example_start @ example_finish) = Some (e2, G2)"
    and j: "get_job e2 ''job-1'' = Some j" "state j = COMPLETED"
    using example_done by metis
  have start: "example_start = (tick 0, ?sub) # tl example_start" by (simp add: example_start_def)
  have "engine_step id (tick 0) ?sub ?e = Some e1" using fresh by (simp add: e1)
  then have "run_events id (tl example_start @ example_finish) (e1, ledger_step ?sub ?e (\<lambda>_. None)) = Some (e2, G2)"
    using run unfolding example_run_def
    by (subst (asm) start) (simp del: engine_step.simps ledger_step.simps)
  then have evs: "run_events id (tl example_start @ example_finish) (e1, ledger_step (Submit ''job-1'' (batch_prompts session_batch)
      (batch_priority session_batch) (req_idempotency_key session_request)) ?e (\<lambda>_. None)) = Some (e2, G2)"
    by (simp add: session_batch_def session_request_def)
  have pages: "page_query_ok 1000 1" "length (batch_prompts session_batch) \<le> 2 * 1"
    by (simp_all add: page_query_ok_def session_batch_def example_prompts_def)
  from batch_request_to_results [OF reachable.start example_settings_ok(1) fresh ok sub a(1) evs pages, of 4] obtain d where
    d: "job_status 4 (ack_job_id a) e2 = Inr d" "snap_state d = COMPLETED \<longrightarrow>
      map res_prompt (concat (map (\<lambda>k. results_page (ack_job_id a) 1 (k * 1) e2) [0..<2])) = map prompt_text (batch_prompts session_batch)"
    unfolding Let_def by blast
  moreover have "snap_state d = COMPLETED" using d(1) j a(2) by (auto simp: job_status_def status_of_def snapshot_def)
  moreover have "map prompt_text (batch_prompts session_batch) = [''hello'', ''world'']"
    by (simp add: session_batch_def example_prompts_def)
  ultimately show ?thesis using sub by metis
qed

end
