(* ===== verification/Engine_Billing.thy ===== *)
theory Engine_Billing
  imports Engine_Values Api Example_Run
begin

text \<open>
  Cost accounting: the tokens and the cost a job reports are those of the results filed under it, and nothing else
  changes them.
\<close>

text \<open>The estimate of a text's tokens and the price of a result, from the settings.\<close>

definition metered :: "settings \<Rightarrow> string \<Rightarrow> int" where
  "metered s txt = max 1 \<lceil>fl (fl (of_nat (length txt)) / chars_per_token s)\<rceil>"

definition price :: "settings \<Rightarrow> inference_result \<Rightarrow> pyfloat" where
  "price s r =
     fl (fl (fl (of_int (res_input_tokens r) / 1000) * cost_per_1k_input_tokens s) +
         fl (fl (of_int (res_output_tokens r) / 1000) * cost_per_1k_output_tokens s))"

text \<open>What a result says of its own cost: a success is metered and priced, a failure is free.\<close>

definition receipt_ok :: "settings \<Rightarrow> inference_result \<Rightarrow> bool" where
  "receipt_ok s r \<longleftrightarrow>
     (if res_success r
      then \<exists>out. res_output r = Some out \<and> res_error r = None \<and> res_input_tokens r = metered s (res_prompt r) \<and>
        res_output_tokens r = metered s out \<and> res_cost_usd r = py_round (price s r) 8
      else res_output r = None \<and> res_error r \<noteq> None \<and> res_input_tokens r = 0 \<and> res_output_tokens r = 0 \<and> res_cost_usd r = 0)"

text \<open>The cost is added up in floating point, in the order the results were filed.\<close>

definition bill :: "settings \<Rightarrow> inference_result list \<Rightarrow> pyfloat" where
  "bill s rs = foldl (\<lambda>c r. fl (c + price s r)) 0 (filter res_success rs)"

definition account_ok :: "settings \<Rightarrow> job \<Rightarrow> bool" where
  "account_ok s j \<longleftrightarrow>
     (\<forall>r \<in> set (dict_values (results j)). receipt_ok s r) \<and>
     input_tokens j = (\<Sum>r\<leftarrow>dict_values (results j). res_input_tokens r) \<and>
     output_tokens j = (\<Sum>r\<leftarrow>dict_values (results j). res_output_tokens r) \<and>
     cost_usd j = bill s (dict_values (results j))"

text \<open>A piece that adds a result's tokens and price to the job and then files it keeps the account.\<close>

definition credits :: "settings \<Rightarrow> inference_result \<Rightarrow> (job \<Rightarrow> job) \<Rightarrow> bool" where
  "credits s r g \<longleftrightarrow> receipt_ok s r \<and>
     (\<forall>j. results (g j) = results j \<and> input_tokens (g j) = input_tokens j + res_input_tokens r \<and>
        output_tokens (g j) = output_tokens j + res_output_tokens r \<and>
        cost_usd (g j) = (if res_success r then fl (cost_usd j + price s r) else cost_usd j))"

lemma account_filed:
  assumes "account_ok s j" "credits s r g" "dict_get (results j) (item_seq it) = None"
  shows "account_ok s (file_result it r now (g j))"
proof -
  have "dict_set (item_seq it) r (results (g j)) = results j @ [(item_seq it, r)]"
    using assms(2,3) by (simp add: credits_def dict_set_fresh dict_get_None_keys)
  then have "dict_values (results (file_result it r now (g j))) = dict_values (results j) @ [r]"
    "input_tokens (file_result it r now (g j)) = input_tokens (g j)"
    "output_tokens (file_result it r now (g j)) = output_tokens (g j)"
    "cost_usd (file_result it r now (g j)) = cost_usd (g j)"
    by (simp_all add: file_result_def finish_job_def Let_def)
  then show ?thesis using assms(1,2) by (auto simp: account_ok_def credits_def bill_def receipt_ok_def)
qed

lemma item_failed_credits: "credits s (fst (item_failed jid it exc e)) (\<lambda>j. j\<lparr>failed := failed j + 1\<rparr>)"
  by (simp add: item_failed_def credits_def receipt_ok_def Let_def)

lemma item_returned_credits:
  "\<exists>g. eng_store (snd (item_returned jid it out n e)) = store_mutate jid g (eng_store e) \<and>
     credits (eng_settings e) (fst (item_returned jid it out n e)) g"
proof (cases "chars_per_token (eng_settings e) = 0")
  case True
  then show ?thesis
    using item_failed_credits [of "eng_settings e" jid it "ZeroDivisionError ''float division by zero''"]
    by (intro exI [of _ "\<lambda>j. j\<lparr>failed := failed j + 1\<rparr>"]) (simp add: item_returned_def estimate_tokens_def frame Let_def item_failed_def)
next
  case False
  let ?s = "eng_settings e"
  have ab: "estimate_tokens ?s t = Inr (metered ?s t)" for t using False by (simp add: estimate_tokens_def metered_def)
  let ?a = "metered ?s (item_prompt it)" and ?b = "metered ?s out"
  show ?thesis
    by (intro exI [of _ "credit_success ?a ?b (token_cost ?s ?a ?b)"])
      (simp add: item_returned_def ab credits_def receipt_ok_def credit_success_def price_def token_cost_def Let_def)
qed

lemma settle_account:
  assumes "all_jobs (account_ok s) e" "get_job e jid = Some j" "dict_get (results j) (item_seq it) = None"
    "eng_store (snd re) = store_mutate jid g (eng_store e)" "credits s (fst re) g"
  shows "all_jobs (account_ok s) (settle w jid it start clk re)"
proof -
  note st = settle_store [OF assms(2,4), of w it start clk]
  show ?thesis
    using assms(1,2) account_filed [OF _ assms(5,3)]
    unfolding all_jobs_def st by (auto simp: dict_simps get_job_def split: if_splits)
qed

lemma account_keeps:
  "account_ok s j \<Longrightarrow> account_ok s (finish_job st now j)"
  "account_ok s j \<Longrightarrow> account_ok s (j\<lparr>retries := retries j + 1\<rparr>)"
  "account_ok s (submitted_job clk uid ps prio key fp)"
  by (simp_all add: account_ok_def finish_job_def submitted_job_def new_job_def bill_def)

lemma worker_reply_account:
  assumes all: "all_jobs (account_ok (eng_settings e)) e" and j: "get_job e jid = Some j" "dict_get (results j) (item_seq it) = None"
  shows "all_jobs (account_ok (eng_settings e)) (worker_reply w jid it n start reply u clk e)"
proof (cases "retry_turn (eng_settings e) u n reply")
  case (Return out m)
  obtain g where "eng_store (snd (item_returned jid it out m e)) = store_mutate jid g (eng_store e)"
    "credits (eng_settings e) (fst (item_returned jid it out m e)) g"
    using item_returned_credits by blast
  then show ?thesis unfolding worker_reply_def Return retry_decision.case by (rule settle_account [OF all j])
next
  case (Raise exc)
  then show ?thesis using settle_account [OF all j item_failed_frame(2) item_failed_credits] by (simp add: worker_reply_def)
next
  case (BackOff m delay)
  then show ?thesis
    by (intro all_jobs_mutate [OF all, where f = "\<lambda>j. j\<lparr>retries := retries j + 1\<rparr>"])
      (simp_all add: worker_reply_def frame account_keeps)
qed

lemma submit_account:
  assumes "all_jobs (account_ok s) e"
  shows "all_jobs (account_ok s) (snd (submit_with_idempotency sha256 clk uid ps prio key e))"
proof (rule submit_effect [of sha256 clk uid ps prio key e])
  fix fp
  assume "snd (submit_with_idempotency sha256 clk uid ps prio key e) = register_job clk uid ps prio key fp e"
  with assms show ?thesis by (auto simp: all_jobs_def frame dict_simps account_keeps split: if_splits)
qed (use assms in \<open>simp add: all_jobs_def\<close>)

lemma interrupt_account:
  "all_jobs (account_ok s) e \<Longrightarrow> all_jobs (account_ok s) (fold (interrupt_job clk) js e)"
proof (induction js arbitrary: e)
  case (Cons j js)
  have "all_jobs (account_ok s) (interrupt_job clk j e)"
    using Cons.prems by (auto simp: interrupt_job_def all_jobs_def frame dict_simps account_keeps split: if_splits)
  then show ?case using Cons.IH by simp
qed simp

lemma engine_step_account:
  assumes all: "all_jobs (account_ok (eng_settings e)) e" and pool: "pool_inv e" and book: "book_inv G e"
    and st: "engine_step sha256 clk ev e = Some e'"
  shows "all_jobs (account_ok (eng_settings e)) e'"
proof (cases ev)
  case (Submit uid ps prio key)
  with st submit_account [OF all] show ?thesis by (auto split: if_splits)
next
  case (Replay uid jid prio)
  with st submit_account [OF all] all replay_effect [of sha256 clk uid jid prio e] show ?thesis by (auto split: if_splits)
next
  case (Cancel jid)
  with st all cancel_effect [of clk jid e] show ?thesis
    by (auto simp: all_jobs_def frame dict_simps account_keeps split: if_splits)
next
  case (ProviderReply w reply u)
  then obtain jid it n start where w: "dict_get (eng_workers e) w = Some (AwaitReply jid it n start)"
    and e': "e' = worker_reply w jid it n start reply u clk e"
    using st by auto
  obtain j where j: "get_job e jid = Some j" using book_okD(5) [OF book w, of jid it] by (auto simp: get_job_def)
  then have "dict_get (results j) (item_seq it) = None"
    using flying_fresh [OF book pool_dict_ok [OF pool] w, of jid it j] by (simp add: get_job_def)
  then show ?thesis unfolding e' by (rule worker_reply_account [OF all j])
next
  case InterruptJobs
  with st interrupt_account [OF all] show ?thesis by (auto simp: interrupt_jobs_def split: if_splits)
qed (use st all worker_run_frame(1) in \<open>auto simp: all_jobs_def frame shutdown_begin_def split: if_splits\<close>)

lemma reachable_account:
  assumes "reachable sha256 s e G" "gate_settings_ok s"
  shows "all_jobs (account_ok s) e"
  using assms
proof (induction rule: reachable.induct)
  case (start m)
  then show ?case by (simp add: all_jobs_def new_engine_def empty_store_def store_get_def Let_def)
next
  case (step e G clk ev e')
  have "all_jobs (account_ok (eng_settings e)) e'"
    using step reachable_settings [OF step.hyps(1)]
    by (intro engine_step_account [OF _ reachable_pool reachable_book step.hyps(2)]) auto
  then show ?case using reachable_settings [OF step.hyps(1)] by simp
qed

text \<open>
  C21. The bill adds up: in every reachable state the token counts and the cost that the status endpoint reports for a
  job are exactly those of the results filed under it, the cost being the floating-point sum, in filing
  order, of the prices of the successful ones. A successful result has the metered tokens of its prompt and
  of its output and its own rounded price; a failed one is free, however often it was retried. So no
  prompt is billed twice or lost from the bill.
\<close>

theorem status_bill_adds_up:
  assumes "reachable sha256 s e G" "gate_settings_ok s" "job_status now jid e = Inr d"
  shows "\<exists>j. get_job e jid = Some j \<and>
    (\<forall>r \<in> set (dict_values (results j)). receipt_ok s r) \<and>
    cv_input_tokens (snap_cost d) = (\<Sum>r\<leftarrow>dict_values (results j). res_input_tokens r) \<and>
    cv_output_tokens (snap_cost d) = (\<Sum>r\<leftarrow>dict_values (results j). res_output_tokens r) \<and>
    cv_total_tokens (snap_cost d) =
      (\<Sum>r\<leftarrow>dict_values (results j). res_input_tokens r + res_output_tokens r) \<and>
    cv_estimated_cost_usd (snap_cost d) = py_round (bill s (dict_values (results j))) 6"
proof -
  obtain j where j: "get_job e jid = Some j" "d = status_of now e j"
    using assms(3) by (auto simp: job_status_def split: option.splits)
  have "account_ok s j" using reachable_account [OF assms(1,2)] j(1) by (simp add: all_jobs_def get_job_def)
  then show ?thesis using j by (simp add: account_ok_def status_of_def snapshot_def cost_summary_def sum_list_addf [symmetric] comp_def)
qed

theorem status_bill_adds_up_witness:
  "\<exists>e G j d. example_run (example_start @ example_finish) = Some (e, G) \<and> get_job e ''job-1'' = Some j \<and>
     map res_success (dict_values (results j)) = [False, True] \<and> job_status 4 ''job-1'' e = Inr d \<and>
     cv_input_tokens (snap_cost d) = 2 \<and> cv_output_tokens (snap_cost d) = 5 \<and> cv_total_tokens (snap_cost d) = 7"
proof -
  have quarters: "fl (5 / 4) = 5 / 4" "fl (17 / 4) = 17 / 4"
    using fl_representable [of 5 "- 2"] fl_representable [of 17 "- 2"]
    by (simp_all add: power_int_def power2_eq_square field_simps)
  have ceil: "\<lceil>5 / 4 :: rat\<rceil> = 2" "\<lceil>17 / 4 :: rat\<rceil> = 5" by (rule ceiling_unique; simp)+
  have m: "metered example_settings ''hello'' = 2" "metered example_settings ''completion::hello'' = 5"
    using fl_of_int [of 5] fl_of_int [of 17] by (simp_all add: metered_def example_settings_def quarters ceil)
  have "map_option (\<lambda>(e, G). map_option (\<lambda>j. map (\<lambda>r. (res_success r, res_prompt r, res_output r)) (dict_values (results j))) (get_job e ''job-1''))
     (example_run (example_start @ example_finish)) =
     Some (Some [(False, ''world'', None), (True, ''hello'', Some ''completion::hello'')])"
    by (simp add: engine_exec)
  then obtain e G j where run: "example_run (example_start @ example_finish) = Some (e, G)" and j: "get_job e ''job-1'' = Some j"
    and rs: "map (\<lambda>r. (res_success r, res_prompt r, res_output r)) (dict_values (results j)) =
      [(False, ''world'', None), (True, ''hello'', Some ''completion::hello'')]"
    by (auto simp: map_option_eq_Some)
  then obtain a b where ab: "dict_values (results j) = [a, b]" "\<not> res_success a" "res_success b" "res_prompt b = ''hello''"
    "res_output b = Some ''completion::hello''"
    by (auto simp: map_eq_Cons_conv)
  obtain d where d: "job_status 4 ''job-1'' e = Inr d" using j by (simp add: job_status_def)
  have "snd ` set (results j) = {a, b}" using arg_cong [OF ab(1), of set] by simp
  then have mem: "\<exists>x \<in> set (results j). snd x = a" "\<exists>x \<in> set (results j). snd x = b" by (metis imageE insertI1 insertI2)+
  from status_bill_adds_up [OF example_reachable [OF run] example_settings_ok(2) d] j have
    "receipt_ok example_settings a" "receipt_ok example_settings b"
    "cv_input_tokens (snap_cost d) = res_input_tokens a + res_input_tokens b"
    "cv_output_tokens (snap_cost d) = res_output_tokens a + res_output_tokens b"
    "cv_total_tokens (snap_cost d) = res_input_tokens a + res_output_tokens a + (res_input_tokens b + res_output_tokens b)"
    using mem by (auto simp: ab(1) simp del: map_map)
  then have "cv_input_tokens (snap_cost d) = 2" "cv_output_tokens (snap_cost d) = 5" "cv_total_tokens (snap_cost d) = 7"
    using ab m by (simp_all add: receipt_ok_def)
  with run j d ab show ?thesis by auto
qed

end
