(* ===== verification/Spec2Isabelle.thy ===== *)
theory Spec2Isabelle
  imports Fairness Engine_Metrics Selftest Service Prompt_Script Api_Wire Client_Session Engine_Billing
begin

text \<open>
  \<^bold>\<open>A verification of the batch inference engine.\<close>

  The program (\<^verbatim>\<open>src/app\<close>) accepts batches of prompts over HTTP, queues them in a fair scheduler shared by all
  jobs, and lets one pool of asyncio workers send them to an inference provider, behind a token bucket and
  an AIMD concurrency limiter, with retries on HTTP 429. Results go to an in-memory job store that the API
  reads. This development models each of these parts in HOL and proves what makes them correct, alone and
  together.

  \<^bold>\<open>Parts and theories.\<close>

  \<^item> \<^verbatim>\<open>Prelude\<close>: Python dictionaries as association lists in insertion order, decimal numerals, slices.
    \<^verbatim>\<open>PyFloat\<close>: binary64 arithmetic as exact rationals rounded by \<^verbatim>\<open>fl\<close> (infinities and NaN are not
    represented), \<^verbatim>\<open>round\<close>, \<^verbatim>\<open>int\<close> of a float. \<^verbatim>\<open>PyRepr\<close>: \<^verbatim>\<open>repr\<close> of a float; \<^verbatim>\<open>Repr_Laws\<close>: \<^verbatim>\<open>float\<close> reads
    it back exactly.
  \<^item> \<^verbatim>\<open>Json\<close>: JSON values, the text \<^verbatim>\<open>json.dumps\<close> and \<^verbatim>\<open>json.dump(indent=2)\<close> write, and the locale \<^verbatim>\<open>json_reader\<close>
    (what a parser that reads back every written value gives its clients), interpreted on a recursive
    descent reader. \<^verbatim>\<open>Timestamp\<close>: \<^verbatim>\<open>gmtime\<close> and \<^verbatim>\<open>strftime\<close>.
  \<^item> \<^verbatim>\<open>Models\<close> (\<^verbatim>\<open>models.py\<close>): prompts, work items, results, jobs and their views.
  \<^item> \<^verbatim>\<open>Scheduler\<close>, \<^verbatim>\<open>Fairness\<close> (\<^verbatim>\<open>scheduler.py\<close>): the weighted round robin. The locale \<^verbatim>\<open>work_scheduler\<close> is what the
    engine relies on; \<^verbatim>\<open>Fairness\<close> has draining, bounded waiting, weighted shares, the dead tail of \<^verbatim>\<open>pop\<close>, and
    starvation by a stream of new jobs.
  \<^item> \<^verbatim>\<open>Ratelimit\<close> (\<^verbatim>\<open>ratelimit.py\<close>): token bucket over explicit clock readings, AIMD limiter with the waiter
    queue of its condition.
  \<^item> \<^verbatim>\<open>Config\<close> (\<^verbatim>\<open>config.py\<close>), \<^verbatim>\<open>Store\<close> (\<^verbatim>\<open>store.py\<close>; the protocol \<^verbatim>\<open>JobStore\<close> is the locale \<^verbatim>\<open>job_store_spec\<close>),
    \<^verbatim>\<open>Metrics\<close> (\<^verbatim>\<open>metrics.py\<close>), \<^verbatim>\<open>Providers\<close> (\<^verbatim>\<open>mock_inference.py\<close>, \<^verbatim>\<open>providers.py\<close>).
  \<^item> \<^verbatim>\<open>Retry\<close>: \<^verbatim>\<open>compute_backoff\<close> and \<^verbatim>\<open>infer_with_retry\<close> of \<^verbatim>\<open>engine.py\<close>, over the locale
    \<^verbatim>\<open>throttling_provider\<close> that the three providers interpret.
  \<^item> \<^verbatim>\<open>Engine\<close> (\<^verbatim>\<open>engine.py\<close>): \<^verbatim>\<open>BatchEngine\<close> as a record; every coroutine is cut into its atomic pieces between
    two suspension points, \<^verbatim>\<open>engine_step\<close> runs one piece, \<^verbatim>\<open>reachable\<close> is every state any sequence of events
    leads to. Provider replies, clock readings, random draws and fresh ids are part of the events.
  \<^item> The invariants of reachable engines: \<^verbatim>\<open>Engine_Pool\<close> (permits, waiters, workers), \<^verbatim>\<open>Engine_Book\<close> (where every
    prompt is), \<^verbatim>\<open>Engine_Caps\<close> (active set, queue bound), \<^verbatim>\<open>Engine_Live\<close> (a progress order for worker events,
    no lost wake-up), \<^verbatim>\<open>Engine_Jobs\<close> (how jobs evolve, shutdown), \<^verbatim>\<open>Engine_Rate\<close> (a bucket too small for a
    token), \<^verbatim>\<open>Engine_Facts\<close> (their consequences for single jobs and submissions). \<^verbatim>\<open>Fingerprint\<close>: the payload
    encoding is injective. \<^verbatim>\<open>Lifecycle\<close>: an abstract specification that the engine refines.
    \<^verbatim>\<open>Engine_Metrics\<close>: the counters agree with the store. \<^verbatim>\<open>Engine_Log\<close>: what every piece of the engine logs, and that
    the log of a run is the history of its jobs. \<^verbatim>\<open>Engine_Drain\<close>: the grace period of a shutdown.
    \<^verbatim>\<open>Engine_Billing\<close>: tokens and cost of a job are those of its results.
    \<^verbatim>\<open>Engine_Values\<close>: every number a job stores is a binary64 number (the locale \<^verbatim>\<open>job_law\<close>: a law of jobs that
    the updates of \<^verbatim>\<open>engine.py\<close> keep holds of every stored job).
  \<^item> \<^verbatim>\<open>Api\<close>, \<^verbatim>\<open>Api_Laws\<close>, \<^verbatim>\<open>Api_Stream\<close> (\<^verbatim>\<open>main.py\<close>): the handlers, the contract \<^verbatim>\<open>paged_view\<close> of the paginated
    endpoints, and the event stream. \<^verbatim>\<open>Api_Wire\<close>: the JSON of the responses and the schemas their models
    declare. \<^verbatim>\<open>Service\<close>: the life cycle of the application (\<^verbatim>\<open>lifespan\<close>), probes and the root document.
    \<^verbatim>\<open>Client_Session\<close>: a batch from its request to the last page of its results.
  \<^item> \<^verbatim>\<open>Logging\<close> (\<^verbatim>\<open>logging_config.py\<close>): the filter, the JSON formatter, \<^verbatim>\<open>setup_logging\<close>, and the records of the
    program's own logging calls. \<^verbatim>\<open>Prompt_Script\<close> (\<^verbatim>\<open>scripts/generate_prompts.py\<close>). \<^verbatim>\<open>Selftest\<close> (\<^verbatim>\<open>selftest.py\<close>): the built-in smoke test.
  \<^item> \<^verbatim>\<open>Example_Run\<close>: a run of the engine evaluated by the simplifier; the witnesses use it.

  \<^bold>\<open>How the state corresponds.\<close> \<^verbatim>\<open>eng_store\<close>, \<^verbatim>\<open>eng_scheduler\<close>, \<^verbatim>\<open>eng_limiter\<close>, \<^verbatim>\<open>eng_bucket\<close>, \<^verbatim>\<open>eng_active\<close>,
  \<^verbatim>\<open>eng_accepting\<close> are the attributes of the same meaning; \<^verbatim>\<open>eng_workers\<close> maps the live worker tasks to what
  each awaits; \<^verbatim>\<open>eng_metrics\<close> is the module-level registry. Jobs are mutable objects shared between the
  store and the coroutines; the model keeps one copy, in the store, and updates it there. The ledger next
  to the engine is a history variable: the items each job was submitted with.

  \<^bold>\<open>What is shown here.\<close> Results: a completed job has one result per prompt in submission order, prompts of a
  running job are never lost or duplicated, counters and the bill agree with results. Life of a job: terminal states are
  final, keys are idempotent, submission is all or nothing. Limits: concurrency, pool size, active jobs and
  queue length. Progress: worker events cannot go on for ever, and when nothing can move everything is done.
  Cancellation, replay and shutdown: the jobs a graceful stop leaves are those the remaining workers
  produced. Interfaces: request bodies decode to what was sent, responses have the declared fields, the
  event stream can be parsed back, every log record is one line of JSON that parses back, and the lines about
  a job are its history.
  The results on the engine hold for every schedule and every provider, under
  \<^verbatim>\<open>gate_settings_ok\<close> (non-negative concurrency bounds up to \<open>2^53\<close>, decrease factor at most 1) and, for
  progress, \<^verbatim>\<open>live_settings_ok\<close> (positive bounds and pool size).

  \<^bold>\<open>Bounds.\<close> No definition uses fuel. Loops are structural recursion over their data, or over the clock readings
  or observations they make (\<^verbatim>\<open>tb_acquire\<close>, \<^verbatim>\<open>job_stream\<close>, \<^verbatim>\<open>watch\<close>, \<^verbatim>\<open>poll\<close>), or have a termination proof
  (\<^verbatim>\<open>retry_loop\<close> by the retries left, the JSON reader by the text left, the year search of \<^verbatim>\<open>gmtime\<close> by the
  days left).

  \<^bold>\<open>Not modelled.\<close> SHA-256 and \<^verbatim>\<open>json.loads\<close> are parameters; of \<^verbatim>\<open>json.loads\<close> only that it reads back what
  \<^verbatim>\<open>json.dumps\<close> writes is used, and only where a theorem says so. FastAPI and pydantic appear only through the
  routes, types and constraints the source declares. Characters are code points below 256; floats do not
  overflow to infinity, and no provider raises \<^verbatim>\<open>CancelledError\<close> itself. Of logging, the interpolation of \<^verbatim>\<open>%s\<close>
  into messages and the text of tracebacks are inputs. The dashboard (HTML and script), the deployment
  files and CI hold no Python logic. Thread locks
  in \<^verbatim>\<open>metrics.py\<close> and the asyncio locks around code without an await do nothing on one event loop.
\<close>

section \<open>Results\<close>

text \<open>
  C1. Correct results, in order: when a job is reported completed, \<^verbatim>\<open>ordered_results\<close> has exactly one entry
  per submitted prompt, and the \<open>i\<close>th entry is the result of the \<open>i\<close>th prompt (its id, generated if it had
  none, and its text), no matter how the workers interleaved, how often calls were retried, and in which
  order they finished. This holds for every schedule of the event loop and every behaviour of the
  provider.
\<close>

theorem completed_job_results_in_order:
  assumes "reachable sha256 s e G" "gate_settings_ok s" "get_job e jid = Some j" "state j = COMPLETED"
  shows "\<exists>its. G jid = Some its \<and> length (ordered_results j) = length its \<and>
    (\<forall>i < length its. res_id (ordered_results j ! i) = item_id (its ! i) \<and>
       res_prompt (ordered_results j ! i) = item_prompt (its ! i))"
proof -
  obtain its where its: "G jid = Some its" and eq: "map (\<lambda>r. (res_id r, res_prompt r)) (ordered_results j) =
      map (\<lambda>it. (item_id it, item_prompt it)) its"
    using completed_results [OF assms] by blast
  have "length (ordered_results j) = length its" using arg_cong [OF eq, of length] by simp
  with its eq show ?thesis by (auto simp: list_eq_iff_nth_eq)
qed

theorem completed_job_results_in_order_witness:
  "\<exists>e G j. reachable id example_settings e G \<and> get_job e ''job-1'' = Some j \<and> state j = COMPLETED \<and>
     (\<exists>its. G ''job-1'' = Some its \<and> length (ordered_results j) = length its)"
proof -
  obtain e G j where ex: "reachable id example_settings e G" "get_job e ''job-1'' = Some j" "state j = COMPLETED"
    using example_done by metis
  from completed_job_results_in_order [OF ex(1) example_settings_ok(2) ex(2,3)] ex show ?thesis by blast
qed

text \<open>
  C2. Conservation of prompts: while a job is running on an accepting engine, every sequence number of
  its submission is in exactly one place: queued in the scheduler, held by one worker, or filed in the
  job's results. Nothing is lost, nothing is processed twice.
\<close>

theorem running_job_prompts_conserved:
  assumes "reachable sha256 s e G" "gate_settings_ok s" "eng_accepting e" "get_job e jid = Some j" "state j = RUNNING"
  shows "\<exists>its. G jid = Some its \<and>
    image_mset item_seq (mset (items_of (eng_scheduler e) jid)) + flying jid (eng_workers e) +
      mset (dict_keys (results j)) = mset [0..<length its]"
proof -
  obtain its where "G jid = Some its"
    "job_book (live e) its (queued_seqs jid (eng_scheduler e) + flying jid (eng_workers e)) j"
    using reachable_job [OF assms(1,2,4)] by blast
  then show ?thesis using assms(3,5) by (auto simp: job_book_def live_def queued_seqs_def)
qed

theorem running_job_prompts_conserved_witness:
  "\<exists>e G j its. reachable id example_settings e G \<and> get_job e ''job-1'' = Some j \<and> state j = RUNNING \<and>
     G ''job-1'' = Some its \<and>
     image_mset item_seq (mset (items_of (eng_scheduler e) ''job-1'')) + flying ''job-1'' (eng_workers e) +
       mset (dict_keys (results j)) = mset [0..<length its]"
proof -
  obtain e G j where ex: "reachable id example_settings e G" "eng_accepting e"
    "get_job e ''job-1'' = Some j" "state j = RUNNING"
    using example_mid by metis
  from running_job_prompts_conserved [OF ex(1) example_settings_ok(2) ex(2-4)] ex show ?thesis by blast
qed

text \<open>
  C9. Counters agree with the results: in every reachable state a job's \<^verbatim>\<open>completed\<close> is the number of
  results filed, which is \<^verbatim>\<open>succeeded + failed\<close> and at most \<^verbatim>\<open>total\<close>; \<^verbatim>\<open>failed\<close> is the length of the dead
  letter list; a completed job has all its results; and \<^verbatim>\<open>finished_at\<close> is set exactly when the job is no
  longer running.
\<close>

theorem job_counters_consistent:
  assumes "reachable sha256 s e G" "gate_settings_ok s" "get_job e jid = Some j"
  shows "completed j = int (length (results j)) \<and> completed j = succeeded j + failed j \<and>
    completed j \<le> total j \<and> failed j = int (length (dead_letter j)) \<and>
    (state j = COMPLETED \<longrightarrow> completed j = total j) \<and> (finished_at j = None \<longleftrightarrow> state j = RUNNING)"
proof -
  obtain its where inv: "job_inv its j"
    and book: "job_book (live e) its (queued_seqs jid (eng_scheduler e) + flying jid (eng_workers e)) j"
    using reachable_job [OF assms] by blast
  have "queued_seqs jid (eng_scheduler e) + flying jid (eng_workers e) + mset (dict_keys (results j)) \<subseteq># mset [0..<length its]"
    using book unfolding job_book_def by blast
  from size_mset_mono [OF this] have le: "length (results j) \<le> length its" by simp
  with inv le job_inv_counts [OF inv] failed_is_dead_letter [OF assms] show ?thesis by (auto simp: job_inv_def)
qed

theorem job_counters_consistent_witness:
  "\<exists>e G j. reachable id example_settings e G \<and> get_job e ''job-1'' = Some j \<and> completed j = succeeded j + failed j"
proof -
  obtain e G j where ex: "reachable id example_settings e G" "get_job e ''job-1'' = Some j"
    using example_done by metis
  from job_counters_consistent [OF ex(1) example_settings_ok(2) ex(2)] ex show ?thesis by blast
qed

section \<open>Life of a job\<close>

text \<open>
  C12. Terminal states are final and results are never replaced: over any further run of the engine a job
  stays in the store with its identity; once completed or cancelled it keeps its state and finish time;
  a result filed under a sequence number stays there unchanged; and the completed count never drops.
\<close>

theorem job_history_is_monotone:
  assumes "reachable sha256 s e G" "gate_settings_ok s" "run_events sha256 evs (e, G) = Some (e', G')"
    "get_job e jid = Some j"
  shows "\<exists>j'. get_job e' jid = Some j' \<and> job_id j' = job_id j \<and> total j' = total j \<and>
    request_fingerprint j' = request_fingerprint j \<and> completed j \<le> completed j' \<and>
    (\<forall>k r. dict_get (results j) k = Some r \<longrightarrow> dict_get (results j') k = Some r) \<and>
    (terminal (state j) \<longrightarrow> state j' = state j \<and> finished_at j' = finished_at j)"
proof -
  have "store_evolves (eng_store e) (eng_store e')"
    using run_evolves [OF assms(3,1,2)] by blast
  from this assms(4) obtain j' where "get_job e' jid = Some j'" "job_evolves j j'" by (rule store_evolves_job)
  then show ?thesis by (auto simp: job_evolves_def)
qed

theorem job_history_is_monotone_witness:
  "\<exists>e G e' G' j j'. reachable id example_settings e G \<and> run_events id example_finish (e, G) = Some (e', G') \<and>
     get_job e ''job-1'' = Some j \<and> get_job e' ''job-1'' = Some j' \<and> completed j \<le> completed j'"
proof -
  obtain e' G' where fin: "example_run (example_start @ example_finish) = Some (e', G')" using example_done by metis
  then obtain e G where run: "example_run example_start = Some (e, G)" "run_events id example_finish (e, G) = Some (e', G')"
    by (rule example_split)
  obtain j where ex: "reachable id example_settings e G" "get_job e ''job-1'' = Some j"
    using example_mid run(1) by (metis option.inject prod.inject)
  from job_history_is_monotone [OF ex(1) example_settings_ok(2) run(2) ex(2)] ex run(2) show ?thesis by blast
qed

section \<open>Idempotent submission\<close>

text \<open>
  C7. Exactly-once submission per key: after a submission under a non-empty key has been accepted, and
  after any further run of the engine, a submission with the same key is answered without creating
  anything: with the same job when the fingerprint is the same, with a conflict error when it differs.
  Store, scheduler, active set and workers are left as they are.
\<close>

theorem idempotent_resubmission:
  assumes "reachable sha256 s e G" "gate_settings_ok s" "fresh_id uid e" "k \<noteq> []"
    and acc: "fst (submit_with_idempotency sha256 clk uid ps prio (Some k) e) = Inr (uid, False)"
    and run: "run_events sha256 ((clk, Submit uid ps prio (Some k)) # evs) (e, G) = Some (e', G')"
    and open': "eng_accepting e'"
  shows "\<exists>msg f. submit_with_idempotency sha256 clk' uid' qs prio' (Some k) e' =
    (if fingerprint sha256 qs prio' = fingerprint sha256 ps prio
     then (Inr (uid, True), tally f e') else (Inl (IdempotencyConflictError msg), e'))"
proof -
  let ?fp = "fingerprint sha256 ps prio" and ?e = "snd (submit_with_idempotency sha256 clk uid ps prio (Some k) e)"
  have step: "engine_step sha256 clk (Submit uid ps prio (Some k)) e = Some ?e" using assms(3) by simp
  obtain G1 where run1: "run_events sha256 evs (?e, G1) = Some (e', G')" and reach: "reachable sha256 s ?e G1"
    using run assms(3) reachable.step [OF assms(1) step] by auto
  have ok: "store_ok (eng_store e)" "store_ok (eng_store ?e)" "store_ok (eng_store e')"
    using book_okD(1) reachable_book [OF _ assms(2)] assms(1) reach run_evolves [OF run1 reach assms(2)] by blast+
  have "find_by_idempotency_key (eng_store ?e) k = Some (submitted_job clk uid ps prio (Some k) ?fp)"
    unfolding submit_accepted [OF acc] by (rule registered_find [OF ok(1) assms(3,4)])
  then obtain jid where key: "dict_get (by_key (eng_store ?e)) k = Some jid"
    and get: "store_get (eng_store ?e) jid = Some (submitted_job clk uid ps prio (Some k) ?fp)"
    using find_eq [OF ok(2)] by (auto simp: bind_eq_Some_conv)
  obtain j where j: "dict_get (by_key (eng_store e')) k = Some jid" "store_get (eng_store e') jid = Some j"
    "job_evolves (submitted_job clk uid ps prio (Some k) ?fp) j"
    using run_evolves [OF run1 reach assms(2)] key get unfolding store_evolves_def by blast
  then have "find_by_idempotency_key (eng_store e') k = Some j" "job_id j = uid" "request_fingerprint j = Some ?fp"
    using find_eq [OF ok(3)] by (simp_all add: job_evolves_def submitted_job_def new_job_def)
  with submit_found [OF open' assms(4) this(1)] show ?thesis by auto
qed

theorem idempotent_resubmission_witness:
  "\<exists>e' G' f. run_events id (example_start @ example_finish) (new_engine example_settings new_metrics, \<lambda>_. None) = Some (e', G') \<and>
     submit_with_idempotency id (tick 9) ''job-2'' example_prompts HIGH (Some ''key'') e' = (Inr (''job-1'', True), tally f e')"
proof -
  let ?e = "new_engine example_settings new_metrics"
  obtain e' G' where fin: "example_run (example_start @ example_finish) = Some (e', G')" "eng_accepting e'"
    using example_done by metis
  then have run: "run_events id ((tick 0, Submit ''job-1'' example_prompts HIGH (Some ''key'')) #
      tl (example_start @ example_finish)) (?e, \<lambda>_. None) = Some (e', G')"
    by (simp add: example_run_def example_start_def)
  have fresh: "fresh_id ''job-1'' ?e" by (simp add: engine_exec)
  have acc: "fst (submit_with_idempotency id (tick 0) ''job-1'' example_prompts HIGH (Some ''key'') ?e) = Inr (''job-1'', False)"
    by (simp add: engine_exec)
  have "''key'' \<noteq> []" by simp
  from idempotent_resubmission [OF reachable.start example_settings_ok(2) fresh this acc run fin(2)] fin(1)
  show ?thesis unfolding example_run_def by metis
qed

section \<open>Concurrency and backpressure\<close>

text \<open>
  C8. Bounded concurrency: in every reachable state the permits in use are exactly the workers holding an
  item, there are never more of them than \<^verbatim>\<open>GLOBAL_MAX_CONCURRENCY\<close>, the adaptive limit stays within its
  configured bounds, and there are never more worker tasks than \<^verbatim>\<open>WORKER_POOL_SIZE\<close>, over all jobs together.
\<close>

theorem concurrency_is_bounded:
  assumes "reachable sha256 s e G" "gate_settings_ok s"
  shows "lim_in_use (eng_limiter e) = int (permits_held (eng_workers e)) \<and>
    lim_in_use (eng_limiter e) \<le> global_max_concurrency s \<and>
    min (adaptive_min_concurrency s) (global_max_concurrency s) \<le> lim_limit (eng_limiter e) \<and>
    lim_limit (eng_limiter e) \<le> global_max_concurrency s \<and>
    int (length (eng_workers e)) \<le> max 0 (worker_pool_size s)"
  using reachable_pool [OF assms] reachable_settings [OF assms(1)] by (auto simp: pool_ok_def limiter_ok_def)

theorem concurrency_is_bounded_witness:
  "\<exists>e G. reachable id example_settings e G \<and> permits_held (eng_workers e) = 2 \<and> lim_in_use (eng_limiter e) \<le> 2"
proof -
  obtain e G where ex: "reachable id example_settings e G"
    "eng_workers e =
       [(0, AwaitBackoff ''job-1'' \<lparr>item_seq = 0, item_id = ''prompt-1'', item_prompt = ''hello''\<rparr> 1 0),
        (1, AwaitReply ''job-1'' \<lparr>item_seq = 1, item_id = ''b'', item_prompt = ''world''\<rparr> 1 0)]"
    using example_mid by metis
  then have "permits_held (eng_workers e) = 2" by (simp add: permits_held_def)
  with concurrency_is_bounded [OF ex(1) example_settings_ok(2)] ex(1) show ?thesis by auto
qed

text \<open>
  C14. Backpressure holds: the active set is exactly the set of running jobs, without duplicates, never
  larger than \<^verbatim>\<open>MAX_ACTIVE_JOBS\<close>; and the scheduler never holds more than \<^verbatim>\<open>MAX_QUEUE_SIZE\<close> prompts,
  counted exactly.
\<close>

theorem backpressure_limits_hold:
  assumes "reachable sha256 s e G" "gate_settings_ok s"
  shows "distinct (eng_active e) \<and> active_jobs e \<le> max 0 (max_active_jobs s) \<and>
    (\<forall>jid. jid \<in> set (eng_active e) \<longleftrightarrow> (\<exists>j. get_job e jid = Some j \<and> state j = RUNNING)) \<and>
    pending (eng_scheduler e) = (\<Sum>jq\<leftarrow>queues (eng_scheduler e). int (length (q_items (snd jq)))) \<and>
    pending (eng_scheduler e) \<le> max 0 (max_queue_size s)"
  using reachable_caps [OF assms] reachable_settings [OF assms(1)] book_okD(2) [OF reachable_book [OF assms]]
  by (auto simp: caps_ok_def active_ok_def active_jobs_def get_job_def scheduler_ok_def)

theorem backpressure_limits_hold_witness:
  "\<exists>e G. reachable id example_settings e G \<and> ''job-1'' \<in> set (eng_active e) \<and> active_jobs e \<le> 1"
proof -
  obtain e G j where ex: "reachable id example_settings e G" "get_job e ''job-1'' = Some j" "state j = RUNNING"
    using example_mid by metis
  have "max 0 (max_active_jobs example_settings) = 1" by (simp add: example_settings_def)
  with backpressure_limits_hold [OF ex(1) example_settings_ok(2)] ex show ?thesis by auto
qed

text \<open>
  C13. Submission is all or nothing: an error leaves the engine as it was up to its metrics, and occurs only
  when the engine is shutting down, has its maximum of active jobs, has no room for the whole batch, or
  knows the key with another fingerprint; a reuse names a stored job with the same fingerprint and changes
  nothing but metrics; an acceptance stores one running job under the fresh id, queues exactly its items
  and leaves every other job and queue alone.
\<close>

theorem submission_all_or_nothing:
  assumes "reachable sha256 s e G" "gate_settings_ok s" "fresh_id uid e"
    "submit_with_idempotency sha256 clk uid ps prio key e = (r, e')"
  shows "case r of
      Inl err \<Rightarrow> (\<exists>f. e' = tally f e) \<and>
        (\<not> eng_accepting e \<or> max_active_jobs s \<le> active_jobs e \<or>
         max_queue_size s < pending (eng_scheduler e) + int (length ps) \<or>
         (\<exists>k j. key = Some k \<and> find_by_idempotency_key (eng_store e) k = Some j \<and>
            request_fingerprint j \<noteq> Some (fingerprint sha256 ps prio)))
    | Inr (jid, True) \<Rightarrow> (\<exists>f. e' = tally f e) \<and>
        (\<exists>j. get_job e jid = Some j \<and> request_fingerprint j = Some (fingerprint sha256 ps prio))
    | Inr (jid, False) \<Rightarrow> jid = uid \<and>
        (\<exists>j. get_job e' uid = Some j \<and> state j = RUNNING \<and> total j = int (length ps) \<and> results j = []) \<and>
        items_of (eng_scheduler e') uid = work_items ps \<and>
        pending (eng_scheduler e') = pending (eng_scheduler e) + int (length ps) \<and>
        (\<forall>k. k \<noteq> uid \<longrightarrow> get_job e' k = get_job e k \<and> items_of (eng_scheduler e') k = items_of (eng_scheduler e) k)"
  using assms by (rule submit_cases)

theorem submission_all_or_nothing_witness:
  "\<exists>e G e'. reachable id example_settings e G \<and>
     submit_with_idempotency id (tick 9) ''job-2'' example_prompts LOW None e = (Inr (''job-2'', False), e') \<and>
     items_of (eng_scheduler e') ''job-2'' = work_items example_prompts \<and>
     (\<exists>j. get_job e' ''job-2'' = Some j \<and> state j = RUNNING \<and> total j = 2)"
proof -
  let ?e = "new_engine example_settings new_metrics"
  have fresh: "fresh_id ''job-2'' ?e" by (simp add: engine_exec)
  obtain e' where "submit_with_idempotency id (tick 9) ''job-2'' example_prompts LOW None ?e = (Inr (''job-2'', False), e')"
    by (simp add: engine_exec)
  from submission_all_or_nothing [OF reachable.start example_settings_ok(2) fresh this] this reachable.start
  show ?thesis by (force simp: example_prompts_def)
qed

section \<open>Progress\<close>

text \<open>
  C6. No livelock: on reachable states, worker events other than refused token-bucket passes form a
  well-founded relation. With a finite amount of submitted work the workers therefore reach, in finitely
  many turns and under every schedule and every sequence of provider replies, a state where none can move.
\<close>

theorem worker_events_terminate:
  assumes "live_settings_ok s"
  shows "wf {(e', e). \<exists>G clk ev. reachable sha256 s e G \<and> worker_event ev \<and> \<not> token_refused clk ev e \<and>
    engine_step sha256 clk ev e = Some e'}"
proof (rule wf_subset [OF wf_inv_image [of progress_order progress]])
  show "wf progress_order" by (intro wf_lex_prod wf_less_than)
  have "gate_settings_ok s" using assms by (simp add: live_settings_ok_def)
  then show "{(e', e). \<exists>G clk ev. reachable sha256 s e G \<and> worker_event ev \<and> \<not> token_refused clk ev e \<and>
      engine_step sha256 clk ev e = Some e'} \<subseteq> inv_image progress_order progress"
    using worker_event_progress reachable_pool reachable_book reachable_live [OF _ assms]
    by (fastforce simp: in_inv_image)
qed

theorem worker_events_terminate_witness:
  "wf {(e', e). \<exists>G clk ev. reachable id example_settings e G \<and> worker_event ev \<and> \<not> token_refused clk ev e \<and>
     engine_step id clk ev e = Some e'}"
  by (rule worker_events_terminate [OF example_settings_ok(1)])

text \<open>
  C5. Nothing is left behind: when an accepting engine has no worker that can move (none, or all parked),
  then there is no worker and no queued prompt at all, and every non-empty job has either completed with
  all its results or been cancelled.
\<close>

theorem quiescent_engine_is_done:
  assumes "reachable sha256 s e G" "live_settings_ok s" "eng_accepting e"
    "\<forall>w ph. dict_get (eng_workers e) w = Some ph \<longrightarrow> ph = Parked"
  shows "eng_workers e = [] \<and> pending (eng_scheduler e) = 0 \<and>
    (\<forall>jid j. get_job e jid = Some j \<and> 0 < total j \<longrightarrow>
       state j = COMPLETED \<and> completed j = total j \<or> state j = CANCELLED)"
proof -
  have book: "book_inv G e" using reachable_book [OF assms(1)] assms(2) by (simp add: live_settings_ok_def)
  note live = reachable_live [OF assms(1,2)]
  have q: "quiescent e" using assms(4) by (simp add: quiescent_def)
  show ?thesis
    using quiescent_drained [OF book live q assms(3)] quiescent_jobs [OF book live q assms(3)] by blast
qed

definition example_rest :: "(clock \<times> engine_event) list" where
  "example_rest = [(tick 3, RunWorker 0), (tick 3, RunWorker 1)]"

lemma example_rest_value:
  "map_option (\<lambda>(e, G). (eng_workers e, eng_accepting e,
       map_option (\<lambda>j. (state j, total j)) (get_job e ''job-1'')))
     (example_run (example_start @ example_finish @ example_rest)) =
   Some ([], True, Some (COMPLETED, 2))"
  by (simp add: engine_exec example_rest_def)

theorem quiescent_engine_is_done_witness:
  "\<exists>e G j. reachable id example_settings e G \<and> eng_workers e = [] \<and> get_job e ''job-1'' = Some j \<and>
     state j = COMPLETED \<and> pending (eng_scheduler e) = 0"
proof -
  obtain e G j where run: "example_run (example_start @ example_finish @ example_rest) = Some (e, G)"
    and ex: "eng_workers e = []" "eng_accepting e" "get_job e ''job-1'' = Some j" "state j = COMPLETED"
    using example_rest_value by (auto simp: map_option_eq_Some)
  have "\<forall>w ph. dict_get (eng_workers e) w = Some ph \<longrightarrow> ph = Parked" by (simp add: ex(1))
  from quiescent_engine_is_done [OF example_reachable [OF run] example_settings_ok(1) ex(2) this]
    example_reachable [OF run] ex show ?thesis by blast
qed

text \<open>
  C17. No lost wake-up: whenever a worker is parked in the limiter's condition queue, some other worker is
  not, so a release and its notification are still to come; and as long as prompts are queued on an
  accepting engine there is a live worker.
\<close>

theorem parked_workers_are_woken:
  assumes "reachable sha256 s e G" "live_settings_ok s"
  shows "(dict_get (eng_workers e) w = Some Parked \<longrightarrow>
      w \<in> set (lim_waiters (eng_limiter e)) \<and> (\<exists>v ph. dict_get (eng_workers e) v = Some ph \<and> ph \<noteq> Parked)) \<and>
    (eng_accepting e \<and> 0 < pending (eng_scheduler e) \<longrightarrow> eng_workers e \<noteq> [])"
proof -
  have "pool_inv e" using reachable_pool [OF assms(1)] assms(2) by (simp add: live_settings_ok_def)
  then show ?thesis
    using reachable_live [OF assms] by (auto simp: live_ok_def stirred_def awake_def pool_ok_def)
qed

definition narrow_settings :: settings where
  "narrow_settings = example_settings\<lparr>global_max_concurrency := 1\<rparr>"

theorem parked_workers_are_woken_witness:
  "\<exists>e G. run_events id (take 3 example_start) (new_engine narrow_settings new_metrics, \<lambda>_. None) = Some (e, G) \<and>
     dict_get (eng_workers e) 1 = Some Parked \<and> 1 \<in> set (lim_waiters (eng_limiter e)) \<and>
     (\<exists>v ph. dict_get (eng_workers e) v = Some ph \<and> ph \<noteq> Parked)"
proof -
  have "map_option (\<lambda>(e, G). dict_get (eng_workers e) 1)
      (run_events id (take 3 example_start) (new_engine narrow_settings new_metrics, \<lambda>_. None)) = Some (Some Parked)"
    by (simp add: engine_exec narrow_settings_def)
  then obtain e G where run: "run_events id (take 3 example_start) (new_engine narrow_settings new_metrics, \<lambda>_. None) = Some (e, G)"
    and w: "dict_get (eng_workers e) 1 = Some Parked"
    by (auto simp: map_option_eq_Some)
  have "live_settings_ok narrow_settings"
    by (simp add: narrow_settings_def example_settings_def live_settings_ok_def gate_settings_ok_def)
  from parked_workers_are_woken [OF run_events_reachable [OF run reachable.start] this, of 1] run w show ?thesis by blast
qed

text \<open>
  C31. A configured request rate below one per second (and no burst) stalls the engine for ever: the bucket's
  capacity is the rate itself, a call needs a whole token, and so in every reachable state every worker is
  before its first provider call, whatever the clock says.
\<close>

theorem low_rate_never_calls_provider:
  assumes "reachable sha256 s e G" "gate_settings_ok s" "0 < provider_max_rps s" "provider_max_rps s < 1"
    "provider_burst s = 0" "fl (provider_max_rps s) = provider_max_rps s"
  shows "\<forall>w jid it n start. dict_get (eng_workers e) w \<noteq> Some (AwaitReply jid it n start)"
proof -
  have "starved_inv s e" using reachable_starved [OF assms(1,2)] assms(3-6) by (simp add: token_starved_def)
  then show ?thesis unfolding starved_inv_def by (metis before_call.simps(4))
qed

definition slow_settings :: settings where
  "slow_settings = example_settings\<lparr>provider_max_rps := 1 / 2\<rparr>"

theorem low_rate_never_calls_provider_witness:
  "\<exists>e G. run_events id (take 2 example_start) (new_engine slow_settings new_metrics, \<lambda>_. None) = Some (e, G) \<and>
     dict_get (eng_workers e) 0 =
       Some (AwaitToken ''job-1'' \<lparr>item_seq = 0, item_id = ''prompt-1'', item_prompt = ''hello''\<rparr> 1 0) \<and>
     (\<forall>w jid it n start. dict_get (eng_workers e) w \<noteq> Some (AwaitReply jid it n start))"
proof -
  have "map_option (\<lambda>(e, G). dict_get (eng_workers e) 0)
      (run_events id (take 2 example_start) (new_engine slow_settings new_metrics, \<lambda>_. None)) =
    Some (Some (AwaitToken ''job-1'' \<lparr>item_seq = 0, item_id = ''prompt-1'', item_prompt = ''hello''\<rparr> 1 0))"
    by (simp add: engine_exec slow_settings_def tb_refill_def)
  then obtain e G where run: "run_events id (take 2 example_start) (new_engine slow_settings new_metrics, \<lambda>_. None) = Some (e, G)"
    and w: "dict_get (eng_workers e) 0 = Some (AwaitToken ''job-1'' \<lparr>item_seq = 0, item_id = ''prompt-1'', item_prompt = ''hello''\<rparr> 1 0)"
    by (auto simp: map_option_eq_Some)
  have half: "fl (1 / 2) = 1 / 2" using fl_representable [of 1 "- 1"] by (simp add: power_int_def)
  have s: "gate_settings_ok slow_settings" "0 < provider_max_rps slow_settings" "provider_max_rps slow_settings < 1"
    "provider_burst slow_settings = 0" "fl (provider_max_rps slow_settings) = provider_max_rps slow_settings"
    using half by (simp_all add: slow_settings_def example_settings_def gate_settings_ok_def)
  from low_rate_never_calls_provider [OF run_events_reachable [OF run reachable.start] s] run w show ?thesis by blast
qed

section \<open>Cancellation, replay, shutdown\<close>

text \<open>
  C18. Cancelling a running job drops its queued prompts, marks it cancelled with a finish time, removes it
  from the active set and touches no other job; a second cancel is refused. Items already with a worker
  still settle, but cannot bring the job back.
\<close>

theorem cancel_is_final:
  assumes "reachable sha256 s e G" "gate_settings_ok s" "get_job e jid = Some j" "state j = RUNNING"
    "cancel clk jid e = (r, e')"
  shows "r = Some True \<and> items_of (eng_scheduler e') jid = [] \<and> jid \<notin> set (eng_active e') \<and>
    (\<forall>k. k \<noteq> jid \<longrightarrow> get_job e' k = get_job e k \<and> items_of (eng_scheduler e') k = items_of (eng_scheduler e) k) \<and>
    (\<exists>j'. get_job e' jid = Some j' \<and> state j' = CANCELLED \<and> finished_at j' \<noteq> None \<and> results j' = results j) \<and>
    fst (cancel clk' jid e') = Some False"
proof -
  have nt: "\<not> terminal (state j)" using assms(4) by (simp add: terminal_def)
  then have e': "e' = refresh_gauges (tally (m_jobs_cancelled_update ctr_inc1)
      (finalize jid CANCELLED clk (e\<lparr>eng_scheduler := snd (remove_job jid (eng_scheduler e))\<rparr>)))" and r: "r = Some True"
    using assms(3,5) by (auto simp: cancel_def Let_def)
  have get: "get_job e' k = (if k = jid then Some (finish_job CANCELLED (clk_wall clk) j) else get_job e k)" for k
    using assms(3) by (simp add: e' get_job_def frame dict_simps)
  have "fst (cancel clk' jid e') = Some False" by (simp add: cancel_def get terminal_def)
  moreover have "items_of (eng_scheduler e') k = (if k = jid then [] else items_of (eng_scheduler e) k)" for k
    by (simp add: e' frame items_of_remove_job)
  moreover have "jid \<notin> set (eng_active e')" by (simp add: e' frame)
  ultimately show ?thesis using r by (simp add: get) (simp add: finish_job_def split: option.split)
qed

theorem cancel_is_final_witness:
  "\<exists>e G r e'. reachable id example_settings e G \<and> cancel (tick 5) ''job-1'' e = (r, e') \<and> r = Some True \<and>
     fst (cancel (tick 6) ''job-1'' e') = Some False"
proof -
  obtain e G j where ex: "reachable id example_settings e G" "get_job e ''job-1'' = Some j" "state j = RUNNING"
    using example_mid by metis
  obtain r e' where c: "cancel (tick 5) ''job-1'' e = (r, e')" by fastforce
  from cancel_is_final [OF ex(1) example_settings_ok(2) ex(2,3) c] ex c show ?thesis by blast
qed

text \<open>
  C19. Replay resubmits exactly the failures: when replaying a job on a reachable engine is accepted, the
  answer is the fresh id, the new job is running with the old one's failed count as its total, and its
  queue holds one item per dead-letter entry, in submission order, with that entry's prompt and id. An
  unknown job, or one without failures, gives nothing and changes nothing.
\<close>

theorem replay_resubmits_failures:
  assumes "reachable sha256 s e G" "gate_settings_ok s" "fresh_id uid e" "get_job e jid = Some j"
    "replay_failed sha256 clk uid jid prio e = (Some (Inr x), e')"
  shows "x = uid \<and> get_job e' jid = Some j \<and>
    (\<exists>j'. get_job e' uid = Some j' \<and> total j' = failed j \<and> 0 < failed j \<and> state j' = RUNNING \<and> results j' = [] \<and>
       job_priority j' = (case prio of Some p \<Rightarrow> p | None \<Rightarrow> job_priority j)) \<and>
    map item_prompt (items_of (eng_scheduler e') uid) = map res_prompt (dead_letter j) \<and>
    (\<forall>i < length (dead_letter j). res_id (dead_letter j ! i) \<noteq> [] \<longrightarrow>
       item_id (items_of (eng_scheduler e') uid ! i) = res_id (dead_letter j ! i))"
proof -
  let ?p = "case prio of Some p \<Rightarrow> p | None \<Rightarrow> job_priority j"
  have ne: "dead_letter j \<noteq> []" and x: "x = uid"
    and e': "e' = register_job clk uid (replay_prompts j) ?p None (fingerprint sha256 (replay_prompts j) ?p) e"
    using assms(4,5)
    by (auto simp: replay_failed_def submit_def submit_with_idempotency_def admit_def Let_def apfst_def map_prod_def
        split: if_splits)
  have get: "get_job e' k = (if k = uid then Some (submitted_job clk uid (replay_prompts j) ?p None
      (fingerprint sha256 (replay_prompts j) ?p)) else get_job e k)" for k
    by (simp add: e' get_job_def frame dict_simps submitted_job_def new_job_def)
  have items: "items_of (eng_scheduler e') uid = work_items (replay_prompts j)"
    by (simp add: e' frame items_of_add_job)
  have ids: "item_id (work_items (replay_prompts j) ! i) = res_id (dead_letter j ! i)"
    if "i < length (dead_letter j)" "res_id (dead_letter j ! i) \<noteq> []" for i
    using that by (simp add: work_items_def work_item_of_def nth_enumerate_eq replay_prompts_def)
  have "failed j = int (length (dead_letter j))" by (rule failed_is_dead_letter [OF assms(1,2,4)])
  with ne x get assms(3,4) items ids show ?thesis
    by (auto simp: work_items_prompts fresh_id_def submitted_job_def new_job_def replay_prompts_def)
qed

lemma example_replay_value:
  "map_option (\<lambda>(e, G). (fresh_id ''job-2'' e, fst (replay_failed id (tick 9) ''job-2'' ''job-1'' None e)))
     (example_run (example_start @ example_finish)) = Some (True, Some (Inr ''job-2''))"
  by (simp add: engine_exec replay_failed_def submit_def replay_prompts_def dead_letter_def ordered_results_def)

theorem replay_resubmits_failures_witness:
  "\<exists>e G j e' j'. reachable id example_settings e G \<and> get_job e ''job-1'' = Some j \<and>
     replay_failed id (tick 9) ''job-2'' ''job-1'' None e = (Some (Inr ''job-2''), e') \<and>
     get_job e' ''job-2'' = Some j' \<and> total j' = failed j \<and> state j' = RUNNING"
proof -
  obtain e G j where ex: "example_run (example_start @ example_finish) = Some (e, G)" "reachable id example_settings e G"
    "get_job e ''job-1'' = Some j"
    using example_done by metis
  have fresh: "fresh_id ''job-2'' e" and "fst (replay_failed id (tick 9) ''job-2'' ''job-1'' None e) = Some (Inr ''job-2'')"
    using example_replay_value ex(1) by simp_all
  then obtain e' where r: "replay_failed id (tick 9) ''job-2'' ''job-1'' None e = (Some (Inr ''job-2''), e')"
    by (metis prod.collapse)
  from replay_resubmits_failures [OF ex(2) example_settings_ok(2) fresh ex(3) r] ex r show ?thesis by blast
qed

text \<open>
  C15. Shutdown leaves nothing running: from every reachable state the shutdown sequence (stop accepting,
  cancel every worker, cancel the unfinished jobs) ends with no worker, no permit in use, no parked waiter
  and no pending or running job; jobs that had finished keep their state and results; and every later
  submission is refused without effect.
\<close>

theorem shutdown_leaves_nothing_running:
  assumes "reachable sha256 s e G" "gate_settings_ok s"
  shows "eng_workers (shutdown clk e) = [] \<and> lim_in_use (eng_limiter (shutdown clk e)) = 0 \<and>
    lim_waiters (eng_limiter (shutdown clk e)) = [] \<and>
    (\<forall>jid j. get_job (shutdown clk e) jid = Some j \<longrightarrow> state j \<notin> {PENDING, RUNNING}) \<and>
    (\<forall>jid j. get_job e jid = Some j \<and> terminal (state j) \<longrightarrow>
       (\<exists>j'. get_job (shutdown clk e) jid = Some j' \<and> state j' = state j \<and> finished_at j' = finished_at j)) \<and>
    submit_with_idempotency sha256 clk' uid ps prio key (shutdown clk e) =
      (Inl (OverloadedError (overload_retry_after_seconds s) ''Service is shutting down''), shutdown clk e)"
proof -
  have pool: "pool_inv e" and ok: "store_ok (eng_store e)"
    using reachable_pool [OF assms] book_okD(1) reachable_book [OF assms] by blast+
  note end_state = shutdown_effect [OF pool ok]
  have "\<not> eng_accepting (cancel_workers (shutdown_begin e))" "eng_workers (cancel_workers (shutdown_begin e)) = []"
    using pool cancel_workers_pool(2) [of "shutdown_begin e"] by (simp_all add: frame shutdown_begin_def)
  then have "run_events sha256 [(clk, ShutdownBegin), (clk, CancelWorkers), (clk, InterruptJobs)] (e, G) =
      Some (shutdown clk e, G)"
    by (simp add: shutdown_def) (simp add: shutdown_begin_def)
  from run_evolves [OF this assms] have evo: "store_evolves (eng_store e) (eng_store (shutdown clk e))"
    and set: "eng_settings (shutdown clk e) = s"
    using reachable_settings by blast+
  have "\<exists>j'. get_job (shutdown clk e) jid = Some j' \<and> state j' = state j \<and> finished_at j' = finished_at j"
    if "get_job e jid = Some j" "terminal (state j)" for jid j
    using evo that unfolding store_evolves_def get_job_def job_evolves_def by metis
  with end_state set show ?thesis by (simp add: submit_with_idempotency_def)
qed

theorem shutdown_leaves_nothing_running_witness:
  "\<exists>e G j. reachable id example_settings e G \<and> get_job e ''job-1'' = Some j \<and> state j = RUNNING \<and>
     eng_workers e \<noteq> [] \<and> eng_workers (shutdown (tick 7) e) = [] \<and> lim_in_use (eng_limiter (shutdown (tick 7) e)) = 0"
proof -
  obtain e G j where ex: "reachable id example_settings e G" "get_job e ''job-1'' = Some j" "state j = RUNNING"
    "eng_workers e \<noteq> []"
    using example_mid by (metis list.distinct(1))
  from shutdown_leaves_nothing_running [OF ex(1) example_settings_ok(2), of "tick 7"] ex show ?thesis by blast
qed

end
